(* ===== verification/Prelude.thy ===== *)
theory Prelude
  imports Main "HOL-Library.Word" "HOL-Library.Multiset"
begin

text \<open>
  Shared vocabulary of the development: the errors a C++ function of the library can end
  with, results that carry them, checked access to a \<open>std::vector\<close>, bounded loops, and the
  generic list lemmas the component theories use. Nothing here models a particular function
  of the repository except the loop that collects the marked elements of a vector, which
  the two PSI protocols share.
\<close>

section \<open>Errors and results\<close>

text \<open>
  \<open>Invalid_Argument\<close>, \<open>Runtime_Error\<close>, \<open>Out_Of_Range\<close> and \<open>Length_Error\<close> are the C++
  exceptions of the same names with their messages. \<open>Undefined_Behaviour\<close> marks an
  operation the language leaves undefined: an index outside a vector, a null dereference,
  a conversion of a \<open>double\<close> whose value does not fit.
\<close>

datatype error =
    Invalid_Argument string
  | Runtime_Error string
  | Out_Of_Range string
  | Length_Error string
  | Json_Error string
  | Undefined_Behaviour string

type_synonym 'a res = "error + 'a"

type_synonym byte = "8 word"

named_theorems res_simps \<open>evaluation of results and checked accesses\<close>

fun is_ub :: "error \<Rightarrow> bool" where
  "is_ub (Undefined_Behaviour m) = True"
| "is_ub e = False"

definition res_bind :: "'a res \<Rightarrow> ('a \<Rightarrow> 'b res) \<Rightarrow> 'b res" where
  "res_bind r f = (case r of Inl e \<Rightarrow> Inl e | Inr x \<Rightarrow> f x)"

lemma res_bind_Inl [simp]: "res_bind (Inl e) f = Inl e"
  by (simp add: res_bind_def)

lemma res_bind_Inr [simp]: "res_bind (Inr x) f = f x"
  by (simp add: res_bind_def)

lemma res_bind_Inr_right [simp]: "res_bind r Inr = r"
  by (cases r) simp_all

lemma res_bind_eq_Inr: "res_bind r f = Inr y \<longleftrightarrow> (\<exists>x. r = Inr x \<and> f x = Inr y)"
  by (cases r) simp_all

lemma res_bind_eq_Inl:
  "res_bind r f = Inl e \<longleftrightarrow> r = Inl e \<or> (\<exists>x. r = Inr x \<and> f x = Inl e)"
  by (cases r) simp_all

lemma res_bind_assoc: "res_bind (res_bind r f) g = res_bind r (\<lambda>x. res_bind (f x) g)"
  by (cases r) simp_all

section \<open>Checked vector access\<close>

text \<open>\<open>v[i]\<close>, \<open>v[i] = x\<close> and the iterator range \<open>[v.begin() + a, v.begin() + b)\<close>.\<close>

definition vec_at :: "'a list \<Rightarrow> nat \<Rightarrow> 'a res" where
  "vec_at xs i = (if i < length xs then Inr (xs ! i) else Inl (Undefined_Behaviour ''vector read''))"

definition vec_set :: "'a list \<Rightarrow> nat \<Rightarrow> 'a \<Rightarrow> 'a list res" where
  "vec_set xs i x =
     (if i < length xs then Inr (xs[i := x]) else Inl (Undefined_Behaviour ''vector write''))"

definition slice :: "'a list \<Rightarrow> nat \<Rightarrow> nat \<Rightarrow> 'a list res" where
  "slice xs a b =
     (if a \<le> b \<and> b \<le> length xs then Inr (take (b - a) (drop a xs))
      else Inl (Undefined_Behaviour ''vector range''))"

lemma vec_at_in [simp, res_simps]: "i < length xs \<Longrightarrow> vec_at xs i = Inr (xs ! i)"
  by (simp add: vec_at_def)

lemma vec_at_out [res_simps]:
  "length xs \<le> i \<Longrightarrow> vec_at xs i = Inl (Undefined_Behaviour ''vector read'')"
  by (simp add: vec_at_def)

lemma vec_set_in [simp, res_simps]: "i < length xs \<Longrightarrow> vec_set xs i x = Inr (xs[i := x])"
  by (simp add: vec_set_def)

lemma vec_set_out [res_simps]:
  "length xs \<le> i \<Longrightarrow> vec_set xs i x = Inl (Undefined_Behaviour ''vector write'')"
  by (simp add: vec_set_def)

lemma vec_eq_Inr:
  "vec_at xs i = Inr x \<longleftrightarrow> i < length xs \<and> x = xs ! i"
  "vec_set xs i y = Inr ys \<longleftrightarrow> i < length xs \<and> ys = xs[i := y]"
  by (auto simp: vec_at_def vec_set_def)

lemma slice_in [res_simps]:
  "a \<le> b \<Longrightarrow> b \<le> length xs \<Longrightarrow> slice xs a b = Inr (take (b - a) (drop a xs))"
  by (simp add: slice_def)

section \<open>Sizes\<close>

text \<open>Products of \<open>std::size_t\<close> wrap; a vector longer than its \<open>max_size()\<close> throws.\<close>

definition size_mul :: "nat \<Rightarrow> nat \<Rightarrow> nat" where
  "size_mul a b = (a * b) mod 2 ^ 64"

definition max_bytes :: nat where "max_bytes = 2 ^ 63 - 1"
text \<open>\<open>max_bits\<close> is the limit of a \<open>std::vector<bool>\<close>, 24 bytes the size of a vector object.\<close>

definition max_bits :: nat where "max_bits = 2 ^ 63 - 64"
definition max_vectors :: nat where "max_vectors = (2 ^ 63 - 1) div 24"

definition vec_reserve :: "nat \<Rightarrow> nat \<Rightarrow> unit res" where
  "vec_reserve max_size n = (if max_size < n then Inl (Length_Error ''vector::reserve'') else Inr ())"

definition vec_grow :: "nat \<Rightarrow> nat \<Rightarrow> unit res" where
  "vec_grow max_size n =
     (if max_size < n then Inl (Length_Error ''vector::_M_default_append'') else Inr ())"

definition vec_create :: "nat \<Rightarrow> nat \<Rightarrow> unit res" where
  "vec_create max_size n =
     (if max_size < n then Inl (Length_Error ''cannot create std::vector larger than max_size()'')
      else Inr ())"

lemma vec_size_ok [res_simps]:
  "n \<le> m \<Longrightarrow> vec_create m n = Inr ()"
  "n \<le> m \<Longrightarrow> vec_reserve m n = Inr ()"
  "n \<le> m \<Longrightarrow> vec_grow m n = Inr ()"
  by (simp_all add: vec_create_def vec_reserve_def vec_grow_def)

section \<open>Loops\<close>

text \<open>A loop over a list of items that stops at the first error.\<close>

primrec fold_res :: "('x \<Rightarrow> 's \<Rightarrow> 's res) \<Rightarrow> 'x list \<Rightarrow> 's \<Rightarrow> 's res" where
  "fold_res f [] s = Inr s"
| "fold_res f (x # xs) s = res_bind (f x s) (fold_res f xs)"

text \<open>\<open>for (i = 0; i < n; ++i)\<close>.\<close>

definition for_upto :: "nat \<Rightarrow> (nat \<Rightarrow> 's \<Rightarrow> 's res) \<Rightarrow> 's \<Rightarrow> 's res" where
  "for_upto n f s = fold_res f [0..<n] s"

primrec map_res :: "('a \<Rightarrow> 'b res) \<Rightarrow> 'a list \<Rightarrow> 'b list res" where
  "map_res f [] = Inr []"
| "map_res f (x # xs) = res_bind (f x) (\<lambda>y. res_bind (map_res f xs) (\<lambda>ys. Inr (y # ys)))"

lemma fold_res_append:
  "fold_res f (xs @ ys) s = res_bind (fold_res f xs s) (fold_res f ys)"
proof (induction xs arbitrary: s)
  case Nil
  then show ?case by simp
next
  case (Cons x xs)
  then show ?case by (cases "f x s") simp_all
qed

lemma fold_res_Nil [simp]: "fold_res f [] = Inr"
  by (rule ext) simp

lemma fold_res_single [simp]: "fold_res f [x] = f x"
  by (rule ext) simp

lemma for_upto_0 [simp]: "for_upto 0 f s = Inr s"
  by (simp add: for_upto_def)

lemma for_upto_Suc: "for_upto (Suc n) f s = res_bind (for_upto n f s) (f n)"
  by (simp add: for_upto_def fold_res_append)

text \<open>The invariant rule of a counted loop that meets no error.\<close>

lemma for_upto_invariant:
  assumes "P 0 s"
    and "\<And>i t. i < n \<Longrightarrow> P i t \<Longrightarrow> \<exists>t'. f i t = Inr t' \<and> P (Suc i) t'"
  shows "\<exists>t. for_upto n f s = Inr t \<and> P n t"
  using assms
proof (induction n)
  case 0
  then show ?case by simp
next
  case (Suc n)
  then obtain t where t: "for_upto n f s = Inr t" "P n t" by auto
  with Suc.prems(2)[of n t] obtain t' where "f n t = Inr t'" "P (Suc n) t'" by auto
  with t show ?case by (simp add: for_upto_Suc)
qed

text \<open>What holds after a counted loop that met no error.\<close>

lemma for_upto_partial:
  assumes "for_upto n f s = Inr t" and "P 0 s"
    and "\<And>i u v. i < n \<Longrightarrow> P i u \<Longrightarrow> f i u = Inr v \<Longrightarrow> P (Suc i) v"
  shows "P n t"
  using assms
proof (induction n arbitrary: t)
  case (Suc n)
  then obtain u where "for_upto n f s = Inr u" "f n u = Inr t" by (auto simp: for_upto_Suc res_bind_eq_Inr)
  with Suc show ?case by simp
qed simp

text \<open>A counted loop whose state is a known function of the counter.\<close>

lemma for_upto_trace:
  assumes "\<And>i. i < n \<Longrightarrow> f i (g i) = Inr (g (Suc i))"
  shows "for_upto n f (g 0) = Inr (g n)"
  using assms by (induction n) (simp_all add: for_upto_Suc)

lemma for_upto_error:
  assumes "i < n" and "for_upto i f s = Inr t" and "f i t = Inl e"
  shows "for_upto n f s = Inl e"
proof -
  have "[0..<n] = [0..<i] @ i # [Suc i..<n]"
    using assms(1) by (metis less_imp_le_nat upt_add_eq_append upt_conv_Cons le_add_diff_inverse zero_le)
  then show ?thesis
    using assms(2,3) by (simp add: for_upto_def fold_res_append)
qed

text \<open>
  A loop whose body rewrites only the element of its own index gives the same vector in
  whatever order the indices are visited.
\<close>

lemma fold_res_update:
  assumes "\<And>i t. i < n \<Longrightarrow> length t = n \<Longrightarrow> f i t = Inr (t[i := h i (t ! i)])"
    and "distinct p" and "set p \<subseteq> {0..<n}" and "length t = n"
  shows "fold_res f p t = Inr (map (\<lambda>i. if i \<in> set p then h i (t ! i) else t ! i) [0..<n])"
  using assms(2-)
proof (induction p arbitrary: t)
  case Nil
  have "map ((!) t) [0..<length t] = t" by (rule map_nth)
  with Nil show ?case by simp
next
  case (Cons i p)
  let ?t = "t[i := h i (t ! i)]"
  have i: "i < n" "i \<notin> set p" using Cons.prems by simp_all
  have "fold_res f p ?t = Inr (map (\<lambda>j. if j \<in> set p then h j (?t ! j) else ?t ! j) [0..<n])"
    using Cons.prems by (intro Cons.IH) simp_all
  moreover have "map (\<lambda>j. if j \<in> set p then h j (?t ! j) else ?t ! j) [0..<n] =
      map (\<lambda>j. if j \<in> set (i # p) then h j (t ! j) else t ! j) [0..<n]"
    using i Cons.prems by (intro nth_equalityI) (auto simp: nth_list_update)
  moreover have "f i t = Inr ?t" using i(1) Cons.prems(3) by (rule assms(1))
  ultimately show ?case by simp
qed

lemma distinct_upt_perm: "mset p = mset [0..<n] \<longleftrightarrow> distinct p \<and> set p = {0..<n}"
  by (metis atLeastLessThan_upt distinct_upt mset_eq_imp_distinct_iff set_eq_iff_mset_eq_distinct
      mset_eq_setD)

lemma fold_res_update_all:
  assumes "\<And>i t. i < n \<Longrightarrow> length t = n \<Longrightarrow> f i t = Inr (t[i := h i (t ! i)])"
    and "mset p = mset [0..<n]" and "length t = n"
  shows "fold_res f p t = Inr (map (\<lambda>i. h i (t ! i)) [0..<n])"
proof -
  have "distinct p" "set p = {0..<n}"
    using assms(2) distinct_upt_perm by blast+
  with fold_res_update [of n f h p t, OF assms(1)] assms(3) show ?thesis by simp
qed

lemma for_upto_update:
  assumes "\<And>i t. i < n \<Longrightarrow> length t = n \<Longrightarrow> f i t = Inr (t[i := h i (t ! i)])"
    and "length t = n"
  shows "for_upto n f t = Inr (map (\<lambda>i. h i (t ! i)) [0..<n])"
  unfolding for_upto_def using assms by (intro fold_res_update_all) simp_all

lemma map_res_Inr: "(\<And>x. x \<in> set xs \<Longrightarrow> f x = Inr (g x)) \<Longrightarrow> map_res f xs = Inr (map g xs)"
  by (induction xs) simp_all

lemma map_res_no_error:
  "(\<And>x. x \<in> set xs \<Longrightarrow> \<exists>y. f x = Inr y) \<Longrightarrow> \<exists>ys. map_res f xs = Inr ys \<and> length ys = length xs"
proof (induction xs)
  case Nil
  then show ?case by simp
next
  case (Cons x xs)
  then obtain y ys where "f x = Inr y" "map_res f xs = Inr ys" "length ys = length xs"
    by (metis list.set_intros(1,2))
  then show ?case by simp
qed

section \<open>Generic list lemmas\<close>

lemma nth_update_map_upt:
  "i < n \<Longrightarrow> (map f [0..<n])[i := x] = map (\<lambda>k. if k = i then x else f k) [0..<n]"
  by (rule nth_equalityI) (auto simp: nth_list_update)

lemma map_nth_upt: "map (\<lambda>i. f (xs ! i)) [0..<length xs] = map f xs"
  by (rule nth_equalityI) simp_all

lemma perm_length: "mset p = mset [0..<n] \<Longrightarrow> length p = n"
  by (metis diff_zero length_upt size_mset)

lemma perm_nth_less: "mset p = mset [0..<n] \<Longrightarrow> i < n \<Longrightarrow> p ! i < n"
  by (metis atLeastLessThan_iff distinct_upt_perm nth_mem perm_length)

lemma perm_nth_inj: "mset p = mset [0..<n] \<Longrightarrow> i < n \<Longrightarrow> j < n \<Longrightarrow> p ! i = p ! j \<longleftrightarrow> i = j"
  by (metis distinct_upt_perm nth_eq_iff_index_eq perm_length)

lemma perm_nth_onto: "mset p = mset [0..<n] \<Longrightarrow> k < n \<Longrightarrow> \<exists>i<n. p ! i = k"
  by (metis atLeastLessThan_iff distinct_upt_perm in_set_conv_nth le0 perm_length)

lemma mset_map_nth_perm: "mset p = mset [0..<length xs] \<Longrightarrow> mset (map ((!) xs) p) = mset xs"
  by (metis map_nth mset_map)

end
