(* ===== verification/Permutations.thy ===== *)
theory Permutations
  imports Prelude
begin

text \<open>
  \<open>util/permutation.h\<close>. \<open>generate_permutation\<close> fills a vector with \<open>0 .. n - 1\<close> and shuffles
  it with \<open>std::shuffle\<close>; \<open>permute_and_undo\<close> applies a permutation to a vector or undoes it.
  The uniform draws of the shuffle come from the generator of the crypto library, a
  parameter here: \<open>draw g i\<close> is a value of \<open>[0, i]\<close> and the generator after it.
\<close>

section \<open>The code\<close>

type_synonym 'g uniform = "'g \<Rightarrow> nat \<Rightarrow> nat \<times> 'g"

text \<open>What \<open>std::uniform_int_distribution\<close> promises.\<close>

definition uniform_ok :: "'g uniform \<Rightarrow> bool" where
  "uniform_ok draw \<longleftrightarrow> (\<forall>g i. fst (draw g i) \<le> i)"

definition swap_at :: "'a list \<Rightarrow> nat \<Rightarrow> nat \<Rightarrow> 'a list res" where
  "swap_at xs i j =
     res_bind (vec_at xs i) (\<lambda>x. res_bind (vec_at xs j) (\<lambda>y.
       res_bind (vec_set xs i y) (\<lambda>ys. vec_set ys j x)))"

text \<open>
  \<open>std::shuffle\<close>: for each position from the second on, swap it with a drawn position that
  is not after it.
\<close>

definition std_shuffle :: "'g uniform \<Rightarrow> 'g \<Rightarrow> 'a list \<Rightarrow> ('a list \<times> 'g) res" where
  "std_shuffle draw g xs =
     for_upto (length xs - 1)
       (\<lambda>k (ys, h). let (j, h') = draw h (Suc k) in
          res_bind (swap_at ys (Suc k) j) (\<lambda>zs. Inr (zs, h')))
       (xs, g)"

definition generate_permutation :: "'g uniform \<Rightarrow> 'g \<Rightarrow> nat \<Rightarrow> (nat list \<times> 'g) res" where
  "generate_permutation draw g n = std_shuffle draw g [0..<n]"

text \<open>
  \<open>d\<close> is the value-initialised element (\<open>T()\<close>) that \<open>output.resize\<close> fills in.
\<close>

definition permute_and_undo :: "'a \<Rightarrow> nat list \<Rightarrow> bool \<Rightarrow> 'a list \<Rightarrow> 'a list res" where
  "permute_and_undo d permutation is_permute data =
     (if is_permute
      then for_upto (length permutation)
             (\<lambda>i output. res_bind (vec_at permutation i) (\<lambda>p.
                res_bind (vec_at data p) (\<lambda>x. vec_set output i x)))
             (replicate (length data) d)
      else for_upto (length permutation)
             (\<lambda>i output. res_bind (vec_at permutation i) (\<lambda>p.
                res_bind (vec_at data i) (\<lambda>x. vec_set output p x)))
             (replicate (length data) d))"

section \<open>Shuffling permutes\<close>

lemma swap_at_in:
  "i < length xs \<Longrightarrow> j < length xs \<Longrightarrow> swap_at xs i j = Inr (xs[i := xs ! j, j := xs ! i])"
  by (simp add: swap_at_def)

lemma std_shuffle_mset:
  assumes "uniform_ok draw"
  shows "\<exists>ys h. std_shuffle draw g xs = Inr (ys, h) \<and> mset ys = mset xs"
proof -
  let ?f = "\<lambda>k (ys, h). let (j, h') = draw h (Suc k) in
          res_bind (swap_at ys (Suc k) j) (\<lambda>zs. Inr (zs, h'))"
  let ?P = "\<lambda>k (s :: 'b list \<times> 'a). mset (fst s) = mset xs"
  have "\<exists>t. for_upto (length xs - 1) ?f (xs, g) = Inr t \<and> ?P (length xs - 1) t"
  proof (rule for_upto_invariant)
    show "?P 0 (xs, g)" by simp
  next
    fix i and s :: "'b list \<times> 'a"
    assume i: "i < length xs - 1" and p: "?P i s"
    obtain ys h where s: "s = (ys, h)" by (cases s)
    obtain j h' where d: "draw h (Suc i) = (j, h')" by (cases "draw h (Suc i)")
    have len: "length ys = length xs" using p s mset_eq_length by auto
    have "j \<le> Suc i" using assms d unfolding uniform_ok_def by (metis fst_conv)
    with i len have "Suc i < length ys" "j < length ys" by simp_all
    with p s d show "\<exists>t'. ?f i s = Inr t' \<and> ?P (Suc i) t'"
      by (auto simp: swap_at_in mset_swap)
  qed
  then show ?thesis by (auto simp: std_shuffle_def split: prod.splits)
qed

lemma generate_permutation_perm:
  assumes "uniform_ok draw"
  shows "\<exists>p h. generate_permutation draw g n = Inr (p, h) \<and> mset p = mset [0..<n]"
  unfolding generate_permutation_def using assms by (rule std_shuffle_mset)

section \<open>Applying and undoing\<close>

lemma permute_apply:
  assumes "length p = length xs" and "\<forall>i\<in>set p. i < length xs"
  shows "permute_and_undo d p True xs = Inr (map ((!) xs) p)"
proof -
  let ?g = "\<lambda>k. map (\<lambda>i. if i < k then xs ! (p ! i) else d) [0..<length xs]"
  have start: "?g 0 = replicate (length xs) d"
    by (rule nth_equalityI) simp_all
  have stop: "?g (length p) = map ((!) xs) p"
    using assms(1) by (intro nth_equalityI) simp_all
  have "for_upto (length p) (\<lambda>i output. res_bind (vec_at p i) (\<lambda>k.
          res_bind (vec_at xs k) (\<lambda>x. vec_set output i x))) (?g 0) = Inr (?g (length p))"
  proof (rule for_upto_trace [where g = ?g])
    fix i assume i: "i < length p"
    then have "p ! i < length xs" using assms(2) by simp
    moreover have "(?g i)[i := xs ! (p ! i)] = ?g (Suc i)"
      using i assms(1) by (intro nth_equalityI) (auto simp: nth_list_update)
    ultimately show "res_bind (vec_at p i) (\<lambda>k. res_bind (vec_at xs k) (\<lambda>x. vec_set (?g i) i x))
        = Inr (?g (Suc i))"
      using i assms(1) by simp
  qed
  then show ?thesis
    unfolding permute_and_undo_def start stop by simp
qed

text \<open>Undoing a permutation on a vector that may be longer: the rest holds the default.\<close>

lemma permute_undo_prefix:
  assumes p: "mset p = mset [0..<n]" and n: "n \<le> length xs"
  shows "\<exists>ys. permute_and_undo d p False xs = Inr ys \<and> length ys = length xs \<and>
           (\<forall>i<n. ys ! (p ! i) = xs ! i) \<and> drop n ys = replicate (length xs - n) d"
proof -
  have len: "length p = n" using p by (rule perm_length)
  let ?m = "length xs"
  let ?P = "\<lambda>k ys. length ys = ?m \<and> (\<forall>i<k. ys ! (p ! i) = xs ! i) \<and> drop n ys = replicate (?m - n) d"
  have "\<exists>ys. for_upto (length p) (\<lambda>i output. res_bind (vec_at p i) (\<lambda>k.
            res_bind (vec_at xs i) (\<lambda>x. vec_set output k x))) (replicate ?m d) = Inr ys \<and>
          ?P (length p) ys"
  proof (rule for_upto_invariant)
    show "?P 0 (replicate ?m d)" by simp
  next
    fix i ys
    assume i: "i < length p" and inv: "?P i ys"
    from i len have less: "p ! i < n" using perm_nth_less [OF p] by simp
    have "(ys[p ! i := xs ! i]) ! (p ! j) = xs ! j" if j: "j < Suc i" for j
    proof (cases "j = i")
      case True
      with less inv n show ?thesis by simp
    next
      case False
      with j have "j < i" by simp
      with i len have "p ! j \<noteq> p ! i" using perm_nth_inj [OF p] by simp
      with \<open>j < i\<close> inv show ?thesis by simp
    qed
    with i len less inv n
    show "\<exists>t. res_bind (vec_at p i) (\<lambda>k. res_bind (vec_at xs i) (\<lambda>x. vec_set ys k x)) = Inr t \<and>
            ?P (Suc i) t"
      by simp
  qed
  then show ?thesis unfolding permute_and_undo_def using len by auto
qed

text \<open>Undoing a permutation of any vector derived element by element from the permuted one.\<close>

lemma permute_undo_map:
  assumes p: "mset p = mset [0..<length xs]"
  shows "permute_and_undo d p False (map f (map ((!) xs) p)) = Inr (map f xs)"
proof -
  let ?zs = "map f (map ((!) xs) p)"
  have len: "length p = length xs" using p by (rule perm_length)
  then have "mset p = mset [0..<length ?zs]" using p by simp
  from permute_undo_prefix [OF this order_refl, of d] obtain ys where
    ys: "permute_and_undo d p False ?zs = Inr ys" "length ys = length xs"
      "\<forall>i<length xs. ys ! (p ! i) = ?zs ! i"
    using len by auto
  have "ys = map f xs"
  proof (rule nth_equalityI)
    show "length ys = length (map f xs)" using ys(2) by simp
  next
    fix k assume "k < length ys"
    then obtain i where i: "i < length xs" "p ! i = k"
      using perm_nth_onto [OF p, of k] ys(2) by auto
    with ys(3) len show "ys ! k = map f xs ! k"
      using perm_nth_less [OF p i(1)] by auto
  qed
  with ys(1) show ?thesis by simp
qed

lemma permute_perm:
  "mset p = mset [0..<length xs] \<Longrightarrow> permute_and_undo d p True xs = Inr (map ((!) xs) p)"
  by (rule permute_apply) (auto simp only: perm_length distinct_upt_perm atLeastLessThan_iff)

text \<open>A permutation longer than the vector it is undone on reads past its end.\<close>

lemma permute_undo_short:
  assumes p: "mset p = mset [0..<n]" and short: "length xs < n"
  shows "\<exists>m. permute_and_undo d p False xs = Inl (Undefined_Behaviour m)"
proof -
  let ?f = "\<lambda>i output. res_bind (vec_at p i) (\<lambda>k. res_bind (vec_at xs i) (\<lambda>x. vec_set output k x))"
  have len: "length p = n" using p by (rule perm_length)
  have "(\<exists>ys. for_upto k ?f (replicate (length xs) d) = Inr ys \<and> length ys = length xs) \<or>
        (\<exists>m. for_upto k ?f (replicate (length xs) d) = Inl (Undefined_Behaviour m))"
    if "k \<le> length xs" for k
    using that
  proof (induction k)
    case 0
    then show ?case by simp
  next
    case (Suc k)
    then have k: "k < length xs" "k < length p" using len short by simp_all
    from Suc consider
        ys where "for_upto k ?f (replicate (length xs) d) = Inr ys" "length ys = length xs"
      | m where "for_upto k ?f (replicate (length xs) d) = Inl (Undefined_Behaviour m)"
      by auto
    then show ?case
    proof cases
      case 1
      with k show ?thesis
        by (cases "p ! k < length xs") (simp_all add: for_upto_Suc vec_set_out)
    next
      case 2
      then show ?thesis by (simp add: for_upto_Suc)
    qed
  qed
  then consider
      ys where "for_upto (length xs) ?f (replicate (length xs) d) = Inr ys"
    | m where "for_upto (length xs) ?f (replicate (length xs) d) = Inl (Undefined_Behaviour m)"
    by blast
  then have "\<exists>m. for_upto (length p) ?f (replicate (length xs) d) = Inl (Undefined_Behaviour m)"
  proof cases
    case 1
    have "?f (length xs) ys = Inl (Undefined_Behaviour ''vector read'')"
      using short len by (simp add: vec_at_out)
    with 1 show ?thesis
      using short len by (blast intro: for_upto_error)
  next
    case 2
    have "[0..<length p] = [0..<length xs] @ [length xs..<length p]"
      using short len by (metis le_add_diff_inverse less_imp_le_nat upt_add_eq_append zero_le)
    with 2 show ?thesis by (auto simp: for_upto_def fold_res_append)
  qed
  then show ?thesis by (simp add: permute_and_undo_def)
qed

section \<open>Every permutation can be drawn\<close>

text \<open>A generator that replays a recorded list of draws.\<close>

definition replay :: "nat list uniform" where
  "replay g i = (case g of [] \<Rightarrow> (0, []) | j # js \<Rightarrow> (min j i, js))"

lemma uniform_ok_replay: "uniform_ok replay"
  by (simp add: uniform_ok_def replay_def split: list.splits)

definition shuffle_body :: "nat \<Rightarrow> 'a list \<times> nat list \<Rightarrow> ('a list \<times> nat list) res" where
  "shuffle_body k s = (case s of (ys, h) \<Rightarrow> let (j, h') = replay h (Suc k) in
          res_bind (swap_at ys (Suc k) j) (\<lambda>zs. Inr (zs, h')))"

lemma shuffle_body_last:
  assumes "length zs = Suc n" and "j < Suc n"
  shows "shuffle_body n (zs @ x # tail, j # rest) = Inr (zs[j := x] @ (zs ! j) # tail, rest)"
  using assms by (simp add: shuffle_body_def replay_def swap_at_in nth_append list_update_append)

lemma shuffle_body_stay:
  assumes "length zs = Suc n"
  shows "shuffle_body n (zs @ x # tail, Suc n # rest) = Inr (zs @ x # tail, rest)"
  using assms by (simp add: shuffle_body_def replay_def swap_at_in nth_append list_update_append)

lemma shuffle_loop_onto:
  "length xs = Suc n \<Longrightarrow> mset ys = mset xs \<Longrightarrow>
     \<exists>js. \<forall>tail rest. for_upto n shuffle_body (xs @ tail, js @ rest) = Inr (ys @ tail, rest)"
proof (induction n arbitrary: xs ys)
  case 0
  then obtain x where "xs = [x]" by (auto simp: length_Suc_conv)
  with 0 have "ys = xs" by simp
  then show ?case by (intro exI [of _ "[]"]) simp
next
  case (Suc n)
  obtain xs0 x where xs: "xs = xs0 @ [x]" and xs0: "length xs0 = Suc n"
    using Suc.prems(1) by (metis length_Suc_conv_rev)
  have "length ys = Suc (Suc n)" using Suc.prems by (metis mset_eq_length)
  then obtain ys0 y where ys: "ys = ys0 @ [y]" and ys0: "length ys0 = Suc n"
    by (metis length_Suc_conv_rev)
  show ?case
  proof (cases "y = x")
    case True
    with Suc.prems(2) xs ys have "mset ys0 = mset xs0" by simp
    from Suc.IH [OF xs0 this] obtain js where
      js: "\<forall>tail rest. for_upto n shuffle_body (xs0 @ tail, js @ rest) = Inr (ys0 @ tail, rest)"
      by blast
    have "for_upto (Suc n) shuffle_body (xs @ tail, (js @ [Suc n]) @ rest) = Inr (ys @ tail, rest)"
      for tail rest
      using js [rule_format, of "x # tail" "Suc n # rest"] xs ys True ys0
      by (simp add: for_upto_Suc shuffle_body_stay)
    then show ?thesis by blast
  next
    case False
    have "x \<in> set ys" using Suc.prems(2) xs by (metis in_set_conv_decomp mset_eq_setD)
    with False ys have "x \<in> set ys0" by simp
    then obtain j where j: "j < Suc n" "ys0 ! j = x"
      using ys0 by (metis in_set_conv_nth)
    let ?zs = "ys0[j := y]"
    have "mset ?zs = mset xs0"
    proof -
      have "add_mset x (mset ?zs) = mset ys"
        using j ys ys0 by (simp add: mset_update) (metis add_mset_commute insert_DiffM nth_mem_mset)
      with Suc.prems(2) xs show ?thesis by simp
    qed
    from Suc.IH [OF xs0 this] obtain js where
      js: "\<forall>tail rest. for_upto n shuffle_body (xs0 @ tail, js @ rest) = Inr (?zs @ tail, rest)"
      by blast
    have "for_upto (Suc n) shuffle_body (xs @ tail, (js @ [j]) @ rest) = Inr (ys @ tail, rest)"
      for tail rest
    proof -
      have "?zs[j := x] = ys0" using j(2) by (metis list_update_id list_update_overwrite)
      then show ?thesis
        using js [rule_format, of "x # tail" "j # rest"] xs ys j ys0
        by (simp add: for_upto_Suc shuffle_body_last)
    qed
    then show ?thesis by blast
  qed
qed

lemma std_shuffle_onto:
  assumes "mset ys = mset xs"
  shows "\<exists>js. std_shuffle replay js xs = Inr (ys, [])"
proof (cases "length xs")
  case 0
  with assms show ?thesis by (simp add: std_shuffle_def)
next
  case (Suc n)
  from shuffle_loop_onto [OF this assms] obtain js where
    "for_upto n shuffle_body (xs @ [], js @ []) = Inr (ys @ [], [])" by blast
  with Suc show ?thesis
    by (auto simp: std_shuffle_def shuffle_body_def [abs_def])
qed

end
