(* ===== verification/Algorithms.thy ===== *)
theory Algorithms
  imports Prelude "HOL-Library.List_Lexorder" "HOL-Library.Sublist"
begin

text \<open>
  The standard algorithms the protocols call (\<open>std::binary_search\<close> and \<open>std::find\<close> over
  vectors of byte strings, ordered lexicographically as \<open>std::vector\<close> compares), and the two
  loops both PSI protocols end with: marking the elements found in the peer's set and
  collecting the marked input keys. The locale \<open>membership_index\<close> is what the marking loop
  relies on; sorting with binary search and linear search both provide it.
\<close>

section \<open>Searching\<close>

text \<open>The loop of \<open>std::lower_bound\<close> on \<open>[first, first + len)\<close>.\<close>

function lower_bound :: "'a::linorder list \<Rightarrow> 'a \<Rightarrow> nat \<Rightarrow> nat \<Rightarrow> nat" where
  "lower_bound xs v first len =
     (if len = 0 then first
      else let half = len div 2; mid = first + half in
        if xs ! mid < v then lower_bound xs v (mid + 1) (len - half - 1)
        else lower_bound xs v first half)"
  by pat_completeness auto
termination
  by (relation "measure (\<lambda>(xs, v, first, len). len)") auto

declare lower_bound.simps [simp del]

definition binary_search :: "'a::linorder list \<Rightarrow> 'a \<Rightarrow> bool" where
  "binary_search xs v =
     (let i = lower_bound xs v 0 (length xs) in i \<noteq> length xs \<and> \<not> v < xs ! i)"

text \<open>\<open>std::find(begin + a, begin + b, v)\<close>: the first index of \<open>v\<close>, or \<open>b\<close>.\<close>

definition std_find :: "'a list \<Rightarrow> nat \<Rightarrow> nat \<Rightarrow> 'a \<Rightarrow> nat res" where
  "std_find xs a b v =
     res_bind (slice xs a b) (\<lambda>ys. Inr (a + length (takeWhile (\<lambda>y. y \<noteq> v) ys)))"

lemma lower_bound_spec:
  assumes "sorted xs" and "first + len \<le> length xs"
    and "\<forall>i<first. xs ! i < v"
    and "\<forall>i. first + len \<le> i \<and> i < length xs \<longrightarrow> v \<le> xs ! i"
  shows "lower_bound xs v first len \<le> length xs \<and>
    (\<forall>i<lower_bound xs v first len. xs ! i < v) \<and>
    (\<forall>i. lower_bound xs v first len \<le> i \<and> i < length xs \<longrightarrow> v \<le> xs ! i)"
  using assms
proof (induction xs v first len rule: lower_bound.induct)
  case (1 xs v first len)
  show ?case
  proof (cases "len = 0")
    case True
    with "1.prems" show ?thesis by (simp add: lower_bound.simps)
  next
    case False
    define half where "half = len div 2"
    define mid where "mid = first + half"
    have half: "half < len" using False by (simp add: half_def)
    then have mid: "mid < length xs" using "1.prems"(2) by (simp add: mid_def)
    show ?thesis
    proof (cases "xs ! mid < v")
      case True
      have below: "\<forall>i<mid + 1. xs ! i < v"
      proof (intro allI impI)
        fix i assume "i < mid + 1"
        then have "xs ! i \<le> xs ! mid"
          using sorted_nth_mono [OF "1.prems"(1), of i mid] mid by simp
        with True show "xs ! i < v" by simp
      qed
      have eq: "lower_bound xs v first len = lower_bound xs v (mid + 1) (len - half - 1)"
        using False True by (subst lower_bound.simps) (simp add: Let_def half_def mid_def)
      have len': "mid + 1 + (len - half - 1) = first + len"
        using half by (simp add: mid_def)
      show ?thesis
        unfolding eq
        by (rule "1.IH"(1) [OF False half_def mid_def True "1.prems"(1)])
           (use "1.prems"(2,4) below len' in simp_all)
    next
      case low: False
      have above: "\<forall>i. first + half \<le> i \<and> i < length xs \<longrightarrow> v \<le> xs ! i"
      proof (intro allI impI)
        fix i assume i: "first + half \<le> i \<and> i < length xs"
        then have "xs ! mid \<le> xs ! i"
          using sorted_nth_mono [OF "1.prems"(1), of mid i] by (simp add: mid_def)
        with low show "v \<le> xs ! i" by simp
      qed
      have eq: "lower_bound xs v first len = lower_bound xs v first half"
        using False low by (subst lower_bound.simps) (simp add: Let_def half_def mid_def)
      show ?thesis
        unfolding eq
        by (rule "1.IH"(2) [OF False half_def mid_def low "1.prems"(1)])
           (use "1.prems"(2,3) above half in simp_all)
    qed
  qed
qed

lemma binary_search_correct:
  assumes "sorted xs"
  shows "binary_search xs v \<longleftrightarrow> v \<in> set xs"
proof -
  define r where "r = lower_bound xs v 0 (length xs)"
  have r: "r \<le> length xs" "\<forall>i<r. xs ! i < v" "\<forall>i. r \<le> i \<and> i < length xs \<longrightarrow> v \<le> xs ! i"
  proof -
    have "\<forall>i. 0 + length xs \<le> i \<and> i < length xs \<longrightarrow> v \<le> xs ! i" by auto
    from lower_bound_spec [OF assms _ _ this]
    show "r \<le> length xs" "\<forall>i<r. xs ! i < v" "\<forall>i. r \<le> i \<and> i < length xs \<longrightarrow> v \<le> xs ! i"
      by (simp_all add: r_def)
  qed
  have "v \<in> set xs \<longleftrightarrow> r < length xs \<and> xs ! r = v"
  proof
    assume "v \<in> set xs"
    then obtain i where i: "i < length xs" "xs ! i = v" by (auto simp: in_set_conv_nth)
    with r(2) have "r \<le> i" by (meson not_le order_less_irrefl)
    then have "xs ! r \<le> v" using sorted_nth_mono [OF assms] i by fastforce
    with r(3) i \<open>r \<le> i\<close> show "r < length xs \<and> xs ! r = v" by (meson le_less_trans order_antisym order_refl)
  next
    assume "r < length xs \<and> xs ! r = v"
    then show "v \<in> set xs" by (auto simp: in_set_conv_nth)
  qed
  with r show ?thesis
    unfolding binary_search_def Let_def r_def [symmetric]
    by (metis leD le_neq_implies_less order_refl order_antisym not_le)
qed

lemma takeWhile_neq_less: "length (takeWhile (\<lambda>y. y \<noteq> v) ys) < length ys \<longleftrightarrow> v \<in> set ys"
  by (induction ys) auto

lemma std_find_found:
  assumes "a \<le> b" and "b \<le> length xs"
  shows "\<exists>i. std_find xs a b v = Inr i \<and> (i \<noteq> b \<longleftrightarrow> v \<in> set (take (b - a) (drop a xs)))"
proof -
  let ?ys = "take (b - a) (drop a xs)"
  have "length ?ys = b - a" using assms by simp
  moreover have "length (takeWhile (\<lambda>y. y \<noteq> v) ?ys) \<le> length ?ys"
    by (rule length_takeWhile_le)
  ultimately show ?thesis
    using takeWhile_neq_less [of v ?ys] assms
    by (auto simp: std_find_def slice_in)
qed

section \<open>The contract of a membership index\<close>

locale membership_index =
  fixes build :: "'k list \<Rightarrow> 'i"
    and member :: "'i \<Rightarrow> 'k \<Rightarrow> bool"
  assumes member_build: "member (build xs) x \<longleftrightarrow> x \<in> set xs"
begin

lemma member_build_fun: "member (build xs) = (\<lambda>x. x \<in> set xs)"
  by (rule ext) (rule member_build)

lemma filter_members: "filter (member (build xs)) ys = filter (\<lambda>y. y \<in> set xs) ys"
  by (simp add: member_build_fun)

lemma map_members: "map (member (build xs)) ys = map (\<lambda>y. y \<in> set xs) ys"
  by (simp add: member_build_fun)

end

interpretation sorted_index: membership_index sort binary_search
  by unfold_locales (simp add: binary_search_correct)

interpretation linear_index:
  membership_index "\<lambda>xs. xs" "\<lambda>xs v. std_find xs 0 (length xs) v \<noteq> Inr (length xs)"
proof unfold_locales
  fix xs and x :: 'a
  show "std_find xs 0 (length xs) x \<noteq> Inr (length xs) \<longleftrightarrow> x \<in> set xs"
    using std_find_found [of 0 "length xs" xs x] by auto
qed

section \<open>Marking and collecting\<close>

text \<open>\<open>v.resize(n)\<close> with fill value \<open>d\<close>.\<close>

definition resize :: "'a \<Rightarrow> nat \<Rightarrow> 'a list \<Rightarrow> 'a list" where
  "resize d n xs = take n xs @ replicate (n - length xs) d"

lemma length_resize [simp]: "length (resize d n xs) = n"
  by (simp add: resize_def)

text \<open>\<open>intersection_indices[j] = true; ++count;\<close>\<close>

fun mark_hit :: "nat \<Rightarrow> bool list \<times> nat \<Rightarrow> (bool list \<times> nat) res" where
  "mark_hit j (marks, cnt) = res_bind (vec_set marks j True) (\<lambda>m. Inr (m, cnt + 1))"

text \<open>
  \<open>output_keys.resize(count)\<close> and the loop that moves every marked input key to the next
  free position of \<open>output_keys\<close>.
\<close>

definition collect_marked ::
  "bool list \<Rightarrow> nat \<Rightarrow> string list \<Rightarrow> string list \<Rightarrow> string list res" where
  "collect_marked marks cnt input_keys output_keys =
     res_bind
       (for_upto (length input_keys)
          (\<lambda>i (out, result_idx).
             res_bind (vec_at marks i) (\<lambda>m.
               if m then res_bind (vec_set out result_idx (input_keys ! i))
                           (\<lambda>out'. Inr (out', result_idx + 1))
               else Inr (out, result_idx)))
          (resize [] cnt output_keys, 0))
       (\<lambda>(out, result_idx). Inr out)"

definition marked :: "bool list \<Rightarrow> 'a list \<Rightarrow> 'a list" where
  "marked marks xs = map snd (filter fst (zip marks xs))"

lemma length_marked:
  "length ks = length xs \<Longrightarrow> length (marked (map P ks) xs) = length (filter P ks)"
  by (induction ks xs rule: list_induct2) (simp_all add: marked_def)

lemma subseq_marked: "subseq (marked bs xs) xs"
proof (induction bs arbitrary: xs)
  case (Cons b bs)
  then show ?case by (cases xs) (auto simp: marked_def)
qed (simp add: marked_def)

lemma marked_take_Suc:
  "i < length marks \<Longrightarrow> i < length xs \<Longrightarrow>
     marked (take (Suc i) marks) (take (Suc i) xs) =
       marked (take i marks) (take i xs) @ (if marks ! i then [xs ! i] else [])"
  by (simp add: marked_def take_Suc_conv_app_nth)

lemma marked_map_filter: "marked (map P xs) xs = filter P xs"
  by (induction xs) (simp_all add: marked_def)

lemma length_marked_le: "length (marked (take i marks) (take i xs)) \<le> length (marked marks xs)"
proof -
  have "marked marks xs =
      marked (take i marks) (take i xs) @ marked (drop i marks) (drop i xs)"
    by (metis (no_types, lifting) append_take_drop_id filter_append map_append marked_def take_zip drop_zip)
  then show ?thesis by simp
qed

lemma collect_marked_spec:
  assumes "length input_keys \<le> length marks"
    and cnt: "cnt = length (marked marks input_keys)"
  shows "collect_marked marks cnt input_keys out = Inr (marked marks input_keys)"
proof -
  let ?m = "\<lambda>i. marked (take i marks) (take i input_keys)"
  let ?P = "\<lambda>i (os, idx). length os = cnt \<and> idx = length (?m i) \<and> take idx os = ?m i"
  let ?f = "\<lambda>i (out, result_idx).
             res_bind (vec_at marks i) (\<lambda>m.
               if m then res_bind (vec_set out result_idx (input_keys ! i))
                           (\<lambda>out'. Inr (out', result_idx + 1))
               else Inr (out, result_idx))"
  have "\<exists>t. for_upto (length input_keys) ?f (resize [] cnt out, 0) = Inr t \<and>
          ?P (length input_keys) t"
  proof (rule for_upto_invariant)
    show "?P 0 (resize [] cnt out, 0)" by (simp add: marked_def)
  next
    fix i and t :: "string list \<times> nat"
    assume i: "i < length input_keys" and inv: "?P i t"
    then obtain os where t: "t = (os, length (?m i))"
      and os: "length os = cnt" "take (length (?m i)) os = ?m i"
      by (cases t) auto
    have im: "i < length marks" using i assms(1) by simp
    show "\<exists>t'. ?f i t = Inr t' \<and> ?P (Suc i) t'"
    proof (cases "marks ! i")
      case False
      with os t im i show ?thesis by (simp add: marked_take_Suc)
    next
      case True
      have "length (?m (Suc i)) \<le> cnt"
        unfolding cnt by (rule length_marked_le)
      with True im i os(1) have idx: "length (?m i) < length os" by (simp add: marked_take_Suc)
      then have "take (Suc (length (?m i))) (os[length (?m i) := input_keys ! i]) =
          ?m i @ [input_keys ! i]"
        using os(2) by (simp add: take_Suc_conv_app_nth)
      with True im i os(1) t idx show ?thesis by (simp add: marked_take_Suc)
    qed
  qed
  then obtain os idx where r: "for_upto (length input_keys) ?f (resize [] cnt out, 0) = Inr (os, idx)"
    and "length os = cnt" "idx = length (?m (length input_keys))"
      "take idx os = ?m (length input_keys)"
    by auto
  moreover have "?m (length input_keys) = marked marks input_keys"
  proof -
    have "zip (take (length input_keys) marks) (take (length input_keys) input_keys) =
        zip marks input_keys"
      unfolding take_zip [symmetric] by (rule take_all) simp
    then show ?thesis by (simp add: marked_def)
  qed
  ultimately have "os = marked marks input_keys" using cnt by simp
  with r show ?thesis by (simp add: collect_marked_def)
qed

section \<open>The specification of a PSI protocol\<close>

text \<open>What the protocol computes for one party.\<close>

definition intersection :: "string list \<Rightarrow> string list \<Rightarrow> string list" where
  "intersection own other = filter (\<lambda>k. k \<in> set other) own"

end
