(* ===== verification/Bytes.thy ===== *)
theory Bytes
  imports Prelude
begin

unbundle bit_operations_syntax

text \<open>
  The constants and types of \<open>util/defines.h\<close>, and the memory images the code puts on the
  wire with \<open>reinterpret_cast\<close> and \<open>sizeof\<close> on the little-endian 64-bit target it is
  written for (it uses the SSE type \<open>__m128i\<close>): \<open>std::size_t\<close> and \<open>std::uint64_t\<close> as eight
  bytes, \<open>int\<close> as four, \<open>bool\<close> as one, \<open>block\<close> as sixteen. The locale \<open>wire_codec\<close> is the
  contract of such an image; it is interpreted on every one of them.
\<close>

section \<open>Constants and types of defines.h\<close>

definition kEccPointLen :: nat where "kEccPointLen = 33"
definition kECCCompareBytesLen :: nat where "kECCCompareBytesLen = 12"
definition kRandSeedBytesLen :: nat where "kRandSeedBytesLen = 16"
definition kItemBytesLen :: nat where "kItemBytesLen = 16"
definition kReduceStatisticsLen :: nat where "kReduceStatisticsLen = 12"
definition kReduceBitsLen :: "64 word" where "kReduceBitsLen = 0x3fffffffffffffff"

lemmas defines_simps =
  kEccPointLen_def kECCCompareBytesLen_def kRandSeedBytesLen_def kItemBytesLen_def
  kReduceStatisticsLen_def

type_synonym byte_vector = "byte list"
type_synonym block = "128 word"

text \<open>\<open>Item\<close> is an array of \<open>kItemBytesLen\<close> bytes, kept as a list of that length.\<close>

type_synonym item = "byte list"

section \<open>Little-endian memory images\<close>

primrec le_bytes :: "nat \<Rightarrow> nat \<Rightarrow> byte list" where
  "le_bytes 0 n = []"
| "le_bytes (Suc w) n = of_nat n # le_bytes w (n div 256)"

primrec le_nat :: "byte list \<Rightarrow> nat" where
  "le_nat [] = 0"
| "le_nat (b # bs) = unat b + 256 * le_nat bs"

lemma length_le_bytes [simp]: "length (le_bytes w n) = w"
  by (induction w arbitrary: n) simp_all

lemma unat_byte_of_nat: "unat (of_nat n :: byte) = n mod 256"
  by (simp add: unat_of_nat)

lemma le_nat_le_bytes: "le_nat (le_bytes w n) = n mod 256 ^ w"
proof (induction w arbitrary: n)
  case 0
  then show ?case by simp
next
  case (Suc w)
  then show ?case
    by (simp add: unat_byte_of_nat mod_mult2_eq)
qed

lemma le_nat_less: "le_nat bs < 256 ^ length bs"
proof (induction bs)
  case Nil
  then show ?case by simp
next
  case (Cons b bs)
  have "unat b < 256" using unsigned_less [of b, where ?'a = nat] by simp
  with Cons show ?case by simp
qed

lemma le_bytes_le_nat: "le_bytes (length bs) (le_nat bs) = bs"
proof (induction bs)
  case Nil
  then show ?case by simp
next
  case (Cons b bs)
  have b: "unat b < 256" using unsigned_less [of b, where ?'a = nat] by simp
  then have "(of_nat (unat b + 256 * le_nat bs) :: byte) = b"
    by (metis mod_less mod_mult_self2 unat_byte_of_nat word_unat_eq_iff)
  with Cons b show ?case by simp
qed

definition size_t_bytes :: "nat \<Rightarrow> byte list" where
  "size_t_bytes n = le_bytes 8 n"

definition size_t_of :: "byte list \<Rightarrow> nat" where
  "size_t_of bs = le_nat bs"

definition u64_bytes :: "64 word \<Rightarrow> byte list" where
  "u64_bytes w = le_bytes 8 (unat w)"

definition u64_of :: "byte list \<Rightarrow> 64 word" where
  "u64_of bs = of_nat (le_nat bs)"

definition int_bytes :: "int \<Rightarrow> byte list" where
  "int_bytes i = le_bytes 4 (nat (i mod 2 ^ 32))"

definition int_of_bytes :: "byte list \<Rightarrow> int" where
  "int_of_bytes bs =
     (let n = int (le_nat bs) in if n < 2 ^ 31 then n else n - 2 ^ 32)"

definition int_range :: "int \<Rightarrow> bool" where
  "int_range i \<longleftrightarrow> - (2 ^ 31) \<le> i \<and> i < 2 ^ 31"

definition bool_bytes :: "bool \<Rightarrow> byte list" where
  "bool_bytes b = [if b then 1 else 0]"

definition bool_of :: "byte list \<Rightarrow> bool" where
  "bool_of bs = (le_nat bs \<noteq> 0)"

definition block_bytes :: "block \<Rightarrow> byte list" where
  "block_bytes b = le_bytes 16 (unat b)"

definition block_of :: "byte list \<Rightarrow> block" where
  "block_of bs = of_nat (le_nat bs)"

text \<open>The bytes of a \<open>std::string\<close>, as the code reads them with \<open>data()\<close> and \<open>size()\<close>.\<close>

definition string_bytes :: "string \<Rightarrow> byte list" where
  "string_bytes s = map of_char s"

definition bytes_string :: "byte list \<Rightarrow> string" where
  "bytes_string bs = map (\<lambda>b. char_of (unat b)) bs"

lemma bytes_string_of_string [simp]: "bytes_string (string_bytes s) = s"
proof -
  have "char_of (unat (of_char c :: byte)) = c" for c
  proof -
    have "unat (of_char c :: byte) = of_char c mod 256"
      by (metis of_nat_of_char unat_byte_of_nat)
    then show ?thesis by simp
  qed
  then show ?thesis by (simp add: bytes_string_def string_bytes_def comp_def)
qed

section \<open>The contract of a memory image\<close>

locale wire_codec =
  fixes enc :: "'a \<Rightarrow> byte list"
    and dec :: "byte list \<Rightarrow> 'a"
    and width :: nat
    and valid :: "'a \<Rightarrow> bool"
  assumes enc_width: "valid x \<Longrightarrow> length (enc x) = width"
    and dec_enc: "valid x \<Longrightarrow> dec (enc x) = x"
begin

lemma enc_inject: "valid x \<Longrightarrow> valid y \<Longrightarrow> enc x = enc y \<longleftrightarrow> x = y"
  by (metis dec_enc)

lemma take_enc: "valid x \<Longrightarrow> take width (enc x @ rest) = enc x"
  by (simp add: enc_width)

lemma drop_enc: "valid x \<Longrightarrow> drop width (enc x @ rest) = rest"
  by (simp add: enc_width)

lemma length_concat_enc: "\<forall>x\<in>set xs. valid x \<Longrightarrow> length (concat (map enc xs)) = length xs * width"
  by (induction xs) (simp_all add: enc_width)

text \<open>Element \<open>i\<close> of an array sent as one run of bytes.\<close>

lemma chunk_concat_enc:
  "\<forall>x\<in>set xs. valid x \<Longrightarrow> i < length xs \<Longrightarrow>
     take width (drop (i * width) (concat (map enc xs))) = enc (xs ! i)"
proof (induction xs arbitrary: i)
  case Nil
  then show ?case by simp
next
  case (Cons x xs)
  then show ?case
    by (cases i) (simp_all add: enc_width)
qed

lemma slice_concat_enc:
  assumes "\<forall>x\<in>set xs. valid x" and "i < length xs"
  shows "slice (concat (map enc xs)) (i * width) ((i + 1) * width) = Inr (enc (xs ! i))"
proof -
  have "(i + 1) * width \<le> length xs * width"
    using assms(2) by (intro mult_le_mono1) simp
  then show ?thesis
    using assms chunk_concat_enc [OF assms]
    by (simp add: slice_in length_concat_enc add.commute)
qed

lemma decode_array:
  "\<forall>x\<in>set xs. valid x \<Longrightarrow>
     map (\<lambda>i. dec (take width (drop (i * width) (concat (map enc xs))))) [0..<length xs] = xs"
  by (rule nth_equalityI) (simp_all add: chunk_concat_enc dec_enc)

end

interpretation size_codec: wire_codec size_t_bytes size_t_of 8 "\<lambda>n. n < 2 ^ 64"
  by unfold_locales (simp_all add: size_t_bytes_def size_t_of_def le_nat_le_bytes)

interpretation u64_codec: wire_codec u64_bytes u64_of 8 "\<lambda>w. True"
proof unfold_locales
  fix w :: "64 word"
  have "unat w < 2 ^ 64" using unsigned_less [of w, where ?'a = nat] by simp
  then show "u64_of (u64_bytes w) = w"
    by (simp add: u64_bytes_def u64_of_def le_nat_le_bytes)
qed (simp add: u64_bytes_def)

interpretation int_codec: wire_codec int_bytes int_of_bytes 4 int_range
proof unfold_locales
  fix i :: int
  assume r: "int_range i"
  have "int (nat (i mod 2 ^ 32) mod 256 ^ 4) = i mod 2 ^ 32"
    by simp
  moreover have "i mod 2 ^ 32 = (if 0 \<le> i then i else i + 2 ^ 32)"
  proof (cases "0 \<le> i")
    case True
    with r show ?thesis by (simp add: int_range_def)
  next
    case False
    with r have "(i + 2 ^ 32) mod 2 ^ 32 = i + 2 ^ 32"
      by (intro mod_pos_pos_trivial) (simp_all add: int_range_def)
    with False show ?thesis by simp
  qed
  ultimately show "int_of_bytes (int_bytes i) = i"
    using r by (auto simp: int_of_bytes_def int_bytes_def le_nat_le_bytes int_range_def Let_def)
qed (simp add: int_bytes_def)

interpretation bool_codec: wire_codec bool_bytes bool_of 1 "\<lambda>b. True"
  by unfold_locales (simp_all add: bool_bytes_def bool_of_def)

interpretation block_codec: wire_codec block_bytes block_of 16 "\<lambda>b. True"
proof unfold_locales
  fix b :: block
  have "unat b < 2 ^ 128" using unsigned_less [of b, where ?'a = nat] by simp
  then show "block_of (block_bytes b) = b"
    by (simp add: block_bytes_def block_of_def le_nat_le_bytes)
qed (simp add: block_bytes_def)

text \<open>A vector of byte strings of one length, sent back to back.\<close>

interpretation fixed_codec: wire_codec "\<lambda>bs. bs" "\<lambda>bs. bs" w "\<lambda>bs. length bs = w" for w
  by unfold_locales simp_all

lemma length_block_bytes [simp]: "length (block_bytes b) = 16"
  by (simp add: block_bytes_def)

lemma block_bytes_block_of: "length bs = 16 \<Longrightarrow> block_bytes (block_of bs) = bs"
proof -
  assume l: "length bs = 16"
  then have "le_nat bs < 2 ^ 128"
    using le_nat_less [of bs] by simp
  then have "unat (block_of bs) = le_nat bs"
    by (simp add: block_of_def unat_of_nat)
  then show ?thesis
    using le_bytes_le_nat [of bs] l by (simp add: block_bytes_def)
qed

lemma inj_string_bytes: "inj string_bytes"
proof (rule injI)
  fix s t assume "string_bytes s = string_bytes t"
  moreover have "inj (of_char :: char \<Rightarrow> byte)"
  proof (rule injI)
    fix c d :: char assume eq: "(of_char c :: byte) = of_char d"
    from eq have "unat (of_char c :: byte) = unat (of_char d :: byte)" by simp
    then have "(of_char c :: nat) mod 256 = of_char d mod 256"
      by (metis of_nat_of_char unat_byte_of_nat)
    then show "c = d" by simp
  qed
  ultimately show "s = t" by (simp add: string_bytes_def inj_map_eq_map)
qed

section \<open>Cutting a buffer into vectors\<close>

text \<open>The loop that cuts a received buffer into \<open>n\<close> vectors of \<open>point_byte_count\<close> bytes.\<close>

definition unpack_keys :: "byte list \<Rightarrow> nat \<Rightarrow> nat \<Rightarrow> byte_vector list res" where
  "unpack_keys buffer point_byte_count n =
     map_res (\<lambda>item_idx. slice buffer (size_mul item_idx point_byte_count)
                            (size_mul (item_idx + 1) point_byte_count)) [0..<n]"

lemma unpack_concat:
  assumes "\<forall>k\<in>set ks. length k = w" and "length ks * w < 2 ^ 64"
  shows "unpack_keys (concat ks) w (length ks) = Inr ks"
proof -
  have wrap: "size_mul i w = i * w" if "i \<le> length ks" for i
  proof -
    have "i * w \<le> length ks * w" using that by (rule mult_le_mono1)
    also note assms(2)
    finally show ?thesis unfolding size_mul_def by (rule mod_less)
  qed
  have "unpack_keys (concat ks) w (length ks) = Inr (map ((!) ks) [0..<length ks])"
    unfolding unpack_keys_def
  proof (rule map_res_Inr)
    fix i assume "i \<in> set [0..<length ks]"
    then show "slice (concat ks) (size_mul i w) (size_mul (i + 1) w) = Inr (ks ! i)"
      using fixed_codec.slice_concat_enc [of ks w i] assms(1) wrap [of i] wrap [of "i + 1"]
      by simp
  qed
  then show ?thesis by (simp add: map_nth)
qed

lemma length_concat_fixed:
  "\<forall>k\<in>set (ks :: byte_vector list). length k = w \<Longrightarrow> length (concat ks) = length ks * w"
  using fixed_codec.length_concat_enc [of ks w] by simp

text \<open>Unpacking a buffer of the right size, whatever it holds.\<close>

lemma unpack_keys_any:
  assumes "length buffer = n * w" and "n * w < 2 ^ 64"
  shows "\<exists>ks. unpack_keys buffer w n = Inr ks \<and> length ks = n \<and> (\<forall>k\<in>set ks. length k = w)"
proof -
  have "slice buffer (size_mul i w) (size_mul (i + 1) w) = Inr (take w (drop (i * w) buffer))"
    if "i < n" for i
  proof -
    have "(i + 1) * w \<le> n * w" using that by (intro mult_le_mono1) simp
    then show ?thesis using assms by (simp add: size_mul_def slice_def)
  qed
  then have "unpack_keys buffer w n = Inr (map (\<lambda>i. take w (drop (i * w) buffer)) [0..<n])"
    unfolding unpack_keys_def by (intro map_res_Inr) simp
  moreover have "length (take w (drop (i * w) buffer)) = w" if "i < n" for i
  proof -
    have "(i + 1) * w \<le> n * w" using that by (intro mult_le_mono1) simp
    then show ?thesis using assms by simp
  qed
  ultimately show ?thesis by auto
qed

end
