(* ===== verification/Interaction.thy ===== *)
theory Interaction
  imports Bytes
begin

text \<open>
  How a party of a protocol is modelled. A C++ function that talks to the network is a value
  of type \<open>proc\<close>: the tree of its sends, blocking receives and calls of two-party
  sub-protocols of the libraries underneath, up to the value it returns or the exception it
  throws. Two such trees run against each other over two FIFO byte streams
  (\<open>network::Network\<close> as the code uses it: \<open>send_data\<close> appends bytes, \<open>recv_data\<close> blocks
  until the requested number of bytes has arrived). The step relation lets either party move
  at any time; every pair of parties terminates under every schedule and all schedules end
  in the same configuration, so a property of one run is a property of all.
\<close>

section \<open>Interaction trees\<close>

text \<open>
  \<open>'c\<close> and \<open>'d\<close> are the requests to and the answers of a two-party sub-protocol (an
  oblivious transfer, a secure comparison), which both parties enter together.
\<close>

datatype ('c, 'd, 'a) proc =
    Ret 'a
  | Throw error
  | Send "byte list" "('c, 'd, 'a) proc"
  | Recv nat "byte list \<Rightarrow> ('c, 'd, 'a) proc"
  | Call 'c "'d \<Rightarrow> ('c, 'd, 'a) proc"

primrec bindp :: "('c, 'd, 'a) proc \<Rightarrow> ('a \<Rightarrow> ('c, 'd, 'b) proc) \<Rightarrow> ('c, 'd, 'b) proc" where
  "bindp (Ret x) f = f x"
| "bindp (Throw e) f = Throw e"
| "bindp (Send m p) f = Send m (bindp p f)"
| "bindp (Recv n k) f = Recv n (\<lambda>b. bindp (k b) f)"
| "bindp (Call c k) f = Call c (\<lambda>d. bindp (k d) f)"

definition lift_res :: "'a res \<Rightarrow> ('c, 'd, 'a) proc" where
  "lift_res r = (case r of Inl e \<Rightarrow> Throw e | Inr x \<Rightarrow> Ret x)"

lemma lift_res_simps [simp]: "lift_res (Inl e) = Throw e" "lift_res (Inr x) = Ret x"
  by (simp_all add: lift_res_def)

lemma bindp_assoc: "bindp (bindp p f) g = bindp p (\<lambda>x. bindp (f x) g)"
  by (induction p) simp_all

lemma bindp_Ret: "bindp p Ret = p"
  by (induction p) simp_all

text \<open>A loop whose body talks to the peer.\<close>

primrec fold_proc :: "('x \<Rightarrow> 's \<Rightarrow> ('c, 'd, 's) proc) \<Rightarrow> 'x list \<Rightarrow> 's \<Rightarrow> ('c, 'd, 's) proc" where
  "fold_proc f [] s = Ret s"
| "fold_proc f (x # xs) s = bindp (f x s) (fold_proc f xs)"

lemma fold_proc_Nil [simp]: "fold_proc f [] = Ret"
  by (rule ext) simp

lemma fold_proc_append: "fold_proc f (xs @ ys) s = bindp (fold_proc f xs s) (fold_proc f ys)"
proof (induction xs arbitrary: s)
  case (Cons x xs)
  have "fold_proc f (xs @ ys) = (\<lambda>s. bindp (fold_proc f xs s) (fold_proc f ys))"
    by (rule ext) (rule Cons)
  then show ?case by (simp add: bindp_assoc)
qed simp

lemma fold_proc_single [simp]: "fold_proc f [x] = f x"
  by (rule ext) (simp add: bindp_Ret)

text \<open>A \<open>std::shared_ptr<network::Network>\<close>; dereferencing the null pointer is undefined.\<close>

datatype net = Null_Net | Net

definition send_data :: "net \<Rightarrow> byte list \<Rightarrow> ('c, 'd, unit) proc" where
  "send_data net m =
     (case net of Null_Net \<Rightarrow> Throw (Undefined_Behaviour ''null network'') | Net \<Rightarrow> Send m (Ret ()))"

definition recv_data :: "net \<Rightarrow> nat \<Rightarrow> ('c, 'd, byte list) proc" where
  "recv_data net n =
     (case net of Null_Net \<Rightarrow> Throw (Undefined_Behaviour ''null network'') | Net \<Rightarrow> Recv n Ret)"

lemma net_ops_simps [simp]:
  "send_data Net m = Send m (Ret ())"
  "recv_data Net n = Recv n Ret"
  "send_data Null_Net m = Throw (Undefined_Behaviour ''null network'')"
  "recv_data Null_Net n = Throw (Undefined_Behaviour ''null network'')"
  by (simp_all add: send_data_def recv_data_def)

section \<open>Two parties and their step relation\<close>

text \<open>
  A configuration: the two parties, the bytes on their way from the first to the second, and
  the bytes on their way back. \<open>ideal\<close> is the joint function a sub-protocol computes from
  the requests of the two parties; it is entered with both streams empty.
\<close>

datatype ('c, 'd, 'a, 'b) conf =
  Conf (party_a: "('c, 'd, 'a) proc") (party_b: "('c, 'd, 'b) proc")
       (a_to_b: "byte list") (b_to_a: "byte list")

type_synonym ('c, 'd) ideal = "'c \<Rightarrow> 'c \<Rightarrow> ('d \<times> 'd) option"

inductive net_step :: "('c, 'd) ideal \<Rightarrow> ('c, 'd, 'a, 'b) conf \<Rightarrow> ('c, 'd, 'a, 'b) conf \<Rightarrow> bool"
  for ideal :: "('c, 'd) ideal"
where
  send_a: "net_step ideal (Conf (Send m p) q ab ba) (Conf p q (ab @ m) ba)"
| recv_a: "n \<le> length ba \<Longrightarrow>
    net_step ideal (Conf (Recv n k) q ab ba) (Conf (k (take n ba)) q ab (drop n ba))"
| send_b: "net_step ideal (Conf p (Send m q) ab ba) (Conf p q ab (ba @ m))"
| recv_b: "n \<le> length ab \<Longrightarrow>
    net_step ideal (Conf p (Recv n k) ab ba) (Conf p (k (take n ab)) (drop n ab) ba)"
| call: "ideal r s = Some (x, y) \<Longrightarrow>
    net_step ideal (Conf (Call r k) (Call s l) [] []) (Conf (k x) (l y) [] [])"

inductive_cases net_stepE: "net_step ideal (Conf p q ab ba) d"

inductive_simps net_step_final [simp]:
  "net_step ideal (Conf (Ret x) (Ret y) ab ba) d"
  "net_step ideal (Conf (Throw e) (Throw e') ab ba) d"
  "net_step ideal (Conf (Ret x) (Throw e') ab ba) d"
  "net_step ideal (Conf (Throw e) (Ret y) ab ba) d"

abbreviation reaches ::
  "('c, 'd) ideal \<Rightarrow> ('c, 'd, 'a, 'b) conf \<Rightarrow> ('c, 'd, 'a, 'b) conf \<Rightarrow> bool" where
  "reaches ideal \<equiv> (net_step ideal)\<^sup>*\<^sup>*"

definition stuck :: "('c, 'd) ideal \<Rightarrow> ('c, 'd, 'a, 'b) conf \<Rightarrow> bool" where
  "stuck ideal c \<longleftrightarrow> (\<forall>d. \<not> net_step ideal c d)"

text \<open>The configurations in which a run can end, over all schedules.\<close>

definition outcomes ::
  "('c, 'd) ideal \<Rightarrow> ('c, 'd, 'a, 'b) conf \<Rightarrow> ('c, 'd, 'a, 'b) conf set" where
  "outcomes ideal c = {d. reaches ideal c d \<and> stuck ideal d}"

definition start :: "('c, 'd, 'a) proc \<Rightarrow> ('c, 'd, 'b) proc \<Rightarrow> ('c, 'd, 'a, 'b) conf" where
  "start p q = Conf p q [] []"

section \<open>Every schedule ends, and all end alike\<close>

lemma recv_a_append:
  "n \<le> length ba \<Longrightarrow>
     net_step ideal (Conf (Recv n k) q ab (ba @ m)) (Conf (k (take n ba)) q ab (drop n ba @ m))"
  using net_step.recv_a [of n "ba @ m" ideal k q ab] by simp

lemma recv_b_append:
  "n \<le> length ab \<Longrightarrow>
     net_step ideal (Conf p (Recv n k) (ab @ m) ba) (Conf p (k (take n ab)) (drop n ab @ m) ba)"
  using net_step.recv_b [of n "ab @ m" ideal p k ba] by simp

lemma net_step_diamond:
  assumes "net_step ideal c d" and "net_step ideal c e"
  shows "d = e \<or> (\<exists>f. net_step ideal d f \<and> net_step ideal e f)"
proof -
  obtain p q ab ba where c: "c = Conf p q ab ba" by (cases c)
  from assms [unfolded c] show ?thesis
    by (elim net_stepE; simp; blast intro: net_step.intros recv_a_append recv_b_append)
qed

lemma net_step_accp: "Wellfounded.accp (\<lambda>d c. net_step ideal c d) (Conf p q ab ba)"
proof (induction p arbitrary: q ab ba)
  case (Ret x)
  show ?case
    by (induction q arbitrary: ab ba) (rule accp.accI, elim net_stepE, simp_all)+
next
  case (Throw e)
  show ?case
    by (induction q arbitrary: ab ba) (rule accp.accI, elim net_stepE, simp_all)+
next
  case (Send m p)
  show ?case
    by (induction q arbitrary: ab ba) (rule accp.accI, elim net_stepE, simp_all add: Send)+
next
  case (Recv n k)
  show ?case
    by (induction q arbitrary: ab ba) (rule accp.accI, elim net_stepE, simp_all add: Recv)+
next
  case (Call c k)
  show ?case
    by (induction q arbitrary: ab ba) (rule accp.accI, elim net_stepE, simp_all add: Call)+
qed

lemma outcomes_stuck: "stuck ideal c \<Longrightarrow> outcomes ideal c = {c}"
  by (auto simp: outcomes_def stuck_def elim: converse_rtranclpE)

lemma outcomes_step: "net_step ideal c d \<Longrightarrow> outcomes ideal d \<subseteq> outcomes ideal c"
  by (auto simp: outcomes_def intro: converse_rtranclp_into_rtranclp)

lemma outcomes_reaches: "reaches ideal c d \<Longrightarrow> outcomes ideal d \<subseteq> outcomes ideal c"
  by (auto simp: outcomes_def)

lemma outcomes_first_step:
  "\<not> stuck ideal c \<Longrightarrow> e \<in> outcomes ideal c \<Longrightarrow> \<exists>d. net_step ideal c d \<and> e \<in> outcomes ideal d"
  by (auto simp: outcomes_def elim: converse_rtranclpE)

lemma outcomes_nonempty: "outcomes ideal c \<noteq> {}"
proof -
  have "Wellfounded.accp (\<lambda>d c. net_step ideal c d) c"
    by (cases c) (simp add: net_step_accp)
  then show ?thesis
  proof (induction c rule: accp_induct_rule)
    case (1 c)
    show ?case
    proof (cases "stuck ideal c")
      case True
      then show ?thesis by (simp add: outcomes_stuck)
    next
      case False
      then obtain d where "net_step ideal c d" by (auto simp: stuck_def)
      with "1.IH" [of d] outcomes_step show ?thesis by blast
    qed
  qed
qed

lemma outcomes_singleton: "\<exists>d. outcomes ideal c = {d}"
proof -
  have "Wellfounded.accp (\<lambda>d c. net_step ideal c d) c"
    by (cases c) (simp add: net_step_accp)
  then show ?thesis
  proof (induction c rule: accp_induct_rule)
    case (1 c)
    show ?case
    proof (cases "stuck ideal c")
      case True
      then show ?thesis by (auto dest: outcomes_stuck)
    next
      case False
      then obtain c1 where c1: "net_step ideal c c1" by (auto simp: stuck_def)
      then obtain d where d: "outcomes ideal c1 = {d}" using "1.IH" by blast
      have "e = d" if e: "e \<in> outcomes ideal c" for e
      proof -
        obtain c2 where c2: "net_step ideal c c2" "e \<in> outcomes ideal c2"
          using outcomes_first_step [OF False e] by blast
        then obtain g where "outcomes ideal c2 = {g}" using "1.IH" [of c2] by blast
        with c2(2) have e2: "outcomes ideal c2 = {e}" by simp
        from net_step_diamond [OF c1 c2(1)] show ?thesis
        proof (elim disjE exE conjE)
          assume "c1 = c2"
          with d e2 show ?thesis by simp
        next
          fix f assume f: "net_step ideal c1 f" "net_step ideal c2 f"
          with outcomes_step [OF f(1)] outcomes_step [OF f(2)] outcomes_nonempty [of ideal f] d e2
          show ?thesis by auto
        qed
      qed
      moreover have "d \<in> outcomes ideal c" using outcomes_step [OF c1] d by blast
      ultimately show ?thesis by blast
    qed
  qed
qed

lemma outcomes_eqI:
  assumes "reaches ideal c d" and "stuck ideal d"
  shows "outcomes ideal c = {d}"
proof -
  from assms have "d \<in> outcomes ideal c" by (simp add: outcomes_def)
  with outcomes_singleton [of ideal c] show ?thesis by auto
qed

lemma stuck_final [simp]:
  "stuck ideal (Conf (Ret x) (Ret y) ab ba)"
  "stuck ideal (Conf (Throw e) (Throw e') ab ba)"
  "stuck ideal (Conf (Ret x) (Throw e') ab ba)"
  "stuck ideal (Conf (Throw e) (Ret y) ab ba)"
  by (simp_all add: stuck_def)

section \<open>Running two parties step by step\<close>

named_theorems run_intros \<open>rules that advance a pair of parties\<close>

lemma reaches_send_a [run_intros]:
  "reaches ideal (Conf p q (ab @ m) ba) d \<Longrightarrow> reaches ideal (Conf (Send m p) q ab ba) d"
  by (blast intro: converse_rtranclp_into_rtranclp net_step.send_a)

lemma reaches_send_b [run_intros]:
  "reaches ideal (Conf p q ab (ba @ m)) d \<Longrightarrow> reaches ideal (Conf p (Send m q) ab ba) d"
  by (blast intro: converse_rtranclp_into_rtranclp net_step.send_b)

lemma reaches_recv_a [run_intros]:
  "length m = n \<Longrightarrow> reaches ideal (Conf (k m) q ab ba) d \<Longrightarrow>
     reaches ideal (Conf (Recv n k) q ab (m @ ba)) d"
  using net_step.recv_a [of n "m @ ba" ideal k q ab]
  by (auto intro: converse_rtranclp_into_rtranclp)

lemma reaches_recv_b [run_intros]:
  "length m = n \<Longrightarrow> reaches ideal (Conf p (k m) ab ba) d \<Longrightarrow>
     reaches ideal (Conf p (Recv n k) (m @ ab) ba) d"
  using net_step.recv_b [of n "m @ ab" ideal p k ba]
  by (auto intro: converse_rtranclp_into_rtranclp)

lemma reaches_recv_a_all:
  "length m = n \<Longrightarrow> reaches ideal (Conf (k m) q ab []) d \<Longrightarrow>
     reaches ideal (Conf (Recv n k) q ab m) d"
  using reaches_recv_a [of m n ideal k q ab "[]"] by simp

lemma reaches_recv_b_all:
  "length m = n \<Longrightarrow> reaches ideal (Conf p (k m) [] ba) d \<Longrightarrow>
     reaches ideal (Conf p (Recv n k) m ba) d"
  using reaches_recv_b [of m n ideal p k "[]"] by simp

lemma reaches_call [run_intros]:
  "ideal r s = Some (x, y) \<Longrightarrow> reaches ideal (Conf (k x) (l y) [] []) d \<Longrightarrow>
     reaches ideal (Conf (Call r k) (Call s l) [] []) d"
  by (blast intro: converse_rtranclp_into_rtranclp net_step.call)

lemma net_step_bindp:
  "net_step ideal (Conf p q ab ba) (Conf p' q' ab' ba') \<Longrightarrow>
     net_step ideal (Conf (bindp p f) (bindp q g) ab ba) (Conf (bindp p' f) (bindp q' g) ab' ba')"
  by (elim net_stepE) (auto intro: net_step.intros)

lemma reaches_bindp:
  assumes "reaches ideal c d"
  shows "reaches ideal (Conf (bindp (party_a c) f) (bindp (party_b c) g) (a_to_b c) (b_to_a c))
           (Conf (bindp (party_a d) f) (bindp (party_b d) g) (a_to_b d) (b_to_a d))"
  using assms
proof (induction rule: rtranclp_induct)
  case base
  then show ?case by simp
next
  case (step d e)
  have "net_step ideal
      (Conf (bindp (party_a d) f) (bindp (party_b d) g) (a_to_b d) (b_to_a d))
      (Conf (bindp (party_a e) f) (bindp (party_b e) g) (a_to_b e) (b_to_a e))"
    using step.hyps(2) by (cases d; cases e) (simp add: net_step_bindp)
  with step.IH show ?case by (rule rtranclp.rtrancl_into_rtrancl)
qed

text \<open>Sequential composition: run the first halves together, then the rest.\<close>

lemma reaches_seq:
  assumes "reaches ideal (Conf p q ab ba) (Conf p' q' ab' ba')"
    and "reaches ideal (Conf (bindp p' f) (bindp q' g) ab' ba') d"
  shows "reaches ideal (Conf (bindp p f) (bindp q g) ab ba) d"
  using reaches_bindp [OF assms(1), of f g] assms(2) by simp

text \<open>Both halves return: \<open>p\<close> gives \<open>x\<close>, \<open>q\<close> gives \<open>y\<close>, and no byte is left over.\<close>

definition joint ::
  "('c, 'd) ideal \<Rightarrow> ('c, 'd, 'a) proc \<Rightarrow> ('c, 'd, 'b) proc \<Rightarrow> 'a \<Rightarrow> 'b \<Rightarrow> bool" where
  "joint ideal p q x y \<longleftrightarrow> reaches ideal (Conf p q [] []) (Conf (Ret x) (Ret y) [] [])"

named_theorems joint_intros \<open>composition of two-party fragments\<close>

lemma joint_Ret [joint_intros]: "joint ideal (Ret x) (Ret y) x y"
  by (simp add: joint_def)

lemma joint_bindp [joint_intros]:
  "joint ideal p q x y \<Longrightarrow> joint ideal (f x) (g y) u v \<Longrightarrow>
     joint ideal (bindp p f) (bindp q g) u v"
  unfolding joint_def
  by (rule reaches_seq [where p' = "Ret x" and q' = "Ret y" and ab' = "[]" and ba' = "[]"])
     simp_all

lemma joint_call [joint_intros]:
  "ideal r s = Some (x, y) \<Longrightarrow> joint ideal (k x) (l y) u v \<Longrightarrow>
     joint ideal (Call r k) (Call s l) u v"
  unfolding joint_def by (rule reaches_call)

text \<open>One message, from the second party or from the first.\<close>

lemma joint_recv_send:
  "length m = n \<Longrightarrow> joint ideal (recv_data Net n) (send_data Net m) m ()"
  unfolding joint_def net_ops_simps by (rule reaches_send_b, simp, rule reaches_recv_a_all) simp_all

lemma joint_send_recv:
  "length m = n \<Longrightarrow> joint ideal (send_data Net m) (recv_data Net n) () m"
  unfolding joint_def net_ops_simps by (rule reaches_send_a, simp, rule reaches_recv_b_all) simp_all

lemma joint_loop:
  assumes "\<And>i. i < n \<Longrightarrow> joint ideal (f i (s i)) (g i (t i)) (s (Suc i)) (t (Suc i))"
  shows "joint ideal (fold_proc f [0..<n] (s 0)) (fold_proc g [0..<n] (t 0)) (s n) (t n)"
  using assms
proof (induction n)
  case 0
  then show ?case by (simp add: joint_Ret)
next
  case (Suc n)
  have "joint ideal (fold_proc f [0..<n] (s 0)) (fold_proc g [0..<n] (t 0)) (s n) (t n)"
    by (rule Suc.IH) (simp add: Suc.prems)
  then have "joint ideal (bindp (fold_proc f [0..<n] (s 0)) (f n)) (bindp (fold_proc g [0..<n] (t 0)) (g n))
      (s (Suc n)) (t (Suc n))"
    using Suc.prems [of n] by (rule joint_bindp) simp
  then show ?case by (simp add: fold_proc_append)
qed

lemma joint_loop_invariant:
  assumes "P 0 s0 t0"
    and "\<And>i s t. i < n \<Longrightarrow> P i s t \<Longrightarrow>
      \<exists>s' t'. joint ideal (f i s) (g i t) s' t' \<and> P (Suc i) s' t'"
  shows "\<exists>s t. joint ideal (fold_proc f [0..<n] s0) (fold_proc g [0..<n] t0) s t \<and> P n s t"
  using assms(2)
proof (induction n)
  case 0
  with assms(1) show ?case by (auto intro: joint_Ret)
next
  case (Suc n)
  from Suc.IH Suc.prems obtain s t where
    st: "joint ideal (fold_proc f [0..<n] s0) (fold_proc g [0..<n] t0) s t" "P n s t"
    by (metis less_SucI)
  from Suc.prems [OF lessI st(2)] obtain s' t' where
    "joint ideal (f n s) (g n t) s' t'" "P (Suc n) s' t'" by blast
  with joint_bindp [OF st(1), of "f n" "g n"] show ?case by (auto simp: fold_proc_append)
qed

lemma joint_reaches_seq:
  "joint ideal p q x y \<Longrightarrow> reaches ideal (Conf (f x) (g y) [] []) d \<Longrightarrow>
     reaches ideal (Conf (bindp p f) (bindp q g) [] []) d"
  unfolding joint_def
  by (rule reaches_seq [where p' = "Ret x" and q' = "Ret y" and ab' = "[]" and ba' = "[]"])
     simp_all

lemma joint_outcomes:
  "joint ideal p q x y \<Longrightarrow> outcomes ideal (start p q) = {Conf (Ret x) (Ret y) [] []}"
  unfolding joint_def start_def by (rule outcomes_eqI) simp_all

lemma outcomes_joint:
  "outcomes ideal (start p q) = {Conf (Ret x) (Ret y) [] []} \<Longrightarrow> joint ideal p q x y"
  by (auto simp: outcomes_def joint_def start_def dest!: equalityD2)

section \<open>An executable schedule\<close>

text \<open>The schedule that moves the first party whenever it can.\<close>

fun sched :: "('c, 'd) ideal \<Rightarrow> ('c, 'd, 'a, 'b) conf \<Rightarrow> ('c, 'd, 'a, 'b) conf option" where
  "sched ideal (Conf (Send m p) q ab ba) = Some (Conf p q (ab @ m) ba)"
| "sched ideal (Conf p (Send m q) ab ba) =
     (case p of
        Recv n k \<Rightarrow>
          (if n \<le> length ba then Some (Conf (k (take n ba)) (Send m q) ab (drop n ba))
           else Some (Conf p q ab (ba @ m)))
      | _ \<Rightarrow> Some (Conf p q ab (ba @ m)))"
| "sched ideal (Conf (Recv n k) (Recv n' k') ab ba) =
     (if n \<le> length ba then Some (Conf (k (take n ba)) (Recv n' k') ab (drop n ba))
      else if n' \<le> length ab then Some (Conf (Recv n k) (k' (take n' ab)) (drop n' ab) ba)
      else None)"
| "sched ideal (Conf (Recv n k) q ab ba) =
     (if n \<le> length ba then Some (Conf (k (take n ba)) q ab (drop n ba)) else None)"
| "sched ideal (Conf p (Recv n' k') ab ba) =
     (if n' \<le> length ab then Some (Conf p (k' (take n' ab)) (drop n' ab) ba) else None)"
| "sched ideal (Conf (Call r k) (Call s l) ab ba) =
     (if ab = [] \<and> ba = []
      then map_option (\<lambda>(x, y). Conf (k x) (l y) [] []) (ideal r s) else None)"
| "sched ideal c = None"

primrec run_sched ::
  "nat \<Rightarrow> ('c, 'd) ideal \<Rightarrow> ('c, 'd, 'a, 'b) conf \<Rightarrow> ('c, 'd, 'a, 'b) conf" where
  "run_sched 0 ideal c = c"
| "run_sched (Suc n) ideal c =
     (case sched ideal c of None \<Rightarrow> c | Some d \<Rightarrow> run_sched n ideal d)"

lemma sched_step: "sched ideal c = Some d \<Longrightarrow> net_step ideal c d"
  by (induction ideal c rule: sched.induct)
     (auto split: if_splits proc.splits intro: net_step.intros)

lemma sched_None: "sched ideal c = None \<longleftrightarrow> stuck ideal c"
proof
  assume "stuck ideal c"
  then show "sched ideal c = None"
    using sched_step [of ideal c] by (cases "sched ideal c") (auto simp: stuck_def)
next
  assume "sched ideal c = None"
  then show "stuck ideal c"
    by (induction ideal c rule: sched.induct)
       (auto simp: stuck_def split: if_splits proc.splits elim!: net_stepE)
qed

lemma reaches_run_sched: "reaches ideal c (run_sched n ideal c)"
proof (induction n arbitrary: c)
  case 0
  then show ?case by simp
next
  case (Suc n)
  show ?case
  proof (cases "sched ideal c")
    case None
    then show ?thesis by simp
  next
    case (Some d)
    with Suc.IH [of d] show ?thesis
      by (auto intro: converse_rtranclp_into_rtranclp sched_step)
  qed
qed

lemma run_sched_outcomes:
  "run_sched n ideal c = d \<Longrightarrow> sched ideal d = None \<Longrightarrow> outcomes ideal c = {d}"
  using reaches_run_sched [of ideal c n] by (auto intro!: outcomes_eqI simp: sched_None)

section \<open>What a party does against an arbitrary peer\<close>

text \<open>
  \<open>survives P p\<close>: whatever bytes the peer sends and whatever the sub-protocols answer,
  \<open>p\<close> ends with no undefined behaviour, and every value it returns satisfies \<open>P\<close>.
\<close>

primrec survives :: "('a \<Rightarrow> bool) \<Rightarrow> ('c, 'd, 'a) proc \<Rightarrow> bool" where
  "survives P (Ret x) = P x"
| "survives P (Throw e) = (\<not> is_ub e)"
| "survives P (Send m p) = survives P p"
| "survives P (Recv n k) = (\<forall>b. length b = n \<longrightarrow> survives P (k b))"
| "survives P (Call c k) = (\<forall>d. survives P (k d))"

lemma survives_bindp:
  "survives P p \<Longrightarrow> (\<And>x. P x \<Longrightarrow> survives Q (f x)) \<Longrightarrow> survives Q (bindp p f)"
  by (induction p) auto

lemma survives_mono: "survives P p \<Longrightarrow> (\<And>x. P x \<Longrightarrow> Q x) \<Longrightarrow> survives Q p"
  by (induction p) auto

text \<open>\<open>returns P p\<close>: whatever the peer sends, every value \<open>p\<close> returns satisfies \<open>P\<close>.\<close>

primrec returns :: "('a \<Rightarrow> bool) \<Rightarrow> ('c, 'd, 'a) proc \<Rightarrow> bool" where
  "returns P (Ret x) = P x"
| "returns P (Throw e) = True"
| "returns P (Send m p) = returns P p"
| "returns P (Recv n k) = (\<forall>b. length b = n \<longrightarrow> returns P (k b))"
| "returns P (Call c k) = (\<forall>d. returns P (k d))"

lemma returns_bindp:
  "returns P p \<Longrightarrow> (\<And>x. P x \<Longrightarrow> returns Q (f x)) \<Longrightarrow> returns Q (bindp p f)"
  by (induction p) auto

lemma returns_any: "returns (\<lambda>_. True) p"
  by (induction p) auto

lemma returns_after: "(\<And>x. returns Q (f x)) \<Longrightarrow> returns Q (bindp p f)"
  by (rule returns_bindp [OF returns_any])

lemma returns_lift_res: "(\<And>x. r = Inr x \<Longrightarrow> P x) \<Longrightarrow> returns P (lift_res r)"
  by (cases r) simp_all

lemma returns_step:
  "net_step ideal c d \<Longrightarrow> returns P (party_a c) \<Longrightarrow> returns P (party_a d)"
  by (induction rule: net_step.induct) auto

lemma returns_outcome:
  assumes "returns P p" and "Conf (Ret x) q' ab ba \<in> outcomes ideal (start p q)"
  shows "P x"
proof -
  have "returns P (party_a d)" if "reaches ideal (start p q) d" for d
    using that by (induction rule: rtranclp_induct) (auto simp: start_def assms(1) intro: returns_step)
  from this [of "Conf (Ret x) q' ab ba"] assms(2) show ?thesis by (simp add: outcomes_def)
qed

lemma no_infinite_run: "\<not> (\<exists>c. c 0 = d \<and> (\<forall>i. net_step ideal (c i) (c (Suc i))))"
proof
  assume "\<exists>c. c 0 = d \<and> (\<forall>i. net_step ideal (c i) (c (Suc i)))"
  then obtain c where c: "c 0 = d" "\<forall>i. net_step ideal (c i) (c (Suc i))" by blast
  have "Wellfounded.accp (\<lambda>d c. net_step ideal c d) d" by (cases d) (simp add: net_step_accp)
  then have "\<forall>i. c i \<noteq> d"
  proof (induction d rule: accp_induct_rule)
    case (1 d)
    show ?case
    proof (intro allI notI)
      fix i assume "c i = d"
      then have "net_step ideal d (c (Suc i))" using c(2) by auto
      from "1.IH" [OF this] show False by blast
    qed
  qed
  with c(1) show False by blast
qed

text \<open>
  \<open>fed p bs\<close>: what \<open>p\<close> ends with when the peer's bytes are \<open>bs\<close> and nothing else
  arrives; \<open>None\<close> when it waits for more, or enters a sub-protocol.
\<close>

primrec fed :: "('c, 'd, 'a) proc \<Rightarrow> byte list \<Rightarrow> 'a res option" where
  "fed (Ret x) bs = Some (Inr x)"
| "fed (Throw e) bs = Some (Inl e)"
| "fed (Send m p) bs = fed p bs"
| "fed (Recv n k) bs = (if n \<le> length bs then fed (k (take n bs)) (drop n bs) else None)"
| "fed (Call c k) bs = None"

lemma survives_fed: "survives P p \<Longrightarrow> fed p bs = Some (Inl e) \<Longrightarrow> \<not> is_ub e"
proof (induction p arbitrary: bs)
  case (Recv n k)
  then show ?case
    by (auto split: if_splits) (metis length_take min.absorb2 rangeI)
qed (auto split: if_splits)

text \<open>
  \<open>guarded A B P p h\<close>: if every sub-protocol answers as \<open>A\<close> says, and each message of the peer
  satisfies \<open>B\<close>, which also sees the messages before it, and is otherwise arbitrary, \<open>p\<close> ends with
  no undefined behaviour, and what it returns satisfies \<open>P\<close>, which sees all messages. The list
  \<open>h\<close> holds the messages received so far.
\<close>

primrec guarded ::
  "('c \<Rightarrow> 'd \<Rightarrow> bool) \<Rightarrow> (byte list list \<Rightarrow> byte list \<Rightarrow> bool) \<Rightarrow> (byte list list \<Rightarrow> 'a \<Rightarrow> bool) \<Rightarrow>
     ('c, 'd, 'a) proc \<Rightarrow> byte list list \<Rightarrow> bool" where
  "guarded A B P (Ret x) h = P h x"
| "guarded A B P (Throw e) h = (\<not> is_ub e)"
| "guarded A B P (Send m p) h = guarded A B P p h"
| "guarded A B P (Recv n k) h = (\<forall>b. length b = n \<longrightarrow> B h b \<longrightarrow> guarded A B P (k b) (h @ [b]))"
| "guarded A B P (Call c k) h = (\<forall>d. A c d \<longrightarrow> guarded A B P (k d) h)"

lemma survives_iff_guarded: "survives P p \<longleftrightarrow> guarded (\<lambda>_ _. True) (\<lambda>_ _. True) (\<lambda>_. P) p h"
  by (induction p arbitrary: h) auto

lemma guarded_bindp:
  "guarded A B P p h \<Longrightarrow> (\<And>h' x. P h' x \<Longrightarrow> guarded A B Q (f x) h') \<Longrightarrow> guarded A B Q (bindp p f) h"
  by (induction p arbitrary: h) auto

lemma guarded_lift:
  "(\<And>e. r = Inl e \<Longrightarrow> \<not> is_ub e) \<Longrightarrow> (\<And>x. r = Inr x \<Longrightarrow> guarded A B P (f x) h) \<Longrightarrow>
     guarded A B P (bindp (lift_res r) f) h"
  by (cases r) simp_all

lemma guarded_survives:
  "survives P (lift_res r) \<Longrightarrow> (\<And>x. P x \<Longrightarrow> guarded A B Q (f x) h) \<Longrightarrow>
     guarded A B Q (bindp (lift_res r) f) h"
  by (cases r) simp_all

lemma guarded_ok:
  "\<exists>x. r = Inr x \<and> Q x \<Longrightarrow> (\<And>x. Q x \<Longrightarrow> guarded A B P (f x) h) \<Longrightarrow> guarded A B P (bindp (lift_res r) f) h"
  by auto

lemma guarded_mono: "guarded A B P p h \<Longrightarrow> (\<And>h x. P h x \<Longrightarrow> Q h x) \<Longrightarrow> guarded A B Q p h"
  by (induction p arbitrary: h) auto

lemma guarded_loop:
  assumes "P 0 h s" and "\<And>i h s. i < n \<Longrightarrow> P i h s \<Longrightarrow> guarded A B (P (Suc i)) (f i s) h"
  shows "guarded A B (P n) (fold_proc f [0..<n] s) h"
  using assms(2)
proof (induction n)
  case 0
  then show ?case using assms(1) by simp
next
  case (Suc n)
  have "guarded A B (P n) (fold_proc f [0..<n] s) h" by (rule Suc.IH) (simp add: Suc.prems)
  from guarded_bindp [OF this Suc.prems [OF lessI]] show ?case by (simp add: fold_proc_append)
qed

lemma guarded_bindp2:
  "guarded A B (\<lambda>h (x, y). P h x y) p h \<Longrightarrow>
     (\<And>h' x y. P h' x y \<Longrightarrow> guarded A B Q (f x y) h') \<Longrightarrow> guarded A B Q (bindp p (\<lambda>(x, y). f x y)) h"
  by (erule guarded_bindp) auto

lemma guarded_bindp3:
  "guarded A B (\<lambda>h (x, y, z). P h x y z) p h \<Longrightarrow>
     (\<And>h' x y z. P h' x y z \<Longrightarrow> guarded A B Q (f x y z) h') \<Longrightarrow> guarded A B Q (bindp p (\<lambda>(x, y, z). f x y z)) h"
  by (erule guarded_bindp) auto

end
