(* ===== verification/Parameter_Check.thy ===== *)
theory Parameter_Check
  imports Interaction Decimal
begin

text \<open>
  \<open>util/parameter_check.h\<close>. The templates are functions of the parameter's type: its
  \<open>std::to_string\<close>, and for \<open>check_consistency\<close> the bytes \<open>net->send_data(&value,
  sizeof(value))\<close> puts on the wire. Each failing check throws \<open>std::invalid_argument\<close> with
  the message the code builds.
\<close>

section \<open>Local checks\<close>

definition check_less_than ::
  "('a::linorder \<Rightarrow> string) \<Rightarrow> string \<Rightarrow> 'a \<Rightarrow> 'a \<Rightarrow> unit res" where
  "check_less_than to_string param_name v threshold =
     (if v \<ge> threshold
      then Inl (Invalid_Argument (''Check less than failed.'' @ param_name @ ''('' @ to_string v @
             '')'' @ '' is greater than threshold('' @ to_string threshold @ '').''))
      else Inr ())"

definition check_greater_than ::
  "('a::linorder \<Rightarrow> string) \<Rightarrow> string \<Rightarrow> 'a \<Rightarrow> 'a \<Rightarrow> unit res" where
  "check_greater_than to_string param_name v threshold =
     (if v \<le> threshold
      then Inl (Invalid_Argument (''Check greater than failed.'' @ param_name @ ''('' @ to_string v @
             '')'' @ '' is less than threshold('' @ to_string threshold @ '').''))
      else Inr ())"

definition check_equal ::
  "('a \<Rightarrow> string) \<Rightarrow> string \<Rightarrow> 'a \<Rightarrow> 'a \<Rightarrow> unit res" where
  "check_equal to_string param_name v expected_value =
     (if v \<noteq> expected_value
      then Inl (Invalid_Argument (''Check equal failed.'' @ param_name @ ''('' @ to_string v @
             '')'' @ '' is not equal to expected value ('' @ to_string expected_value @ '').''))
      else Inr ())"

text \<open>The loop that lists the expected values, separated by a comma and a space.\<close>

definition expected_values_str :: "('a \<Rightarrow> string) \<Rightarrow> 'a list \<Rightarrow> string" where
  "expected_values_str to_string expected_values =
     concat (map (\<lambda>i. if i \<noteq> length expected_values - 1
                      then to_string (expected_values ! i) @ '', ''
                      else to_string (expected_values ! i)) [0..<length expected_values])"

definition check_equal_any ::
  "('a \<Rightarrow> string) \<Rightarrow> string \<Rightarrow> 'a \<Rightarrow> 'a list \<Rightarrow> unit res" where
  "check_equal_any to_string param_name v expected_values =
     (if v \<notin> set expected_values
      then Inl (Invalid_Argument (''Check equal failed.'' @ param_name @ ''('' @ to_string v @
             '')'' @ '' is not equal to expected values ('' @
             expected_values_str to_string expected_values @ '').''))
      else Inr ())"

definition check_in_range ::
  "('a::linorder \<Rightarrow> string) \<Rightarrow> string \<Rightarrow> 'a \<Rightarrow> 'a \<Rightarrow> 'a \<Rightarrow> unit res" where
  "check_in_range to_string param_name v low high =
     (if v > high \<or> v < low
      then Inl (Invalid_Argument (''Check in range failed.'' @ param_name @ ''('' @ to_string v @
             '')'' @ '' is not in range ['' @ to_string low @ '','' @ to_string high @ ''].''))
      else Inr ())"

lemma check_less_than_ok: "check_less_than f n v t = Inr () \<longleftrightarrow> v < t"
  by (auto simp: check_less_than_def)

lemma check_greater_than_ok: "check_greater_than f n v t = Inr () \<longleftrightarrow> t < v"
  by (auto simp: check_greater_than_def)

lemma check_equal_ok: "check_equal f n v e = Inr () \<longleftrightarrow> v = e"
  by (auto simp: check_equal_def)

lemma check_equal_any_ok: "check_equal_any f n v es = Inr () \<longleftrightarrow> v \<in> set es"
  by (auto simp: check_equal_any_def)

lemma check_in_range_ok: "check_in_range f n v lo hi = Inr () \<longleftrightarrow> lo \<le> v \<and> v \<le> hi"
  by (auto simp: check_in_range_def)

lemma check_in_range_greater_less:
  "check_in_range f n v lo hi = Inr () \<longleftrightarrow>
     check_equal f n v lo = Inr () \<or> check_equal f n v hi = Inr () \<or>
     (check_greater_than f n v lo = Inr () \<and> check_less_than f n v hi = Inr ())" if "lo \<le> hi"
  using that by (auto simp: check_in_range_ok check_equal_ok check_greater_than_ok check_less_than_ok)

section \<open>Agreement with the peer\<close>

definition disagreement :: "('a \<Rightarrow> string) \<Rightarrow> string \<Rightarrow> 'a \<Rightarrow> 'a \<Rightarrow> error" where
  "disagreement to_string param_name v remote =
     Invalid_Argument (''Disagreement on parmeter '' @ param_name @ '', '' @ to_string v @ '' vs '' @
       to_string remote @ ''.'')"

text \<open>
  \<open>enc\<close>, \<open>dec\<close> and \<open>width\<close> are the memory image of \<open>T\<close>, \<open>differs\<close> its \<open>!=\<close>.
\<close>

definition check_consistency ::
  "('a \<Rightarrow> byte list) \<Rightarrow> (byte list \<Rightarrow> 'a) \<Rightarrow> nat \<Rightarrow> ('a \<Rightarrow> 'a \<Rightarrow> bool) \<Rightarrow> ('a \<Rightarrow> string) \<Rightarrow>
   bool \<Rightarrow> net \<Rightarrow> string \<Rightarrow> 'a \<Rightarrow> ('c, 'd, unit) proc" where
  "check_consistency enc dec width differs to_string is_sender net param_name v =
     bindp
       (if is_sender
        then bindp (send_data net (enc v)) (\<lambda>_. recv_data net width)
        else bindp (recv_data net width) (\<lambda>b. bindp (send_data net (enc v)) (\<lambda>_. Ret b)))
       (\<lambda>b. let remote_value = dec b in
          if differs v remote_value then Throw (disagreement to_string param_name v remote_value)
          else Ret ())"

text \<open>
  What the exchange needs of the type: a fixed-width image that reads back, and a symmetric
  comparison.
\<close>

locale agreed_parameter = wire_codec enc dec width valid
  for enc :: "'a \<Rightarrow> byte list" and dec width valid +
  fixes differs :: "'a \<Rightarrow> 'a \<Rightarrow> bool"
    and to_string :: "'a \<Rightarrow> string"
  assumes differs_sym: "differs x y = differs y x"
begin

lemma consistency_agree:
  assumes "valid v" and "valid w" and "\<not> differs v w"
  shows "joint ideal (check_consistency enc dec width differs to_string True Net name v)
           (check_consistency enc dec width differs to_string False Net name w) () ()"
  using assms differs_sym [of v w] unfolding joint_def check_consistency_def
  by (auto intro!: reaches_send_a reaches_send_b reaches_recv_a_all reaches_recv_b_all
           simp: enc_width dec_enc)

lemma consistency_disagree:
  assumes "valid v" and "valid w" and "differs v w"
  shows "reaches ideal
           (Conf (check_consistency enc dec width differs to_string True Net name v)
                 (check_consistency enc dec width differs to_string False Net name w) [] [])
           (Conf (Throw (disagreement to_string name v w)) (Throw (disagreement to_string name w v))
                 [] [])"
  using assms differs_sym [of v w] unfolding check_consistency_def
  by (auto intro!: reaches_send_a reaches_send_b reaches_recv_a_all reaches_recv_b_all
           simp: enc_width dec_enc)

end

interpretation int_param:
  agreed_parameter int_bytes int_of_bytes 4 int_range "(\<noteq>)" show_int
  by unfold_locales auto

interpretation size_param:
  agreed_parameter size_t_bytes size_t_of 8 "\<lambda>n. n < 2 ^ 64" "(\<noteq>)" show_nat
  by unfold_locales auto

lemma check_consistency_survives:
  "survives (\<lambda>_. True) (check_consistency enc dec width differs to_string is_sender Net name v)"
  by (simp add: check_consistency_def disagreement_def Let_def)

end
