(* ===== verification/Config.thy ===== *)
theory Config
  imports Interaction
begin

text \<open>
  The configuration the protocols are initialised from. \<open>nlohmann::json\<close> is a library the
  code calls, so a \<open>json_lib\<close> record stands for it: parsing of a literal,
  \<open>merge_patch\<close>, and the lookup of \<open>params["group"]["name"]\<close> converted to the type it
  is assigned to (an \<open>Inl\<close> is the exception of a missing or ill-typed entry).
\<close>

record ('j, 'd) json_lib =
  json_parse :: "string \<Rightarrow> 'j"
  merge_patch :: "'j \<Rightarrow> 'j \<Rightarrow> 'j"
  get_bool :: "'j \<Rightarrow> string \<Rightarrow> string \<Rightarrow> bool res"
  get_int :: "'j \<Rightarrow> string \<Rightarrow> string \<Rightarrow> int res"
  get_size :: "'j \<Rightarrow> string \<Rightarrow> string \<Rightarrow> nat res"
  get_double :: "'j \<Rightarrow> string \<Rightarrow> string \<Rightarrow> 'd res"
  get_string :: "'j \<Rightarrow> string \<Rightarrow> string \<Rightarrow> string res"

end
