(* ===== verification/Ecdh_Correct.thy ===== *)
theory Ecdh_Correct
  imports Ecdh_Psi
begin

text \<open>
  Correctness of the ECDH protocol: each operation on every branch, the two parties run
  against each other, and what an arbitrary peer can make a party do.
\<close>

section \<open>Encryption loops\<close>

definition enc_key :: "('pt, 'sk, 'g) ec_openssl \<Rightarrow> 'sk \<Rightarrow> string \<Rightarrow> byte list" where
  "enc_key c sk key =
     point_to_bytes c (ec_encrypt c (hash_to_curve c (string_bytes key)) sk) kEccPointLen"

text \<open>The bytes two parties with keys \<open>a\<close> and \<open>b\<close> compare for an input key.\<close>

definition compare_key :: "('pt, 'sk, 'g) ec_openssl \<Rightarrow> 'sk \<Rightarrow> 'sk \<Rightarrow> string \<Rightarrow> byte list" where
  "compare_key c a b key = last_bytes kECCCompareBytesLen
     (point_to_bytes c (ec_encrypt c (ec_encrypt c (hash_to_curve c (string_bytes key)) a) b)
        kEccPointLen)"

lemma compare_key_comm: "ec_ok c \<Longrightarrow> compare_key c a b = compare_key c b a"
  by (simp add: compare_key_def ec_ok_def fun_eq_iff)

lemma encrypt_step_update:
  "i < length ks \<Longrightarrow> length t = length ks \<Longrightarrow>
     encrypt_step self ks i t = Inr (t[i := enc_key (e_ecc_cipher self) (e_sk self) (ks ! i)])"
  by (simp add: encrypt_step_def enc_key_def Let_def)

lemma encrypt_keys_any_schedule:
  "mset p = mset [0..<length ks] \<Longrightarrow> length t = length ks \<Longrightarrow>
     fold_res (encrypt_step self ks) p t =
       Inr (map (enc_key (e_ecc_cipher self) (e_sk self)) ks)"
  using fold_res_update_all [of "length ks" "encrypt_step self ks"
      "\<lambda>i _. enc_key (e_ecc_cipher self) (e_sk self) (ks ! i)" p t]
  by (simp add: encrypt_step_update map_nth_upt)

lemma encrypt_keys_result:
  "length t = length ks \<Longrightarrow>
     encrypt_keys self ks t = Inr (map (enc_key (e_ecc_cipher self) (e_sk self)) ks)"
  unfolding encrypt_keys_def for_upto_def by (rule encrypt_keys_any_schedule) simp_all

lemma length_enc_key: "ec_ok c \<Longrightarrow> length (enc_key c sk k) = kEccPointLen"
  by (simp add: enc_key_def ec_ok_def)

lemma length_compare_key: "ec_ok c \<Longrightarrow> length (compare_key c a b k) = kECCCompareBytesLen"
  by (simp add: compare_key_def ec_ok_def last_bytes_def defines_simps)

lemma doublely_encrypt_step_update:
  assumes "ec_ok (e_ecc_cipher self)" and "i < length ks"
    and "t ! i = enc_key (e_ecc_cipher self) sk (ks ! i)" and "length t = length ks"
  shows "doublely_encrypt_step self i t =
           Inr (t[i := compare_key (e_ecc_cipher self) sk (e_sk self) (ks ! i)])"
proof -
  have "slice (t ! i) 0 kEccPointLen = Inr (t ! i)"
    using assms by (simp add: slice_in length_enc_key)
  moreover have "point_from_bytes (e_ecc_cipher self) (t ! i) kEccPointLen =
      Inr (ec_encrypt (e_ecc_cipher self)
        (hash_to_curve (e_ecc_cipher self) (string_bytes (ks ! i))) sk)"
    using assms by (simp add: enc_key_def ec_ok_def)
  ultimately show ?thesis
    using assms(2,4) by (simp add: doublely_encrypt_step_def compare_key_def Let_def)
qed

lemma doublely_encrypt_keys_result:
  assumes "ec_ok (e_ecc_cipher self)"
  shows "doublely_encrypt_keys self (map (enc_key (e_ecc_cipher self) sk) ks) =
           Inr (map (compare_key (e_ecc_cipher self) sk (e_sk self)) ks)"
proof -
  let ?e = "enc_key (e_ecc_cipher self) sk"
  let ?d = "compare_key (e_ecc_cipher self) sk (e_sk self)"
  let ?g = "\<lambda>i. map ?d (take i ks) @ map ?e (drop i ks)"
  have "for_upto (length ks) (doublely_encrypt_step self) (?g 0) = Inr (?g (length ks))"
  proof (rule for_upto_trace [where g = ?g])
    fix i assume i: "i < length ks"
    then have split: "take (Suc i) ks = take i ks @ [ks ! i]" "drop i ks = ks ! i # drop (Suc i) ks"
      by (simp_all add: take_Suc_conv_app_nth Cons_nth_drop_Suc)
    have "doublely_encrypt_step self i (?g i) = Inr ((?g i)[i := ?d (ks ! i)])"
      using assms i by (intro doublely_encrypt_step_update) (simp_all add: nth_append)
    moreover have "(?g i)[i := ?d (ks ! i)] = ?g (Suc i)"
      using i unfolding split by (simp add: list_update_append)
    ultimately show "doublely_encrypt_step self i (?g i) = Inr (?g (Suc i))" by simp
  qed
  then show ?thesis by (simp add: doublely_encrypt_keys_def)
qed

section \<open>Exchanging keys\<close>

text \<open>The largest number of keys whose encryptions fit in one byte vector.\<close>

definition key_count_ok :: "nat \<Rightarrow> bool" where
  "key_count_ok n \<longleftrightarrow> n * kEccPointLen \<le> max_bytes"

definition sendable :: "nat \<Rightarrow> byte_vector list \<Rightarrow> bool" where
  "sendable w ks \<longleftrightarrow> (\<forall>k\<in>set ks. length k = w) \<and> length ks * w \<le> max_bytes \<and>
     length ks \<le> max_vectors"

lemma sendable_bounds:
  assumes "sendable w ks"
  shows "size_mul (length ks) w = length ks * w" "length ks < 2 ^ 64" "length ks * w < 2 ^ 64"
    "length (concat ks) = length ks * w" "vec_reserve max_bytes (length ks * w) = Inr ()"
    "vec_grow max_bytes (length ks * w) = Inr ()" "vec_reserve max_vectors (length ks) = Inr ()"
    "unpack_keys (concat ks) w (length ks) = Inr ks" "length (size_t_bytes (length ks)) = 8"
    "size_t_of (size_t_bytes (length ks)) = length ks"
proof -
  from assms have l: "length ks * w < 2 ^ 64" and n: "length ks < 2 ^ 64"
    by (auto simp: sendable_def max_bytes_def max_vectors_def)
  show "size_mul (length ks) w = length ks * w" using l by (simp add: size_mul_def)
  show "length (concat ks) = length ks * w" "vec_reserve max_bytes (length ks * w) = Inr ()"
    "vec_grow max_bytes (length ks * w) = Inr ()" "vec_reserve max_vectors (length ks) = Inr ()"
    "unpack_keys (concat ks) w (length ks) = Inr ks"
    using assms l length_concat_fixed
    by (auto simp: sendable_def vec_reserve_def vec_grow_def unpack_concat)
  show "length (size_t_bytes (length ks)) = 8" "size_t_of (size_t_bytes (length ks)) = length ks"
    using n by (simp_all add: size_codec.enc_width size_codec.dec_enc)
  show "length ks < 2 ^ 64" "length ks * w < 2 ^ 64" by fact+
qed

lemma send_recv_a_to_b:
  assumes "sendable w ks"
  shows "joint ideal (send_keys Net ks w) (recv_keys Net rs w) () (rs @ ks)"
proof (cases "ks = []")
  case True
  with sendable_bounds [OF assms] show ?thesis
    unfolding joint_def send_keys_def recv_keys_def Let_def
    by (auto intro!: reaches_send_a reaches_recv_b_all simp: size_mul_def)
next
  case False
  with sendable_bounds [OF assms] show ?thesis
    unfolding joint_def send_keys_def recv_keys_def Let_def
    by (simp, intro reaches_send_a, simp, intro reaches_recv_b,
        simp_all, intro reaches_recv_b_all, simp_all)
qed

lemma send_recv_b_to_a:
  assumes "sendable w ks"
  shows "joint ideal (recv_keys Net rs w) (send_keys Net ks w) (rs @ ks) ()"
proof (cases "ks = []")
  case True
  with sendable_bounds [OF assms] show ?thesis
    unfolding joint_def send_keys_def recv_keys_def Let_def
    by (auto intro!: reaches_send_b reaches_recv_a_all simp: size_mul_def)
next
  case False
  with sendable_bounds [OF assms] show ?thesis
    unfolding joint_def send_keys_def recv_keys_def Let_def
    by (simp, intro reaches_send_b, simp, intro reaches_recv_a,
        simp_all, intro reaches_recv_a_all, simp_all)
qed

lemma exchange_joint [joint_intros]:
  assumes "sendable w xs" and "sendable w ys" and "0 < w"
  shows "joint ideal (exchange_encrypted_keys True Net xs [] w)
           (exchange_encrypted_keys False Net ys [] w) ys xs"
proof -
  have "joint ideal
      (bindp (send_keys Net xs w) (\<lambda>_. recv_keys Net [] w))
      (bindp (recv_keys Net [] w) (\<lambda>r. bindp (send_keys Net ys w) (\<lambda>_. Ret r))) ([] @ ys) ([] @ xs)"
  proof (rule joint_bindp [OF send_recv_a_to_b [OF assms(1)]])
    have "joint ideal (bindp (recv_keys Net [] w) Ret)
        (bindp (send_keys Net ys w) (\<lambda>_. Ret ([] @ xs))) ([] @ ys) ([] @ xs)"
      by (rule joint_bindp [OF send_recv_b_to_a [OF assms(2)]]) (rule joint_Ret)
    then show "joint ideal (recv_keys Net [] w)
        (bindp (send_keys Net ys w) (\<lambda>_. Ret ([] @ xs))) ([] @ ys) ([] @ xs)"
      by (simp add: bindp_Ret)
  qed
  with assms(3) show ?thesis by (simp add: exchange_encrypted_keys_def)
qed

section \<open>Comparing\<close>

text \<open>Keys past the marks must not be found.\<close>

lemma mark_members_prefix:
  assumes "n \<le> length ks" and "\<forall>k\<in>set (drop n ks). \<not> binary_search remote k"
  shows "mark_members remote ks (replicate n False, 0) =
     Inr (map (binary_search remote) (take n ks), length (filter (binary_search remote) (take n ks)))"
proof -
  let ?P = "binary_search remote"
  let ?g = "\<lambda>i. (map ?P (take (min i n) ks) @ replicate (n - i) False, length (filter ?P (take (min i n) ks)))"
  have "for_upto (length ks) (\<lambda>i s. res_bind (vec_at ks i) (\<lambda>key.
          if ?P key then mark_hit i s else Inr s)) (?g 0) = Inr (?g (length ks))"
  proof (rule for_upto_trace [where g = ?g])
    fix i assume i: "i < length ks"
    show "res_bind (vec_at ks i) (\<lambda>key. if ?P key then mark_hit i (?g i) else Inr (?g i)) =
        Inr (?g (Suc i))"
    proof (cases "i < n")
      case True
      then have "n - i = Suc (n - Suc i)" by simp
      with True i show ?thesis
        by (simp add: min_def take_Suc_conv_app_nth list_update_append)
    next
      case False
      then have "drop n ks ! (i - n) = ks ! i" "i - n < length (drop n ks)" using i by simp_all
      then have "ks ! i \<in> set (drop n ks)" by (metis nth_mem)
      with False i assms(2) show ?thesis by (simp add: min_def)
    qed
  qed
  with assms(1) show ?thesis by (simp add: mark_members_def)
qed

text \<open>On every branch: an empty argument leaves the output argument as it was.\<close>

lemma calculate_intersection_empty:
  "remote = [] \<or> ks = [] \<or> keys = [] \<Longrightarrow> calculate_intersection remote ks keys out = Inr out"
  by (auto simp: calculate_intersection_def)

lemma calculate_intersection_prefix:
  assumes "sorted remote" and "length keys \<le> length ks" and "set (drop (length keys) ks) \<inter> set remote = {}"
    and "remote \<noteq> []" and "keys \<noteq> []"
  shows "calculate_intersection remote ks keys out =
           Inr (marked (map (\<lambda>k. k \<in> set remote) (take (length keys) ks)) keys)"
proof -
  let ?ks = "take (length keys) ks"
  have mem: "binary_search remote = (\<lambda>k. k \<in> set remote)"
    using assms(1) by (simp add: fun_eq_iff binary_search_correct)
  have len: "length ?ks = length keys" using assms(2) by simp
  then have cnt: "length (filter (binary_search remote) ?ks) =
      length (marked (map (binary_search remote) ?ks) keys)"
    by (rule length_marked [symmetric])
  have "ks \<noteq> []" using assms by auto
  moreover have "\<forall>k\<in>set (drop (length keys) ks). \<not> binary_search remote k"
    using assms(3) by (auto simp: mem)
  ultimately have "calculate_intersection remote ks keys out =
      collect_marked (map (binary_search remote) ?ks)
        (length (filter (binary_search remote) ?ks)) keys out"
    using assms(4,5) mark_members_prefix [OF assms(2), of remote]
    by (simp add: calculate_intersection_def)
  also have "\<dots> = Inr (marked (map (binary_search remote) ?ks) keys)"
    unfolding cnt using len by (intro collect_marked_spec) simp_all
  finally show ?thesis by (simp add: mem)
qed

lemma calculate_intersection_result:
  assumes "sorted remote" and "length ks = length keys" and "remote \<noteq> []" and "keys \<noteq> []"
  shows "calculate_intersection remote ks keys out =
           Inr (marked (map (\<lambda>k. k \<in> set remote) ks) keys)"
  using calculate_intersection_prefix [OF assms(1) _ _ assms(3,4), of ks] assms(2) by simp

lemma calculate_cardinality_result:
  assumes "sorted remote"
  shows "calculate_cardinality_only remote ks = Inr (length (filter (\<lambda>k. k \<in> set remote) ks))"
proof -
  let ?P = "binary_search remote"
  have mem: "?P = (\<lambda>k. k \<in> set remote)"
    using assms by (simp add: fun_eq_iff binary_search_correct)
  let ?g = "\<lambda>i. length (filter ?P (take i ks))"
  have "for_upto (length ks) (\<lambda>i cnt. res_bind (vec_at ks i) (\<lambda>key.
          if ?P key then Inr (cnt + 1) else Inr cnt)) (?g 0) = Inr (?g (length ks))"
    by (rule for_upto_trace [where g = ?g]) (simp add: take_Suc_conv_app_nth)
  then show ?thesis by (auto simp: calculate_cardinality_only_def mem)
qed

section \<open>Two honest parties\<close>

text \<open>
  Two objects as a successful \<open>ecdh_init\<close> of both parties leaves them: one sender, the same
  curve, each side's flag known to the other.
\<close>

definition paired ::
  "('pt, 'sk, 'g) ecdh_psi \<Rightarrow> ('pt, 'sk, 'g) ecdh_psi \<Rightarrow> bool" where
  "paired a b \<longleftrightarrow> e_is_sender a \<and> \<not> e_is_sender b \<and>
     e_ecc_cipher a = e_ecc_cipher b \<and> ec_ok (e_ecc_cipher a) \<and>
     e_remote_obtain_result a = e_obtain_result b \<and>
     e_remote_obtain_result b = e_obtain_result a"

definition shared_key :: "('pt, 'sk, 'g) ecdh_psi \<Rightarrow> ('pt, 'sk, 'g) ecdh_psi \<Rightarrow> string \<Rightarrow> byte list" where
  "shared_key a b = compare_key (e_ecc_cipher a) (e_sk a) (e_sk b)"

text \<open>No two different keys of the run collide on the compared bytes.\<close>

definition no_collision ::
  "('pt, 'sk, 'g) ecdh_psi \<Rightarrow> ('pt, 'sk, 'g) ecdh_psi \<Rightarrow> string list \<Rightarrow> string list \<Rightarrow> bool" where
  "no_collision a b xs ys \<longleftrightarrow>
     list_all (\<lambda>x. list_all (\<lambda>y. shared_key a b x = shared_key a b y \<longrightarrow> x = y) ys) xs"

lemma key_count_sendable:
  assumes "key_count_ok (length ks)" and "\<forall>k\<in>set ks. length k = w" and "w \<le> kEccPointLen"
  shows "sendable w ks"
proof -
  have "length ks * w \<le> length ks * kEccPointLen" using assms(3) by (rule mult_le_mono2)
  also have "\<dots> \<le> max_bytes" using assms(1) by (simp only: key_count_ok_def)
  finally have "length ks * w \<le> max_bytes" .
  moreover have "length ks \<le> max_vectors"
    using assms(1) by (simp add: key_count_ok_def defines_simps max_bytes_def max_vectors_def)
  ultimately show ?thesis using assms(2) by (simp add: sendable_def)
qed

lemma sendable_Nil: "sendable w []"
  by (simp add: sendable_def)

text \<open>
  The part both entry points share, up to the second exchange: \<open>k\<close> is what each party does
  with the doubly encrypted keys of the peer and its own.
\<close>

definition ecdh_rounds ::
  "('pt, 'sk, 'g) ecdh_psi \<Rightarrow> net \<Rightarrow> string list \<Rightarrow>
     (byte_vector list \<Rightarrow> byte_vector list \<Rightarrow> ('c, 'e, 'r) proc) \<Rightarrow> ('c, 'e, 'r) proc" where
  "ecdh_rounds self net shuffled k =
     bindp (lift_res (encrypt_keys self shuffled
              (replicate (length shuffled) (replicate kEccPointLen 0)))) (\<lambda>encrypted_keys.
     bindp (exchange_encrypted_keys (e_is_sender self) net encrypted_keys [] kEccPointLen)
       (\<lambda>received.
     bindp (lift_res (doublely_encrypt_keys self received)) (\<lambda>exchanged.
     bindp (if e_remote_obtain_result self
            then exchange_encrypted_keys (e_is_sender self) net exchanged []
                   kECCCompareBytesLen
            else exchange_encrypted_keys (e_is_sender self) net [] [] kECCCompareBytesLen)
       (\<lambda>own. k exchanged own))))"

lemma ecdh_rounds_joint:
  assumes "paired a b" and "key_count_ok (length xs)" and "key_count_ok (length ys)"
    and k: "joint ideal
       (k (map (shared_key a b) ys) (if e_obtain_result a then map (shared_key a b) xs else []))
       (l (map (shared_key a b) xs) (if e_obtain_result b then map (shared_key a b) ys else [])) u v"
  shows "joint ideal (ecdh_rounds a Net xs k) (ecdh_rounds b Net ys l) u v"
proof -
  let ?c = "e_ecc_cipher a"
  have ok: "ec_ok ?c" and same: "e_ecc_cipher b = ?c" "e_is_sender a" "\<not> e_is_sender b"
      "e_remote_obtain_result a = e_obtain_result b" "e_remote_obtain_result b = e_obtain_result a"
    using assms(1) unfolding paired_def by (elim conjE, simp)+
  have da: "doublely_encrypt_keys a (map (enc_key ?c (e_sk b)) ys) = Inr (map (shared_key a b) ys)"
    using doublely_encrypt_keys_result [of a "e_sk b" ys] ok
    by (simp add: shared_key_def compare_key_comm [OF ok, of "e_sk b"])
  have db: "doublely_encrypt_keys b (map (enc_key ?c (e_sk a)) xs) = Inr (map (shared_key a b) xs)"
    using doublely_encrypt_keys_result [of b "e_sk a" xs] ok same by (simp add: shared_key_def)
  have enc: "sendable kEccPointLen (map (enc_key ?c (e_sk a)) xs)"
      "sendable kEccPointLen (map (enc_key ?c (e_sk b)) ys)"
    using assms(2,3) ok by (auto intro!: key_count_sendable simp: length_enc_key)
  have cmp: "sendable kECCCompareBytesLen (map (shared_key a b) xs)"
      "sendable kECCCompareBytesLen (map (shared_key a b) ys)"
    using assms(2,3) ok
    by (auto intro!: key_count_sendable simp: length_compare_key shared_key_def defines_simps)
  have pos: "0 < kEccPointLen" "0 < kECCCompareBytesLen" by (simp_all add: defines_simps)
  let ?sa = "if e_obtain_result b then map (shared_key a b) ys else []"
  let ?sb = "if e_obtain_result a then map (shared_key a b) xs else []"
  have send: "sendable kECCCompareBytesLen ?sa" "sendable kECCCompareBytesLen ?sb"
    using cmp by (simp_all add: sendable_Nil)
  have "joint ideal
      (bindp (exchange_encrypted_keys True Net ?sa [] kECCCompareBytesLen)
         (\<lambda>own. k (map (shared_key a b) ys) own))
      (bindp (exchange_encrypted_keys False Net ?sb [] kECCCompareBytesLen)
         (\<lambda>own. l (map (shared_key a b) xs) own)) u v"
    by (rule joint_bindp, rule exchange_joint [OF send pos(2)], rule k)
  then have second: "joint ideal
      (bindp (lift_res (doublely_encrypt_keys a (map (enc_key ?c (e_sk b)) ys))) (\<lambda>exchanged.
         bindp (if e_remote_obtain_result a
                then exchange_encrypted_keys True Net exchanged [] kECCCompareBytesLen
                else exchange_encrypted_keys True Net [] [] kECCCompareBytesLen)
           (\<lambda>own. k exchanged own)))
      (bindp (lift_res (doublely_encrypt_keys b (map (enc_key ?c (e_sk a)) xs))) (\<lambda>exchanged.
         bindp (if e_remote_obtain_result b
                then exchange_encrypted_keys False Net exchanged [] kECCCompareBytesLen
                else exchange_encrypted_keys False Net [] [] kECCCompareBytesLen)
           (\<lambda>own. l exchanged own))) u v"
    unfolding da db using same by (cases "e_obtain_result a"; cases "e_obtain_result b"; simp)
  have ea: "encrypt_keys a xs (replicate (length xs) (replicate kEccPointLen 0)) =
        Inr (map (enc_key ?c (e_sk a)) xs)"
    and eb: "encrypt_keys b ys (replicate (length ys) (replicate kEccPointLen 0)) =
        Inr (map (enc_key ?c (e_sk b)) ys)"
    by (simp_all add: encrypt_keys_result same)
  show ?thesis
    unfolding ecdh_rounds_def ea eb lift_res_simps bindp.simps
    using same(2,3) by (simp only: simp_thms if_True if_False)
      (rule joint_bindp, rule exchange_joint [OF enc pos(1)], rule second)
qed

lemma ecdh_process_rounds:
  assumes "generate_permutation draw g (length keys) = Inr (p, h)"
    and "permute_and_undo [] p True keys = Inr shuffled" and "length shuffled = length keys"
  shows "ecdh_process draw g self net keys =
    ecdh_rounds self net shuffled (\<lambda>exchanged own.
      if e_obtain_result self
      then bindp (lift_res (permute_and_undo [] p False own)) (\<lambda>unshuffled.
             lift_res (calculate_intersection (sort exchanged) unshuffled keys shuffled))
      else Ret [])"
  using assms by (simp add: ecdh_process_def ecdh_rounds_def)

lemma ecdh_cardinality_rounds:
  assumes "generate_permutation draw g (length keys) = Inr (p, h)"
    and "permute_and_undo [] p True keys = Inr shuffled" and "length shuffled = length keys"
  shows "ecdh_process_cardinality_only draw g self net keys =
    ecdh_rounds self net shuffled (\<lambda>exchanged own.
      if e_obtain_result self
      then lift_res (calculate_cardinality_only (sort exchanged) own) else Ret 0)"
  using assms by (simp add: ecdh_process_cardinality_only_def ecdh_rounds_def)

text \<open>What \<open>process\<close> leaves in \<open>output_keys\<close>, for a party whose shuffled keys were \<open>shuffled\<close>.\<close>

definition ecdh_result :: "bool \<Rightarrow> string list \<Rightarrow> string list \<Rightarrow> string list \<Rightarrow> string list" where
  "ecdh_result obtain own other shuffled =
     (if \<not> obtain then [] else if own = [] \<or> other = [] then shuffled
      else intersection own other)"

lemma ecdh_result_False: "ecdh_result False own other shuffled = []"
  by (simp add: ecdh_result_def)

lemma ecdh_compare_result:
  assumes p: "mset p = mset [0..<length own]"
    and coll: "\<And>x y. x \<in> set own \<Longrightarrow> y \<in> set other \<Longrightarrow> f x = f y \<Longrightarrow> x = y"
    and other: "mset other' = mset other" and sh: "shuffled = map ((!) own) p"
  shows "bindp (lift_res (permute_and_undo [] p False (map f shuffled))) (\<lambda>unshuffled.
           lift_res (calculate_intersection (sort (map f other')) unshuffled own shuffled)) =
         Ret (ecdh_result True own other shuffled)"
proof (cases "own = [] \<or> other = []")
  case True
  then have "sort (map f other') = [] \<or> map f own = []" using other by auto
  then have "calculate_intersection (sort (map f other')) (map f own) own shuffled = Inr shuffled"
    by (simp only: calculate_intersection_def) auto
  with True show ?thesis
    unfolding sh permute_undo_map [OF p] by (auto simp: ecdh_result_def)
next
  case False
  have mem: "f x \<in> set (sort (map f other')) \<longleftrightarrow> x \<in> set other" if "x \<in> set own" for x
    using coll [OF that] mset_eq_setD [OF other] by auto
  have "length (sort (map f other')) \<noteq> 0"
    using False mset_eq_length [OF other] by simp
  then have "sort (map f other') \<noteq> []" by (metis list.size(3))
  then have "calculate_intersection (sort (map f other')) (map f own) own shuffled =
      Inr (marked (map (\<lambda>k. k \<in> set (sort (map f other'))) (map f own)) own)"
    using False by (intro calculate_intersection_result) auto
  also have "marked (map (\<lambda>k. k \<in> set (sort (map f other'))) (map f own)) own =
      filter (\<lambda>x. f x \<in> set (sort (map f other'))) own"
    unfolding map_map comp_def by (rule marked_map_filter)
  also have "\<dots> = intersection own other"
    unfolding intersection_def using mem by (rule filter_cong [OF refl])
  finally show ?thesis
    unfolding sh permute_undo_map [OF p] using False by (simp add: ecdh_result_def)
qed

lemma no_collisionD:
  "no_collision a b xs ys \<Longrightarrow> x \<in> set xs \<Longrightarrow> y \<in> set ys \<Longrightarrow>
     shared_key a b x = shared_key a b y \<Longrightarrow> x = y"
  by (auto simp: no_collision_def list_all_iff)

lemma key_count_ok_mset: "mset xs = mset ys \<Longrightarrow> key_count_ok (length xs) = key_count_ok (length ys)"
  by (metis mset_eq_length)

lemma ecdh_process_joint:
  assumes "uniform_ok draw" and "paired a b"
    and "key_count_ok (length xs)" and "key_count_ok (length ys)" and nc: "no_collision a b xs ys"
  shows "\<exists>sa sb. mset sa = mset xs \<and> mset sb = mset ys \<and>
    joint ideal (ecdh_process draw g a Net xs) (ecdh_process draw h b Net ys)
      (ecdh_result (e_obtain_result a) xs ys sa) (ecdh_result (e_obtain_result b) ys xs sb)"
proof -
  obtain p g' where p: "generate_permutation draw g (length xs) = Inr (p, g')"
      "mset p = mset [0..<length xs]"
    using generate_permutation_perm [OF assms(1)] by blast
  obtain q h' where q: "generate_permutation draw h (length ys) = Inr (q, h')"
      "mset q = mset [0..<length ys]"
    using generate_permutation_perm [OF assms(1)] by blast
  define sa where "sa = map ((!) xs) p"
  define sb where "sb = map ((!) ys) q"
  have sa: "mset sa = mset xs" and sb: "mset sb = mset ys"
    unfolding sa_def sb_def by (rule mset_map_nth_perm, rule p q)+
  have la: "length sa = length xs" and lb: "length sb = length ys"
    using sa sb mset_eq_length by blast+
  have A: "ecdh_process draw g a Net xs = ecdh_rounds a Net sa (\<lambda>exchanged own.
      if e_obtain_result a
      then bindp (lift_res (permute_and_undo [] p False own)) (\<lambda>unshuffled.
             lift_res (calculate_intersection (sort exchanged) unshuffled xs sa))
      else Ret [])"
    by (rule ecdh_process_rounds [OF p(1) permute_perm [OF p(2), folded sa_def] la])
  have B: "ecdh_process draw h b Net ys = ecdh_rounds b Net sb (\<lambda>exchanged own.
      if e_obtain_result b
      then bindp (lift_res (permute_and_undo [] q False own)) (\<lambda>unshuffled.
             lift_res (calculate_intersection (sort exchanged) unshuffled ys sb))
      else Ret [])"
    by (rule ecdh_process_rounds [OF q(1) permute_perm [OF q(2), folded sb_def] lb])
  have ra: "bindp (lift_res (permute_and_undo [] p False (map (shared_key a b) sa))) (\<lambda>unshuffled.
             lift_res (calculate_intersection (sort (map (shared_key a b) sb)) unshuffled xs sa)) =
      Ret (ecdh_result True xs ys sa)"
    using no_collisionD [OF nc] by (intro ecdh_compare_result p(2) sb sa_def)
  have rb: "bindp (lift_res (permute_and_undo [] q False (map (shared_key a b) sb))) (\<lambda>unshuffled.
             lift_res (calculate_intersection (sort (map (shared_key a b) sa)) unshuffled ys sb)) =
      Ret (ecdh_result True ys xs sb)"
    using no_collisionD [OF nc] by (intro ecdh_compare_result q(2) sa sb_def) metis
  have "joint ideal (ecdh_process draw g a Net xs) (ecdh_process draw h b Net ys)
      (ecdh_result (e_obtain_result a) xs ys sa) (ecdh_result (e_obtain_result b) ys xs sb)"
    unfolding A B
  proof (rule ecdh_rounds_joint [OF assms(2)])
    show "key_count_ok (length sa)" "key_count_ok (length sb)"
      using assms(3,4) la lb by simp_all
  qed (cases "e_obtain_result a"; cases "e_obtain_result b";
       simp only: if_True if_False simp_thms ra rb ecdh_result_False joint_Ret)
  with sa sb show ?thesis by blast
qed

lemma ecdh_cardinality_joint:
  assumes "uniform_ok draw" and "paired a b"
    and "key_count_ok (length xs)" and "key_count_ok (length ys)" and nc: "no_collision a b xs ys"
  shows "joint ideal (ecdh_process_cardinality_only draw g a Net xs)
      (ecdh_process_cardinality_only draw h b Net ys)
      (if e_obtain_result a then length (intersection xs ys) else 0)
      (if e_obtain_result b then length (intersection ys xs) else 0)"
proof -
  obtain p g' where p: "generate_permutation draw g (length xs) = Inr (p, g')"
      "mset p = mset [0..<length xs]"
    using generate_permutation_perm [OF assms(1)] by blast
  obtain q h' where q: "generate_permutation draw h (length ys) = Inr (q, h')"
      "mset q = mset [0..<length ys]"
    using generate_permutation_perm [OF assms(1)] by blast
  define sa where "sa = map ((!) xs) p"
  define sb where "sb = map ((!) ys) q"
  have sa: "mset sa = mset xs" and sb: "mset sb = mset ys"
    unfolding sa_def sb_def by (rule mset_map_nth_perm, rule p q)+
  have la: "length sa = length xs" and lb: "length sb = length ys"
    using sa sb mset_eq_length by blast+
  have A: "ecdh_process_cardinality_only draw g a Net xs = ecdh_rounds a Net sa (\<lambda>exchanged own.
      if e_obtain_result a then lift_res (calculate_cardinality_only (sort exchanged) own) else Ret 0)"
    by (rule ecdh_cardinality_rounds [OF p(1) permute_perm [OF p(2), folded sa_def] la])
  have B: "ecdh_process_cardinality_only draw h b Net ys = ecdh_rounds b Net sb (\<lambda>exchanged own.
      if e_obtain_result b then lift_res (calculate_cardinality_only (sort exchanged) own) else Ret 0)"
    by (rule ecdh_cardinality_rounds [OF q(1) permute_perm [OF q(2), folded sb_def] lb])
  let ?f = "shared_key a b"
  have card: "length (filter (\<lambda>k. k \<in> set (sort (map ?f vs))) (map ?f us)) = length (intersection own other)"
    if "mset us = mset own" "mset vs = mset other"
      and inj: "\<And>x y. x \<in> set own \<Longrightarrow> y \<in> set other \<Longrightarrow> ?f x = ?f y \<Longrightarrow> x = y"
    for us vs own other
  proof -
    have su: "set us = set own" and sv: "set vs = set other"
      using that(1,2) mset_eq_setD by blast+
    have "filter (\<lambda>k. k \<in> set (sort (map ?f vs))) (map ?f us) = map ?f (filter (\<lambda>x. x \<in> set other) us)"
      unfolding filter_map comp_def using inj su sv by (intro arg_cong [of _ _ "map ?f"] filter_cong) auto
    then have "length (filter (\<lambda>k. k \<in> set (sort (map ?f vs))) (map ?f us)) =
        size (mset (filter (\<lambda>x. x \<in> set other) us))"
      by (simp only: length_map size_mset)
    also have "mset (filter (\<lambda>x. x \<in> set other) us) = mset (intersection own other)"
      unfolding intersection_def mset_filter that(1) ..
    finally show ?thesis by simp
  qed
  have ca: "length (filter (\<lambda>k. k \<in> set (sort (map ?f sb))) (map ?f sa)) = length (intersection xs ys)"
    using no_collisionD [OF nc] by (intro card sa sb)
  have cb: "length (filter (\<lambda>k. k \<in> set (sort (map ?f sa))) (map ?f sb)) = length (intersection ys xs)"
    using no_collisionD [OF nc] by (intro card sa sb) metis
  show ?thesis
    unfolding A B
  proof (rule ecdh_rounds_joint [OF assms(2)])
    show "key_count_ok (length sa)" "key_count_ok (length sb)"
      using assms(3,4) la lb by simp_all
  qed (cases "e_obtain_result a"; cases "e_obtain_result b";
       simp only: if_True if_False simp_thms lift_res_simps joint_Ret ca cb
         calculate_cardinality_result [OF sorted_sort])
qed

end
