(* ===== verification/Ecdh_Properties.thy ===== *)
theory Ecdh_Properties
  imports Ecdh_Correct
begin

text \<open>
  The properties of the ECDH protocol: what two honest parties compute under every schedule,
  and how initialisation ends. A small curve
  (addition of bytes), a small configuration and a replayed generator serve the
  concrete instances.
\<close>

section \<open>Initialisation\<close>

text \<open>The entries a party's merged configuration has.\<close>

definition ecdh_configured ::
  "('j, 'd) json_lib \<Rightarrow> 'j \<Rightarrow> bool \<Rightarrow> bool \<Rightarrow> bool \<Rightarrow> int \<Rightarrow> bool" where
  "ecdh_configured js params verb sender obtain curve \<longleftrightarrow>
     (let cfg = merge_patch js (json_parse js default_config) params in
        get_bool js cfg ''common'' ''verbose'' = Inr verb \<and>
        get_bool js cfg ''common'' ''is_sender'' = Inr sender \<and>
        get_bool js cfg ''ecdh_params'' ''obtain_result'' = Inr obtain \<and>
        get_int js cfg ''ecdh_params'' ''curve_id'' = Inr curve)"

definition ecdh_object ::
  "('pt, 'sk, 'g) ec_openssl \<Rightarrow> 'g \<Rightarrow> nat \<Rightarrow> bool \<Rightarrow> bool \<Rightarrow> bool \<Rightarrow> bool \<Rightarrow> ('pt, 'sk, 'g) ecdh_psi" where
  "ecdh_object c g threads verb sender obtain remote =
     \<lparr>e_is_sender = sender, e_obtain_result = obtain, e_remote_obtain_result = remote,
      e_verbose = verb, e_ecc_cipher = c, e_sk = create_secret_key c g, e_num_threads = threads\<rparr>"

lemma ecdh_init_configured:
  assumes "ecdh_configured js params verb sender obtain curve"
  shows "ecdh_init js new_cipher g threads net params =
    bindp (check_consistency int_bytes int_of_bytes 4 (\<noteq>) show_int sender net ''ecc_curve_id'' curve)
      (\<lambda>_. bindp (lift_res (check_equal show_int ''curve_id'' curve 415)) (\<lambda>_.
           bindp (exchange_flags sender net obtain) (\<lambda>remote.
             Ret (ecdh_object (new_cipher curve) g threads verb sender obtain remote))))"
  using assms
  by (simp add: ecdh_configured_def ecdh_init_def ecdh_check_params_def ecdh_object_def Let_def
      bindp_assoc)

lemma exchange_flags_joint [joint_intros]:
  "joint ideal (exchange_flags True Net a) (exchange_flags False Net b) b a"
  unfolding joint_def exchange_flags_def
  by (auto intro!: reaches_send_a reaches_send_b reaches_recv_a_all reaches_recv_b_all
           simp: bool_codec.enc_width bool_codec.dec_enc)

lemma ecdh_init_joint:
  assumes "ecdh_configured js pa va True oa 415" and "ecdh_configured js pb vb False ob 415"
  shows "joint ideal (ecdh_init js nc ga ta Net pa) (ecdh_init js nc gb tb Net pb)
           (ecdh_object (nc 415) ga ta va True oa ob) (ecdh_object (nc 415) gb tb vb False ob oa)"
  unfolding ecdh_init_configured [OF assms(1)] ecdh_init_configured [OF assms(2)]
  by (intro joint_bindp [OF int_param.consistency_agree])
     (auto intro!: joint_intros exchange_flags_joint simp: int_range_def check_equal_def)

lemma ecdh_objects_paired:
  "ec_ok c \<Longrightarrow> paired (ecdh_object c ga ta va True oa ob) (ecdh_object c gb tb vb False ob oa)"
  by (simp add: paired_def ecdh_object_def)

section \<open>Concrete instances\<close>

type_synonym toy_point = byte

definition toy_curve :: "(toy_point, toy_point, nat) ec_openssl" where
  "toy_curve = \<lparr>create_secret_key = of_nat, hash_to_curve = (\<lambda>bs. fold (+) bs 0),
     ec_encrypt = (+), point_to_bytes = (\<lambda>p n. replicate (n - 1) 0 @ [p]),
     point_from_bytes = (\<lambda>bs n. Inr (last bs))\<rparr>"

lemma toy_curve_ok: "ec_ok toy_curve"
  by (simp add: ec_ok_def toy_curve_def defines_simps ac_simps)

definition toy_party :: "bool \<Rightarrow> bool \<Rightarrow> bool \<Rightarrow> nat \<Rightarrow> (toy_point, toy_point, nat) ecdh_psi" where
  "toy_party sender obtain remote g = ecdh_object toy_curve g 4 False sender obtain remote"

lemma toy_paired: "paired (toy_party True oa ob ga) (toy_party False ob oa gb)"
  unfolding toy_party_def by (rule ecdh_objects_paired) (rule toy_curve_ok)

text \<open>A configuration is its four entries; a patch replaces the defaults.\<close>

definition toy_json :: "(bool \<times> bool \<times> int, unit) json_lib" where
  "toy_json = \<lparr>json_parse = (\<lambda>s. (True, True, 415)), merge_patch = (\<lambda>d p. p),
     get_bool = (\<lambda>(s, ob, c) group name. Inr (if name = ''is_sender'' then s
        else if name = ''obtain_result'' then ob else False)),
     get_int = (\<lambda>(s, ob, c) group name. Inr c),
     get_size = (\<lambda>_ group name. Inl (Json_Error name)),
     get_double = (\<lambda>_ group name. Inl (Json_Error name)),
     get_string = (\<lambda>_ group name. if group = ''data'' then Inr name else Inl (Json_Error name))\<rparr>"

lemma toy_configured: "ecdh_configured toy_json (s, ob, c) False s ob c"
  by (simp add: ecdh_configured_def toy_json_def)

section \<open>What two honest parties compute\<close>

text \<open>C2: Two paired parties with non-empty inputs end, under every interleaving of their
  network operations, in the one configuration where each party that asked for the result
  holds its own keys that the peer also has, in the order it supplied them, a party that did
  not ask holds nothing, and no byte is left on the wire.\<close>

theorem ecdh_process_correct:
  assumes "uniform_ok draw" and "paired a b"
    and "key_count_ok (length xs)" and "key_count_ok (length ys)"
    and "no_collision a b xs ys" and "xs \<noteq> []" and "ys \<noteq> []"
  shows "outcomes ideal (start (ecdh_process draw g a Net xs) (ecdh_process draw h b Net ys)) =
    {Conf (Ret (if e_obtain_result a then intersection xs ys else []))
          (Ret (if e_obtain_result b then intersection ys xs else [])) [] []}"
proof -
  obtain sa sb where "joint ideal (ecdh_process draw g a Net xs) (ecdh_process draw h b Net ys)
      (ecdh_result (e_obtain_result a) xs ys sa) (ecdh_result (e_obtain_result b) ys xs sb)"
    using ecdh_process_joint [OF assms(1-5)] by blast
  from joint_outcomes [OF this] assms(6,7) show ?thesis by (simp add: ecdh_result_def)
qed

lemma toy_no_collision:
  "no_collision (toy_party True True False 3) (toy_party False False True 5)
     [''c'', ''h'', ''e''] [''b'', ''c'', ''e'', ''g'']"
  by code_simp

theorem ecdh_process_correct_witness:
  "outcomes (\<lambda>_ _. None :: (unit \<times> unit) option)
     (start (ecdh_process replay [1, 0] (toy_party True True False 3) Net [''c'', ''h'', ''e''])
            (ecdh_process replay [0, 2, 1] (toy_party False False True 5) Net
               [''b'', ''c'', ''e'', ''g''])) =
   {Conf (Ret [''c'', ''e'']) (Ret []) [] []}"
  by (subst ecdh_process_correct [OF uniform_ok_replay toy_paired _ _ toy_no_collision])
     (simp_all add: key_count_ok_def defines_simps max_bytes_def toy_party_def ecdh_object_def
        intersection_def)

text \<open>C13: In the cardinality mode each party that asked for the result returns the number of its
  keys that the peer also has, empty inputs included, and the other returns zero.\<close>

theorem ecdh_cardinality_correct:
  assumes "uniform_ok draw" and "paired a b"
    and "key_count_ok (length xs)" and "key_count_ok (length ys)" and "no_collision a b xs ys"
  shows "outcomes ideal (start (ecdh_process_cardinality_only draw g a Net xs)
                               (ecdh_process_cardinality_only draw h b Net ys)) =
    {Conf (Ret (if e_obtain_result a then length (intersection xs ys) else 0))
          (Ret (if e_obtain_result b then length (intersection ys xs) else 0)) [] []}"
  by (rule joint_outcomes, rule ecdh_cardinality_joint [OF assms])

theorem ecdh_cardinality_correct_witness:
  "outcomes (\<lambda>_ _. None :: (unit \<times> unit) option)
     (start (ecdh_process_cardinality_only replay [1, 0] (toy_party True True False 3) Net
               [''c'', ''h'', ''e''])
            (ecdh_process_cardinality_only replay [0, 2, 1] (toy_party False False True 5) Net
               [''b'', ''c'', ''e'', ''g''])) =
   {Conf (Ret 2) (Ret 0) [] []}"
  by (subst ecdh_cardinality_correct [OF uniform_ok_replay toy_paired _ _ toy_no_collision])
     (simp_all add: key_count_ok_def defines_simps max_bytes_def toy_party_def ecdh_object_def
        intersection_def)

text \<open>C38: When the peer's set is empty, a party that obtains the result is left with a permutation of
  all its own keys instead of the empty intersection: the early return of
  \<open>calculate_intersection\<close> leaves the shuffled copy in the output vector.\<close>

theorem ecdh_empty_peer_keeps_own_keys:
  assumes "uniform_ok draw" and "paired a b" and "e_obtain_result a" and "key_count_ok (length xs)"
  shows "\<exists>shuffled. mset shuffled = mset xs \<and>
    outcomes ideal (start (ecdh_process draw g a Net xs) (ecdh_process draw h b Net [])) =
      {Conf (Ret shuffled) (Ret []) [] []}"
proof -
  have "key_count_ok (length ([] :: string list))" "no_collision a b xs []"
    by (simp_all add: key_count_ok_def no_collision_def list_all_iff)
  from ecdh_process_joint [OF assms(1,2,4) this, of ideal g h] obtain sa sb where
    "mset sa = mset xs" "mset sb = mset []"
    "joint ideal (ecdh_process draw g a Net xs) (ecdh_process draw h b Net [])
      (ecdh_result (e_obtain_result a) xs [] sa) (ecdh_result (e_obtain_result b) [] xs sb)"
    by blast
  with joint_outcomes [OF this(3)] assms(3) show ?thesis
    by (intro exI [of _ sa]) (simp add: ecdh_result_def)
qed

theorem ecdh_empty_peer_keeps_own_keys_witness:
  "\<exists>shuffled. mset shuffled = mset [''c'', ''h''] \<and>
    outcomes (\<lambda>_ _. None :: (unit \<times> unit) option)
      (start (ecdh_process replay [0] (toy_party True True False 3) Net [''c'', ''h''])
             (ecdh_process replay [] (toy_party False False True 5) Net [])) =
      {Conf (Ret shuffled) (Ret []) [] []}"
  by (rule ecdh_empty_peer_keeps_own_keys [OF uniform_ok_replay toy_paired])
     (simp_all add: toy_party_def ecdh_object_def key_count_ok_def defines_simps max_bytes_def)

section \<open>Initialisation of the two parties\<close>

text \<open>C24: Two parties configured as sender and receiver on the supported curve finish
  initialisation as a matched pair: same curve, each knowing the other's result flag.\<close>

theorem ecdh_init_agrees:
  assumes "ecdh_configured js pa va True oa 415" and "ecdh_configured js pb vb False ob 415"
    and "ec_ok (nc 415)"
  shows "\<exists>a b. outcomes ideal (start (ecdh_init js nc ga ta Net pa) (ecdh_init js nc gb tb Net pb)) =
      {Conf (Ret a) (Ret b) [] []} \<and> paired a b \<and> e_obtain_result a = oa \<and> e_obtain_result b = ob"
  by (intro exI conjI, rule joint_outcomes [OF ecdh_init_joint [OF assms(1,2)]],
      rule ecdh_objects_paired [OF assms(3)]) (simp_all add: ecdh_object_def)

theorem ecdh_init_agrees_witness:
  "\<exists>a b. outcomes (\<lambda>_ _. None :: (unit \<times> unit) option)
        (start (ecdh_init toy_json (\<lambda>_. toy_curve) 3 4 Net (True, True, 415))
               (ecdh_init toy_json (\<lambda>_. toy_curve) 5 4 Net (False, False, 415))) =
      {Conf (Ret a) (Ret b) [] []} \<and> paired a b \<and> e_obtain_result a = True \<and>
      e_obtain_result b = False"
  by (rule ecdh_init_agrees [OF toy_configured toy_configured toy_curve_ok])

text \<open>Parties configured with different curves both fail initialisation, each with the
  disagreement that names its own value and the peer's.\<close>

lemma ecdh_init_disagrees:
  assumes "ecdh_configured js pa va True oa ca" and "ecdh_configured js pb vb False ob cb"
    and "int_range ca" and "int_range cb" and "ca \<noteq> cb"
  shows "outcomes ideal (start (ecdh_init js nc ga ta Net pa) (ecdh_init js nc gb tb Net pb)) =
    {Conf (Throw (disagreement show_int ''ecc_curve_id'' ca cb))
          (Throw (disagreement show_int ''ecc_curve_id'' cb ca)) [] []}"
  unfolding start_def ecdh_init_configured [OF assms(1)] ecdh_init_configured [OF assms(2)]
  by (rule outcomes_eqI, rule reaches_seq [OF int_param.consistency_disagree]) (simp_all add: assms)

text \<open>Parties that agree on any other curve than 415 both refuse it.\<close>

lemma ecdh_init_unsupported_curve:
  assumes "ecdh_configured js pa va True oa c" and "ecdh_configured js pb vb False ob c"
    and "int_range c" and "c \<noteq> 415"
  shows "outcomes ideal (start (ecdh_init js nc ga ta Net pa) (ecdh_init js nc gb tb Net pb)) =
    {Conf (Throw (Invalid_Argument (''Check equal failed.curve_id('' @ show_int c @
             '') is not equal to expected value ('' @ show_int 415 @ '').'')))
          (Throw (Invalid_Argument (''Check equal failed.curve_id('' @ show_int c @
             '') is not equal to expected value ('' @ show_int 415 @ '').''))) [] []}"
  unfolding start_def ecdh_init_configured [OF assms(1)] ecdh_init_configured [OF assms(2)]
  by (rule outcomes_eqI, rule joint_reaches_seq [OF int_param.consistency_agree])
     (simp_all add: assms check_equal_def)

end
