(* ===== verification/Crypto_Libs.thy ===== *)
theory Crypto_Libs
  imports Permutations Interaction
begin

text \<open>
  The cryptographic libraries under the OPRF-based protocols, as parameters: the two-party
  functions of PETAce-Verse (oblivious transfer) and PETAce-Duet (computation on shares), the
  generators and the hash tables of PETAce-Solo.
\<close>

section \<open>Two-party functions\<close>

text \<open>A matrix of shares, row by row.\<close>

type_synonym matrix = "64 word list list"

text \<open>
  The requests of the two parties to PETAce-Verse and PETAce-Duet and their answers: the base
  transfers, the OPRF that gives the sender an encoder and the receiver its masks, the
  construction of the two-party computation for a party number, its equality test on two
  shared matrices and its multiplexer of a matrix of shared bits and a shared matrix.
\<close>

datatype verse_request =
    Base_Ot_Receive "block list"
  | Base_Ot_Send
  | Nco_Ot_Send "block list" "block list" nat
  | Nco_Ot_Receive "(block \<times> block) list" "block list"
  | Duet_Setup nat
  | Duet_Equal matrix matrix
  | Duet_Multiplexer matrix matrix

datatype verse_answer =
    Base_Ot_Received "block list"
  | Base_Ot_Sent "(block \<times> block) list"
  | Nco_Ot_Encoder "nat \<Rightarrow> block \<Rightarrow> block"
  | Nco_Ot_Masks "block list"
  | Duet_Ready
  | Duet_Shares matrix

type_synonym 'a verse_proc = "(verse_request, verse_answer, 'a) proc"

section \<open>Generators and hash tables\<close>

record 'r prng_lib =
  prng_create :: "byte list \<Rightarrow> 'r"
  prng_generate :: "'r \<Rightarrow> nat \<Rightarrow> byte list \<times> 'r"
  prng_standard :: "'r uniform"

text \<open>
  The accessors of \<open>SimpleHashing\<close> and \<open>CuckooHashing\<close> after \<open>map_elements\<close>, as functions
  of the number of bins, the seed, the number of hash functions and the inserted keys;
  \<open>element_addresses\<close> lists the bins of every inserted key under each function in turn.
\<close>

record hash_lib =
  sha_256 :: "byte list \<Rightarrow> nat \<Rightarrow> byte list"
  bin_entry_values :: "nat \<Rightarrow> byte list \<Rightarrow> nat \<Rightarrow> item list \<Rightarrow> item list list"
  bin_entry_function_ids :: "nat \<Rightarrow> byte list \<Rightarrow> nat \<Rightarrow> item list \<Rightarrow> nat list list"
  cuckoo_stash_size :: "nat \<Rightarrow> byte list \<Rightarrow> nat \<Rightarrow> item list \<Rightarrow> nat"
  cuckoo_values :: "nat \<Rightarrow> byte list \<Rightarrow> nat \<Rightarrow> item list \<Rightarrow> item list"
  cuckoo_ids :: "nat \<Rightarrow> byte list \<Rightarrow> nat \<Rightarrow> item list \<Rightarrow> nat list"
  cuckoo_function_ids :: "nat \<Rightarrow> byte list \<Rightarrow> nat \<Rightarrow> item list \<Rightarrow> nat list"
  cuckoo_occupancy :: "nat \<Rightarrow> byte list \<Rightarrow> nat \<Rightarrow> item list \<Rightarrow> bool list"
  cuckoo_source_values :: "nat \<Rightarrow> byte list \<Rightarrow> nat \<Rightarrow> item list \<Rightarrow> item list"
  element_addresses :: "nat \<Rightarrow> byte list \<Rightarrow> nat \<Rightarrow> item list \<Rightarrow> nat list"

text \<open>
  The values a table holds are the keys with the number of the hash function that placed them
  mixed into the first byte, as \<open>pjc/circuit_psi.cpp\<close> does when it looks a value up.
\<close>

definition keys_xor_fun :: "nat \<Rightarrow> item \<Rightarrow> item" where
  "keys_xor_fun j key = key[0 := key ! 0 XOR of_nat j]"

end
