(* ===== verification/Double.thy ===== *)
theory Double
  imports Complex_Main Parameter_Check
begin

text \<open>
  The IEEE binary64 arithmetic behind the sizing of the hash tables:
  \<open>static_cast<std::size_t>(std::ceil(static_cast<double>(n) * epsilon))\<close> in
  \<open>psi/kkrt_psi.cpp\<close> and \<open>pjc/circuit_psi.cpp\<close>. A \<open>double\<close> is its 64-bit pattern; a
  decoded value is a sign, a mantissa and a power of two, and the conversion from
  \<open>std::size_t\<close> and the product round to the nearest value, ties to even.
\<close>

section \<open>Values\<close>

type_synonym double = "64 word"

datatype dval = NaN | Inf bool | Fin bool nat int

definition decode :: "double \<Rightarrow> dval" where
  "decode w =
     (let neg = bit w 63; expo = unat (drop_bit 52 w AND 0x7FF); mant = unat (w AND 0xFFFFFFFFFFFFF) in
      if expo = 0x7FF then if mant = 0 then Inf neg else NaN
      else if expo = 0 then Fin neg mant (- 1074)
      else Fin neg (mant + 2 ^ 52) (int expo - 1075))"

text \<open>\<open>w != v\<close>: a NaN differs from everything, the two zeros are equal.\<close>

definition double_ne :: "double \<Rightarrow> double \<Rightarrow> bool" where
  "double_ne w v =
     (case (decode w, decode v) of
        (NaN, _) \<Rightarrow> True
      | (_, NaN) \<Rightarrow> True
      | (Fin _ 0 _, Fin _ 0 _) \<Rightarrow> False
      | _ \<Rightarrow> w \<noteq> v)"

section \<open>Rounding\<close>

fun bit_length :: "nat \<Rightarrow> nat" where
  "bit_length n = (if n = 0 then 0 else Suc (bit_length (n div 2)))"

declare bit_length.simps [simp del]

text \<open>\<open>m / d\<close> to the nearest integer, ties to even.\<close>

definition round_half_even :: "nat \<Rightarrow> nat \<Rightarrow> nat" where
  "round_half_even m d =
     (let q = m div d; r = m mod d in
      if 2 * r < d \<or> (2 * r = d \<and> even q) then q else q + 1)"

text \<open>\<open>m * 2 ^ e\<close> to 53 bits, exponents below the subnormal range cut, too large to infinity.\<close>

definition round_double :: "bool \<Rightarrow> nat \<Rightarrow> int \<Rightarrow> dval" where
  "round_double neg m e =
     (let k = max (int (bit_length m) - 53) (- 1074 - e);
          m' = (if k \<le> 0 then m else round_half_even m (2 ^ nat k));
          e' = (if k \<le> 0 then e else e + k)
      in if 1024 < int (bit_length m') + e' then Inf neg else Fin neg m' e')"

definition double_of_size :: "nat \<Rightarrow> dval" where
  "double_of_size n = round_double False n 0"

fun dmul :: "dval \<Rightarrow> dval \<Rightarrow> dval" where
  "dmul (Fin s m e) (Fin t n f) = round_double (s \<noteq> t) (m * n) (e + f)"
| "dmul (Inf s) (Fin t n f) = (if n = 0 then NaN else Inf (s \<noteq> t))"
| "dmul (Fin s m e) (Inf t) = (if m = 0 then NaN else Inf (s \<noteq> t))"
| "dmul (Inf s) (Inf t) = Inf (s \<noteq> t)"
| "dmul _ _ = NaN"

text \<open>The integer \<open>std::ceil\<close> yields, when there is one.\<close>

fun dceil :: "dval \<Rightarrow> int option" where
  "dceil (Fin neg m e) =
     Some (if 0 \<le> e then (if neg then - 1 else 1) * int m * 2 ^ nat e
           else if neg then - (int m div 2 ^ nat (- e))
           else (int m + 2 ^ nat (- e) - 1) div 2 ^ nat (- e))"
| "dceil _ = None"

text \<open>A conversion to \<open>std::size_t\<close> whose value does not fit is undefined.\<close>

definition size_of_ceil :: "dval \<Rightarrow> nat res" where
  "size_of_ceil d =
     (case dceil d of
        None \<Rightarrow> Inl (Undefined_Behaviour ''double to size_t'')
      | Some i \<Rightarrow> if 0 \<le> i \<and> i < 2 ^ 64 then Inr (nat i)
                  else Inl (Undefined_Behaviour ''double to size_t''))"

definition bins_for :: "nat \<Rightarrow> double \<Rightarrow> nat res" where
  "bins_for n epsilon = size_of_ceil (dmul (double_of_size n) (decode epsilon))"

section \<open>std::to_string\<close>

definition pad_left :: "nat \<Rightarrow> string \<Rightarrow> string" where
  "pad_left n s = replicate (n - length s) (CHR ''0'') @ s"

definition show_double :: "double \<Rightarrow> string" where
  "show_double w =
     (case decode w of
        NaN \<Rightarrow> (if bit w 63 then ''-nan'' else ''nan'')
      | Inf neg \<Rightarrow> (if neg then ''-inf'' else ''inf'')
      | Fin neg m e \<Rightarrow>
          (let u = (if 0 \<le> e then m * 10 ^ 6 * 2 ^ nat e
                    else round_half_even (m * 10 ^ 6) (2 ^ nat (- e)))
           in (if neg then ''-'' else []) @ show_nat (u div 10 ^ 6) @ ''.'' @
              pad_left 6 (show_nat (u mod 10 ^ 6))))"

section \<open>The parameter contract\<close>

lemma double_ne_sym: "double_ne w v = double_ne v w"
  by (auto simp: double_ne_def split: dval.splits nat.splits)

interpretation double_param:
  agreed_parameter u64_bytes u64_of 8 "\<lambda>_. True" double_ne show_double
  by unfold_locales (rule double_ne_sym)

section \<open>The number of bins\<close>

lemma bit_length_bounds: "0 < n \<Longrightarrow> 2 ^ (bit_length n - 1) \<le> n \<and> n < 2 ^ bit_length n"
proof (induction n rule: bit_length.induct)
  case (1 n)
  show ?case
  proof (cases "n div 2 = 0")
    case True
    with 1 have "n = 1" by simp
    then show ?thesis by (simp add: bit_length.simps)
  next
    case False
    with 1 have b: "2 ^ (bit_length (n div 2) - 1) \<le> n div 2" "n div 2 < 2 ^ bit_length (n div 2)"
      and l: "bit_length n = Suc (bit_length (n div 2))" by (simp_all add: bit_length.simps [of n])
    have pos: "0 < bit_length (n div 2)" using False by (simp add: bit_length.simps [of "n div 2"])
    define p where "p = (2::nat) ^ (bit_length (n div 2) - 1)"
    have "2 ^ bit_length (n div 2) = 2 * p"
      using pos by (metis Suc_diff_1 power_Suc p_def)
    with b have "p \<le> n div 2" "n div 2 < 2 * p" by (simp_all only: p_def)
    then have "2 * p \<le> n" "n < 4 * p" by arith+
    moreover have "2 ^ (bit_length n - 1) = 2 * p" "2 ^ bit_length n = 4 * p"
      using l \<open>2 ^ bit_length (n div 2) = 2 * p\<close> by simp_all
    ultimately show ?thesis by simp
  qed
qed

lemma round_half_even_ge: "0 < d \<Longrightarrow> c * d \<le> m \<Longrightarrow> c \<le> round_half_even m d"
  by (auto simp: round_half_even_def Let_def intro: le_SucI
      dest: div_le_mono [of _ _ d])

text \<open>Rounding does not fall below an integer of at most 53 bits.\<close>

definition at_least :: "nat \<Rightarrow> int \<Rightarrow> nat \<Rightarrow> bool" where
  "at_least m e n \<longleftrightarrow> (if 0 \<le> e then n \<le> m * 2 ^ nat e else n * 2 ^ nat (- e) \<le> m)"

lemma at_least_real: "at_least m e n \<longleftrightarrow> real n \<le> real m * 2 powi e"
proof (cases "0 \<le> e")
  case True
  have "n \<le> m * 2 ^ nat e \<longleftrightarrow> real n \<le> real (m * 2 ^ nat e)" by (rule of_nat_le_iff [symmetric])
  with True show ?thesis by (simp add: at_least_def power_int_def)
next
  case False
  have "n * 2 ^ nat (- e) \<le> m \<longleftrightarrow> real (n * 2 ^ nat (- e)) \<le> real m"
    by (rule of_nat_le_iff [symmetric])
  with False show ?thesis
    by (simp add: at_least_def power_int_def power_inverse [symmetric] field_simps)
qed

lemma at_least_mult: "at_least p f n \<Longrightarrow> at_least m e 1 \<Longrightarrow> at_least (p * m) (f + e) n"
proof -
  assume "at_least p f n" "at_least m e 1"
  then have "real n * 1 \<le> (real p * 2 powi f) * (real m * 2 powi e)"
    unfolding at_least_real by (intro mult_mono) simp_all
  then show ?thesis by (simp add: at_least_real power_int_add mult_ac)
qed

lemma round_double_at_least:
  assumes "at_least m e n" and "n \<le> 2 ^ 53" and "round_double neg m e = Fin s m' e'"
  shows "at_least m' e' n"
proof -
  define k where "k = max (int (bit_length m) - 53) (- 1074 - e)"
  show ?thesis
  proof (cases "k \<le> 0")
    case True
    with assms(3) have "m' = m" "e' = e"
      by (auto simp: round_double_def Let_def k_def [symmetric] split: if_splits)
    with assms(1) show ?thesis by simp
  next
    case False
    with assms(3) have m': "m' = round_half_even m (2 ^ nat k)" and e': "e' = e + k"
      by (auto simp: round_double_def Let_def k_def [symmetric] split: if_splits)
    show ?thesis
    proof (cases "e + k \<le> 0")
      case True
      then have "e < 0" using False by simp
      have "nat (- e) = nat (- (e + k)) + nat k" using True False by simp
      then have "n * 2 ^ nat (- (e + k)) * 2 ^ nat k \<le> m"
        using assms(1) \<open>e < 0\<close> by (simp add: at_least_def power_add mult.assoc)
      then have "n * 2 ^ nat (- (e + k)) \<le> m'" unfolding m' by (intro round_half_even_ge) simp_all
      with True show ?thesis unfolding e' at_least_def by (cases "e + k = 0") auto
    next
      case big: False
      then have k: "k = int (bit_length m) - 53" by (simp add: k_def max_def split: if_splits)
      with False have l: "53 < bit_length m" by simp
      then have "0 < m" by (cases m) (simp_all add: bit_length.simps)
      then have "2 ^ (bit_length m - 1) \<le> m" using bit_length_bounds by blast
      moreover have "bit_length m - 1 = 52 + nat k" using k l by simp
      ultimately have "2 ^ 52 * 2 ^ nat k \<le> m" by (simp only: power_add)
      then have "2 ^ 52 \<le> m'" unfolding m' by (intro round_half_even_ge) simp_all
      moreover have "(2::nat) ^ 1 \<le> 2 ^ nat (e + k)" using big by (intro power_increasing) simp_all
      ultimately have "2 ^ 52 * 2 ^ 1 \<le> m' * 2 ^ nat (e + k)" by (intro mult_le_mono)
      with assms(2) big show ?thesis by (simp add: e' at_least_def)
    qed
  qed
qed

lemma dceil_at_least: "at_least m e n \<Longrightarrow> dceil (Fin False m e) = Some i \<Longrightarrow> int n \<le> i"
proof (cases "0 \<le> e")
  case True
  assume "at_least m e n" "dceil (Fin False m e) = Some i"
  with True have "int n \<le> int (m * 2 ^ nat e)" "i = int m * 2 ^ nat e"
    by (simp_all add: at_least_def del: of_nat_mult)
  then show ?thesis by simp
next
  case False
  let ?d = "2 ^ nat (- e) :: int"
  assume a: "at_least m e n" and i: "dceil (Fin False m e) = Some i"
  from a False have "int (n * 2 ^ nat (- e)) \<le> int m" by (simp add: at_least_def del: of_nat_mult)
  then have "int n * ?d \<le> int m" by simp
  moreover have "1 \<le> ?d" by simp
  ultimately have "int n * ?d \<le> int m + ?d - 1" by linarith
  then have "int n * ?d div ?d \<le> (int m + ?d - 1) div ?d" by (rule zdiv_mono1) simp
  then have "int n \<le> (int m + ?d - 1) div ?d" by simp
  with i False show ?thesis by simp
qed

text \<open>C35: With a finite expansion factor of at least one and at most \<open>2 ^ 53\<close> keys, the hash table
  has at least one bin per key, whatever the rounding of the conversion and of the product.\<close>

theorem bins_for_at_least:
  assumes "decode epsilon = Fin False m e" and "at_least m e 1" and "n \<le> 2 ^ 53"
    and "bins_for n epsilon = Inr b"
  shows "n \<le> b"
proof (cases "double_of_size n")
  case (Fin s p f)
  have "at_least n 0 n" by (simp add: at_least_def)
  from round_double_at_least [OF this assms(3) Fin [unfolded double_of_size_def]]
  have n: "at_least p f n" .
  have "s = False" using Fin by (auto simp: double_of_size_def round_double_def Let_def split: if_splits)
  show ?thesis
  proof (cases "round_double False (p * m) (f + e)")
    case (Fin t q g)
    have "at_least (p * m) (f + e) n" using n assms(2) by (rule at_least_mult)
    then have "at_least q g n" using assms(3) Fin by (rule round_double_at_least)
    moreover have "t = False" using Fin by (auto simp: round_double_def Let_def split: if_splits)
    ultimately show ?thesis
      using dceil_at_least [of q g n] assms(1,4) Fin \<open>double_of_size n = Fin s p f\<close> \<open>s = False\<close>
      by (auto simp: bins_for_def size_of_ceil_def split: if_splits option.splits
          simp del: dceil.simps)
  qed (use assms(1,4) Fin \<open>s = False\<close> in \<open>auto simp: bins_for_def size_of_ceil_def\<close>)
qed (use assms(1,4) in \<open>auto simp: bins_for_def size_of_ceil_def double_of_size_def
      round_double_def Let_def split: if_splits\<close>)

lemmas double_eval =
  decode_def round_double_def round_half_even_def bit_length.simps double_of_size_def

theorem bins_for_at_least_witness:
  "bins_for 100 0x3ff451eb851eb852 = Inr 127 \<and> (100::nat) \<le> 127"
proof
  have d: "decode 0x3ff451eb851eb852 = Fin False 5719571526760530 (- 52)"
    by (simp add: decode_def)
  show b: "bins_for 100 0x3ff451eb851eb852 = Inr 127"
    unfolding bins_for_def d by (simp add: double_eval size_of_ceil_def)
  show "(100::nat) \<le> 127"
    by (rule bins_for_at_least [OF d _ _ b]) (simp_all add: at_least_def)
qed

end
