(* ===== verification/Serialize.thy ===== *)
theory Serialize
  imports Prelude
begin

text \<open>
  \<open>util/serialize.h\<close>: a list of strings as NUL-terminated runs of characters, and back. The
  inverse rests on a sentinel, so an embedded NUL splits a string and a missing terminator
  reads past the end; its \<open>int size\<close> bounds the length of one string.
\<close>

abbreviation nul :: char where "nul \<equiv> CHR 0x00"

definition int_max :: nat where "int_max = 2 ^ 31 - 1"

definition serialize_string_to_char :: "string list \<Rightarrow> string \<Rightarrow> string" where
  "serialize_string_to_char input output =
     fold (\<lambda>str out. fold (\<lambda>c out. out @ [c]) str out @ [nul]) input output"

text \<open>\<open>while (input[i++]) size += 1;\<close>: the index after the loop and the size.\<close>

function scan_string :: "string \<Rightarrow> nat \<Rightarrow> nat \<Rightarrow> (nat \<times> nat) res" where
  "scan_string input i sz =
     (if length input \<le> i then Inl (Undefined_Behaviour ''vector read'')
      else if input ! i = nul then Inr (i + 1, sz)
      else if sz = int_max then Inl (Undefined_Behaviour ''int overflow'')
      else scan_string input (i + 1) (sz + 1))"
  by pat_completeness auto
termination by (relation "measure (\<lambda>(input, i, sz). length input - i)") auto

declare scan_string.simps [simp del]

lemma scan_string_progress: "scan_string input i sz = Inr (j, n) \<Longrightarrow> i < j \<and> j \<le> length input"
  by (induction input i sz rule: scan_string.induct)
     (subst (asm) scan_string.simps, fastforce split: if_splits)

function deserialize_from :: "string \<Rightarrow> nat \<Rightarrow> string list \<Rightarrow> string list res" where
  "deserialize_from input i output =
     (if length input \<le> i then Inr output
      else (case scan_string input i 0 of
              Inl e \<Rightarrow> Inl e
            | Inr (j, sz) \<Rightarrow>
                deserialize_from input j (output @ [take sz (drop i input)])))"
  by pat_completeness auto
termination
  by (relation "measure (\<lambda>(input, i, output). length input - i)")
     (auto dest!: scan_string_progress)

declare deserialize_from.simps [simp del]

definition deserialize_string_from_char :: "string \<Rightarrow> string list \<Rightarrow> string list res" where
  "deserialize_string_from_char input output = deserialize_from input 0 output"

section \<open>Round trip\<close>

lemma serialize_concat:
  "serialize_string_to_char input out = out @ concat (map (\<lambda>s. s @ [nul]) input)"
proof -
  have "fold (\<lambda>c out. out @ [c]) s o' = o' @ s" for s :: string and o'
    by (induction s arbitrary: o') simp_all
  then show ?thesis
    unfolding serialize_string_to_char_def by (induction input arbitrary: out) simp_all
qed

lemma scan_string_run:
  assumes "nul \<notin> set w" and "n + length w \<le> int_max"
  shows "scan_string (pre @ w @ nul # rest) (length pre) n =
           Inr (length pre + length w + 1, n + length w)"
  using assms
proof (induction w arbitrary: pre n)
  case Nil
  then show ?case by (subst scan_string.simps) (simp add: nth_append)
next
  case (Cons c w)
  have "scan_string ((pre @ [c]) @ w @ nul # rest) (length (pre @ [c])) (n + 1) =
      Inr (length (pre @ [c]) + length w + 1, n + 1 + length w)"
    using Cons.prems by (intro Cons.IH) simp_all
  with Cons.prems show ?case by (subst scan_string.simps) (auto simp: nth_append)
qed

text \<open>A run without NUL that is too long for an \<open>int\<close>, or that nothing follows.\<close>

lemma scan_string_fails:
  assumes "nul \<notin> set w" and "n \<le> int_max" and "int_max < n + length w \<or> rest = []"
  shows "\<exists>m. scan_string (pre @ w @ rest) (length pre) n = Inl (Undefined_Behaviour m)"
  using assms
proof (induction w arbitrary: pre n)
  case Nil
  then show ?case by (subst scan_string.simps) simp
next
  case (Cons c w)
  show ?case
  proof (cases "n = int_max")
    case False
    with Cons.prems have "\<exists>m. scan_string ((pre @ [c]) @ w @ rest) (length (pre @ [c])) (n + 1) =
        Inl (Undefined_Behaviour m)"
      by (intro Cons.IH) auto
    with False Cons.prems(1) show ?thesis by (subst scan_string.simps) (auto simp: nth_append)
  qed (use Cons.prems(1) in \<open>subst scan_string.simps, auto simp: nth_append\<close>)
qed

text \<open>The terminated strings \<open>ws\<close> and what follows the last NUL.\<close>

lemma deserialize_pieces:
  assumes "\<forall>w\<in>set ws. nul \<notin> set w" and "nul \<notin> set t"
  defines "s \<equiv> concat (map (\<lambda>w. w @ [nul]) ws) @ t"
  shows "if (\<forall>w\<in>set ws. length w \<le> int_max) \<and> t = []
    then deserialize_from (pre @ s) (length pre) out = Inr (out @ ws)
    else \<exists>m. deserialize_from (pre @ s) (length pre) out = Inl (Undefined_Behaviour m)"
  using assms(1) unfolding s_def
proof (induction ws arbitrary: pre out)
  case Nil
  show ?case
  proof (cases "t = []")
    case False
    with scan_string_fails [OF assms(2), of 0 "[]" pre] show ?thesis
      by (subst deserialize_from.simps) auto
  qed (subst deserialize_from.simps, simp)
next
  case (Cons w ws)
  let ?rest = "concat (map (\<lambda>w. w @ [nul]) ws) @ t"
  show ?case
  proof (cases "length w \<le> int_max")
    case True
    have "scan_string (pre @ w @ nul # ?rest) (length pre) 0 = Inr (length pre + length w + 1, length w)"
      using scan_string_run [of w 0 pre ?rest] Cons.prems True by simp
    then have "deserialize_from (pre @ w @ nul # ?rest) (length pre) out =
        deserialize_from (pre @ w @ nul # ?rest) (length pre + length w + 1) (out @ [w])"
      by (subst deserialize_from.simps) simp
    with Cons.IH [of "pre @ w @ [nul]" "out @ [w]"] Cons.prems True show ?thesis
      by (cases "(\<forall>w\<in>set ws. length w \<le> int_max) \<and> t = []") (auto simp: add.assoc)
  next
    case False
    then have "\<exists>m. scan_string (pre @ w @ nul # ?rest) (length pre) 0 = Inl (Undefined_Behaviour m)"
      using Cons.prems by (intro scan_string_fails) auto
    with False show ?thesis by (subst deserialize_from.simps) auto
  qed
qed

lemma deserialize_serialize:
  assumes "\<forall>w\<in>set ws. nul \<notin> set w \<and> length w \<le> int_max"
  shows "deserialize_string_from_char (serialize_string_to_char ws []) out = Inr (out @ ws)"
  using deserialize_pieces [of ws "[]" "[]" out] assms
  by (simp add: deserialize_string_from_char_def serialize_concat)

section \<open>Any buffer\<close>

text \<open>The pieces of a text between its NUL characters.\<close>

fun split_nul :: "string \<Rightarrow> string list" where
  "split_nul [] = [[]]"
| "split_nul (c # cs) =
     (if c = nul then [] # split_nul cs
      else (case split_nul cs of w # ws \<Rightarrow> (c # w) # ws | [] \<Rightarrow> [[c]]))"

lemma split_nul_join: "concat (map (\<lambda>s. s @ [nul]) (split_nul s)) = s @ [nul]"
  by (induction s) (auto split: list.splits)

lemma split_nul_parts:
  "w \<in> set (split_nul s) \<Longrightarrow> nul \<notin> set w \<and> length w \<le> length s"
  by (induction s arbitrary: w) (fastforce split: list.splits if_splits)+

lemma split_nul_nonempty: "split_nul s \<noteq> []"
  by (induction s) (auto split: list.splits)

lemma split_nul_snoc:
  "split_nul (s @ [c]) =
     (if c = nul then split_nul s @ [[]] else butlast (split_nul s) @ [last (split_nul s) @ [c]])"
proof (induction s)
  case (Cons d s)
  then show ?case using split_nul_nonempty [of s] by (cases "split_nul s") auto
qed simp

lemma split_nul_concat: "concat (map (\<lambda>w. w @ [nul]) (butlast (split_nul s))) @ last (split_nul s) = s"
proof -
  have "concat (map (\<lambda>w. w @ [nul]) (butlast (split_nul s) @ [last (split_nul s)])) = s @ [nul]"
    by (simp only: append_butlast_last_id [OF split_nul_nonempty] split_nul_join)
  then show ?thesis by simp
qed

text \<open>A buffer of terminated strings, none of which is too long for an \<open>int\<close>.\<close>

definition terminated :: "string \<Rightarrow> bool" where
  "terminated s \<longleftrightarrow> (s = [] \<or> last s = nul) \<and> list_all (\<lambda>w. length w \<le> int_max) (split_nul s)"

lemma terminated_pieces:
  "terminated s \<longleftrightarrow> (\<forall>w\<in>set (butlast (split_nul s)). length w \<le> int_max) \<and> last (split_nul s) = []"
proof -
  have "(s = [] \<or> last s = nul) \<longleftrightarrow> last (split_nul s) = []"
    by (cases s rule: rev_cases) (simp_all add: split_nul_snoc)
  moreover have "set (split_nul s) = insert (last (split_nul s)) (set (butlast (split_nul s)))"
    using arg_cong [OF append_butlast_last_id [OF split_nul_nonempty [of s]], of set] by simp
  ultimately show ?thesis by (auto simp: terminated_def list_all_iff)
qed

lemma deserialize_any:
  "if terminated s then deserialize_string_from_char s out = Inr (out @ butlast (split_nul s))
   else \<exists>m. deserialize_string_from_char s out = Inl (Undefined_Behaviour m)"
proof -
  have "\<forall>w\<in>set (butlast (split_nul s)). nul \<notin> set w" "nul \<notin> set (last (split_nul s))"
    using last_in_set [OF split_nul_nonempty [of s]] by (auto dest: in_set_butlastD split_nul_parts)
  from deserialize_pieces [OF this, of "[]" out] show ?thesis
    unfolding deserialize_string_from_char_def terminated_pieces split_nul_concat
    by (simp only: append_Nil list.size)
qed

lemma deserialize_terminated:
  "terminated s \<Longrightarrow> \<exists>out. deserialize_string_from_char s [] = Inr out"
  using deserialize_any [of s "[]"] by auto

lemma serialize_splits_at_nul:
  assumes "\<forall>w\<in>set ws. length w \<le> int_max"
  shows "deserialize_string_from_char (serialize_string_to_char ws []) out = Inr (out @ concat (map split_nul ws))"
proof -
  have "concat (map (\<lambda>s. s @ [nul]) (concat (map split_nul ws))) = concat (map (\<lambda>s. s @ [nul]) ws)"
    by (induction ws) (simp_all add: split_nul_join)
  then have "serialize_string_to_char ws [] =
      serialize_string_to_char (concat (map split_nul ws)) []"
    by (simp add: serialize_concat)
  moreover have "\<forall>w\<in>set (concat (map split_nul ws)). nul \<notin> set w \<and> length w \<le> int_max"
    using assms split_nul_parts by fastforce
  ultimately show ?thesis by (simp add: deserialize_serialize)
qed

text \<open>C37: The serialized result list and its way back. Keys without NUL characters come back as they
  were, a key with embedded NULs as its pieces. A buffer from the peer is taken apart exactly when
  it is empty or ends in NUL and no run is too long for an \<open>int\<close>; any other buffer is read past
  its end or makes the length overflow.\<close>

theorem serialize_round_trip:
  assumes "\<forall>w\<in>set ws. length w \<le> int_max"
  shows "deserialize_string_from_char (serialize_string_to_char ws []) out =
      Inr (out @ (if list_all (\<lambda>w. nul \<notin> set w) ws then ws else concat (map split_nul ws))) \<and>
    (if terminated s then deserialize_string_from_char s out = Inr (out @ butlast (split_nul s))
     else \<exists>m. deserialize_string_from_char s out = Inl (Undefined_Behaviour m))"
  using serialize_splits_at_nul [OF assms, of out] deserialize_serialize [of ws out] deserialize_any [of s out] assms
  by (simp add: list_all_iff)

theorem serialize_round_trip_witness:
  "deserialize_string_from_char (serialize_string_to_char [''ab'', [], ''c''] []) [''x''] =
     Inr [''x'', ''ab'', [], ''c''] \<and>
   (\<exists>m. deserialize_string_from_char ([CHR ''a'', nul] @ ''bc'') [''x''] = Inl (Undefined_Behaviour m))"
  using serialize_round_trip [of "[''ab'', [], ''c'']" "[''x'']" "[CHR ''a'', nul] @ ''bc''"]
  by (simp add: int_max_def terminated_def)

end
