(* ===== verification/Kkrt_Psi.thy ===== *)
theory Kkrt_Psi
  imports Crypto_Libs Algorithms Parameter_Check Double Serialize Config
begin

text \<open>
  \<open>psi/kkrt_psi.cpp\<close>: PSI from cuckoo hashing and a batched OPRF. The oblivious transfers of
  PETAce-Verse are two-party calls; the hash tables, the SHA-256 digest and the generators of
  PETAce-Solo are parameters.
\<close>

section \<open>The object and its construction\<close>

text \<open>
  \<open>k_choices\<close> and \<open>k_base_recv\<close> are what \<open>set_base_ots\<close> stores in the OPRF sender,
  \<open>k_base_send\<close> what it stores in the OPRF receiver.
\<close>

record 'r kkrt_psi =
  k_is_sender :: bool
  k_sender_obtain_result :: bool
  k_verbose :: bool
  k_prng :: 'r
  k_common_prng :: 'r
  k_choices :: "block list"
  k_base_recv :: "block list"
  k_base_send :: "(block \<times> block) list"
  k_epsilon :: double
  k_num_of_fun :: nat

definition kkrt_check_params :: "bool \<Rightarrow> double \<Rightarrow> nat \<Rightarrow> net \<Rightarrow> unit verse_proc" where
  "kkrt_check_params is_sender epsilon num_of_fun net =
     bindp (check_consistency u64_bytes u64_of 8 double_ne show_double is_sender net
              ''epsilon'' epsilon) (\<lambda>_.
     check_consistency size_t_bytes size_t_of 8 (\<noteq>) show_nat is_sender net
              ''number of function'' num_of_fun)"

text \<open>Both parties send their share of the common seed before receiving the peer's.\<close>

definition common_seed :: "net \<Rightarrow> block \<Rightarrow> byte list verse_proc" where
  "common_seed net sender_data =
     bindp (send_data net (block_bytes sender_data)) (\<lambda>_.
     bindp (recv_data net 16) (\<lambda>b.
       Ret (take kRandSeedBytesLen (block_bytes (sender_data XOR block_of b)))))"

definition blocks_of :: "nat \<Rightarrow> byte list \<Rightarrow> block list" where
  "blocks_of n bs = map (\<lambda>i. block_of (take 16 (drop (i * 16) bs))) [0..<n]"

definition kkrt_setup_ots ::
  "'r prng_lib \<Rightarrow> bool \<Rightarrow> net \<Rightarrow> 'r \<Rightarrow>
     (block list \<times> block list \<times> (block \<times> block) list \<times> 'r) verse_proc" where
  "kkrt_setup_ots pl is_sender net prng =
     (if is_sender
      then let (bs, prng') = prng_generate pl prng 64; rand_choice = blocks_of 4 bs in
           Call (Base_Ot_Receive rand_choice) (\<lambda>answer.
             case answer of Base_Ot_Received base_recv_ots \<Rightarrow> Ret (rand_choice, base_recv_ots, [], prng')
             | _ \<Rightarrow> Throw (Runtime_Error ''base ot''))
      else Call Base_Ot_Send (\<lambda>answer.
             case answer of Base_Ot_Sent base_send_ots \<Rightarrow> Ret ([], [], base_send_ots, prng)
             | _ \<Rightarrow> Throw (Runtime_Error ''base ot'')))"

definition kkrt_init ::
  "('j, double) json_lib \<Rightarrow> 'r prng_lib \<Rightarrow> 'r \<Rightarrow> net \<Rightarrow> 'j \<Rightarrow> 'r kkrt_psi verse_proc" where
  "kkrt_init js pl prng net params =
     bindp (lift_res (get_bool js params ''common'' ''verbose'')) (\<lambda>verb.
     bindp (lift_res (get_bool js params ''common'' ''is_sender'')) (\<lambda>sender.
     bindp (lift_res (get_double js params ''kkrt_psi_params'' ''epsilon'')) (\<lambda>epsilon.
     bindp (lift_res (get_size js params ''kkrt_psi_params'' ''fun_num'')) (\<lambda>num_of_fun.
     bindp (lift_res (get_bool js params ''kkrt_psi_params'' ''sender_obtain_result'')) (\<lambda>obtain.
     bindp (kkrt_check_params sender epsilon num_of_fun net) (\<lambda>_.
       let (bs, prng') = prng_generate pl prng 16 in
       bindp (common_seed net (block_of bs)) (\<lambda>seed.
       bindp (kkrt_setup_ots pl sender net prng') (\<lambda>(choices, base_recv, base_send, prng'').
         Ret \<lparr>k_is_sender = sender, k_sender_obtain_result = obtain, k_verbose = verb,
              k_prng = prng'', k_common_prng = prng_create pl seed, k_choices = choices,
              k_base_recv = base_recv, k_base_send = base_send, k_epsilon = epsilon,
              k_num_of_fun = num_of_fun\<rparr>))))))))"

definition kkrt_preprocess_data ::
  "'r kkrt_psi \<Rightarrow> net \<Rightarrow> string list \<Rightarrow> string list \<Rightarrow> string list" where
  "kkrt_preprocess_data self net input_keys preprocessed_keys = preprocessed_keys"

section \<open>Sizes and digests\<close>

definition kkrt_exchange_sizes :: "bool \<Rightarrow> net \<Rightarrow> nat \<Rightarrow> (nat \<times> nat) verse_proc" where
  "kkrt_exchange_sizes is_sender net n =
     (if is_sender
      then bindp (recv_data net 8) (\<lambda>b.
           bindp (send_data net (size_t_bytes n)) (\<lambda>_. Ret (n, size_t_of b)))
      else bindp (send_data net (size_t_bytes n)) (\<lambda>_.
           bindp (recv_data net 8) (\<lambda>b. Ret (size_t_of b, n))))"

definition hash_keys :: "hash_lib \<Rightarrow> string list \<Rightarrow> item list" where
  "hash_keys hl input_keys = map (\<lambda>k. sha_256 hl (string_bytes k) kItemBytesLen) input_keys"

section \<open>The sender\<close>

definition check_stash :: "nat \<Rightarrow> unit res" where
  "check_stash stash_size =
     (if stash_size > 0 then Inl (Invalid_Argument ''stash of size is not zero.'') else Inr ())"

text \<open>The item of every bin entry as a block.\<close>

definition table_blocks :: "nat \<Rightarrow> item list list \<Rightarrow> block list list res" where
  "table_blocks num_of_bins table_values =
     for_upto (length table_values)
       (\<lambda>i blocks. res_bind (vec_at table_values i) (\<lambda>row.
          res_bind (vec_at blocks i) (\<lambda>cur. vec_set blocks i (cur @ map block_of row))))
       (replicate num_of_bins [])"

text \<open>
  Encodes every entry and sorts it by the hash function that put it in its bin; the matrix
  of masks of the code is only read back at the entry just written.
\<close>

definition encode_entry ::
  "(nat \<Rightarrow> block \<Rightarrow> block) \<Rightarrow> nat list list \<Rightarrow> nat \<Rightarrow> block list \<Rightarrow> nat \<Rightarrow>
     block list list \<Rightarrow> block list list res" where
  "encode_entry encode function_ids i row j enc_data =
     res_bind (vec_at row j) (\<lambda>x.
     res_bind (vec_at function_ids i) (\<lambda>fids.
     res_bind (vec_at fids j) (\<lambda>f.
     res_bind (vec_at enc_data f) (\<lambda>cur. vec_set enc_data f (cur @ [encode i x])))))"

definition encode_table ::
  "(nat \<Rightarrow> block \<Rightarrow> block) \<Rightarrow> nat \<Rightarrow> nat \<Rightarrow> nat list list \<Rightarrow> block list list \<Rightarrow>
     block list list res" where
  "encode_table encode num_of_fun num_of_bins function_ids table =
     for_upto num_of_bins
       (\<lambda>i enc_data. res_bind (vec_at table i) (\<lambda>row.
          for_upto (length row) (encode_entry encode function_ids i row) enc_data))
       (replicate num_of_fun [])"

text \<open>One fresh permutation per hash function; the generator of the object moves on.\<close>

definition shuffle_rows ::
  "'r uniform \<Rightarrow> nat \<Rightarrow> nat \<Rightarrow> block list list \<Rightarrow> 'r \<Rightarrow> (block list list \<times> 'r) res" where
  "shuffle_rows draw num_of_fun n enc_data prng =
     for_upto num_of_fun
       (\<lambda>i (rows, g). res_bind (generate_permutation draw g n) (\<lambda>(permutation, g').
          res_bind (vec_at enc_data i) (\<lambda>row.
          res_bind (permute_and_undo 0 permutation True row) (\<lambda>row'.
          res_bind (vec_set rows i row') (\<lambda>rows'. Inr (rows', g'))))))
       (replicate num_of_fun [], prng)"

definition reduce :: "block \<Rightarrow> byte_vector" where
  "reduce b = take kReduceStatisticsLen (block_bytes b)"

definition reduce_rows :: "nat \<Rightarrow> nat \<Rightarrow> block list list \<Rightarrow> byte list res" where
  "reduce_rows num_of_fun n rows =
     for_upto num_of_fun
       (\<lambda>i out. for_upto n (\<lambda>j out. res_bind (vec_at rows i) (\<lambda>row.
          res_bind (vec_at row j) (\<lambda>b. Inr (out @ reduce b)))) out) []"

text \<open>
  The sender up to the message that carries its encodings, the same in \<open>process\<close> and in
  \<open>process_cardinality_only\<close>: it returns the object with its generators advanced.
\<close>

definition kkrt_sender_oprf ::
  "hash_lib \<Rightarrow> 'r prng_lib \<Rightarrow> 'r kkrt_psi \<Rightarrow> net \<Rightarrow> nat \<Rightarrow> item list \<Rightarrow> nat \<Rightarrow>
     'r kkrt_psi verse_proc" where
  "kkrt_sender_oprf hl pl self net num_of_bins keys sender_data_size =
     (let (seed, common') = prng_generate pl (k_common_prng self) kRandSeedBytesLen;
          k = k_num_of_fun self
      in
      bindp (recv_data net 8) (\<lambda>b.
      bindp (lift_res (check_stash (size_t_of b))) (\<lambda>_.
      bindp (lift_res (vec_create max_vectors num_of_bins)) (\<lambda>_.
      bindp (lift_res (table_blocks num_of_bins (bin_entry_values hl num_of_bins seed k keys))) (\<lambda>blocks.
      Call (Nco_Ot_Send (k_choices self) (k_base_recv self) num_of_bins) (\<lambda>answer.
        case answer of
          Nco_Ot_Encoder encode \<Rightarrow>
            bindp (lift_res (vec_create max_vectors k)) (\<lambda>_.
            bindp (lift_res (encode_table encode k num_of_bins
                     (bin_entry_function_ids hl num_of_bins seed k keys) blocks)) (\<lambda>enc_data.
            bindp (lift_res (shuffle_rows (prng_standard pl) k sender_data_size enc_data
                     (k_prng self))) (\<lambda>(rows, prng').
            bindp (lift_res (vec_reserve max_bytes
                     (size_mul (size_mul k sender_data_size) kReduceStatisticsLen))) (\<lambda>_.
            bindp (lift_res (reduce_rows k sender_data_size rows)) (\<lambda>out.
            bindp (send_data net out) (\<lambda>_.
              Ret (self\<lparr>k_prng := prng', k_common_prng := common'\<rparr>)))))))
        | _ \<Rightarrow> Throw (Runtime_Error ''oprf'')))))))"

section \<open>The receiver\<close>

text \<open>
  One round of the matching loop: an empty bin is skipped, the others search the run of their
  hash function.
\<close>

definition match_bin ::
  "nat \<Rightarrow> nat \<Rightarrow> byte_vector list \<Rightarrow> nat list \<Rightarrow> nat list \<Rightarrow> block list \<Rightarrow> nat \<Rightarrow>
     bool list \<times> nat \<Rightarrow> (bool list \<times> nat) res" where
  "match_bin num_of_fun sender_data_size encodings function_ids ids masks item_idx s =
     res_bind (vec_at function_ids item_idx) (\<lambda>index.
       if index \<ge> num_of_fun then Inr s
       else res_bind (vec_at masks item_idx) (\<lambda>mask.
            let first = size_mul index sender_data_size;
                last = size_mul (index + 1) sender_data_size
            in res_bind (std_find encodings first last (reduce mask)) (\<lambda>pos.
               if pos \<noteq> last
               then res_bind (vec_at ids item_idx) (\<lambda>id. mark_hit id s)
               else Inr s)))"

definition match_bins ::
  "nat \<Rightarrow> nat \<Rightarrow> nat \<Rightarrow> byte_vector list \<Rightarrow> nat list \<Rightarrow> nat list \<Rightarrow> block list \<Rightarrow>
     (bool list \<times> nat) res" where
  "match_bins num_of_bins num_of_fun sender_data_size encodings function_ids ids masks =
     for_upto num_of_bins
       (match_bin num_of_fun sender_data_size encodings function_ids ids masks)
       (replicate num_of_bins False, 0)"

text \<open>The receiver up to the marked bins and their count, the same in both entry points.\<close>

definition kkrt_receiver_match ::
  "hash_lib \<Rightarrow> 'r prng_lib \<Rightarrow> 'r kkrt_psi \<Rightarrow> net \<Rightarrow> nat \<Rightarrow> item list \<Rightarrow> nat \<Rightarrow>
     (bool list \<times> nat \<times> 'r kkrt_psi) verse_proc" where
  "kkrt_receiver_match hl pl self net num_of_bins keys sender_data_size =
     (let (seed, common') = prng_generate pl (k_common_prng self) kRandSeedBytesLen;
          k = k_num_of_fun self;
          stash_size = cuckoo_stash_size hl num_of_bins seed k keys
      in
      bindp (send_data net (size_t_bytes stash_size)) (\<lambda>_.
      bindp (lift_res (check_stash stash_size)) (\<lambda>_.
      Call (Nco_Ot_Receive (k_base_send self)
              (map block_of (cuckoo_values hl num_of_bins seed k keys))) (\<lambda>answer.
        case answer of
          Nco_Ot_Masks masks \<Rightarrow>
            (let byte_count = size_mul (size_mul k sender_data_size) kReduceStatisticsLen;
                 n = size_mul k sender_data_size
             in
             bindp (lift_res (vec_grow max_bytes byte_count)) (\<lambda>_.
             bindp (recv_data net byte_count) (\<lambda>data.
             bindp (lift_res (vec_reserve max_vectors n)) (\<lambda>_.
             bindp (lift_res (unpack_keys data kReduceStatisticsLen n)) (\<lambda>encodings.
             bindp (lift_res (vec_create max_bits num_of_bins)) (\<lambda>_.
             bindp (lift_res (match_bins num_of_bins k sender_data_size encodings
                      (cuckoo_function_ids hl num_of_bins seed k keys)
                      (cuckoo_ids hl num_of_bins seed k keys) masks)) (\<lambda>(marks, cnt).
               Ret (marks, cnt, self\<lparr>k_common_prng := common'\<rparr>))))))))
        | _ \<Rightarrow> Throw (Runtime_Error ''oprf'')))))"

section \<open>The two entry points\<close>

text \<open>\<open>output_keys\<close> is left as it was when the sender does not obtain the result.\<close>

definition kkrt_process ::
  "hash_lib \<Rightarrow> 'r prng_lib \<Rightarrow> 'r kkrt_psi \<Rightarrow> net \<Rightarrow> string list \<Rightarrow> string list \<Rightarrow>
     (string list \<times> 'r kkrt_psi) verse_proc" where
  "kkrt_process hl pl self net input_keys output_keys =
     bindp (kkrt_exchange_sizes (k_is_sender self) net (length input_keys))
       (\<lambda>(sender_data_size, receiver_data_size).
     bindp (lift_res (bins_for receiver_data_size (k_epsilon self))) (\<lambda>bins.
       let keys = hash_keys hl input_keys in
       if k_is_sender self
       then bindp (kkrt_sender_oprf hl pl self net bins keys sender_data_size) (\<lambda>self'.
            if k_sender_obtain_result self
            then bindp (recv_data net 8) (\<lambda>b.
                 bindp (lift_res (vec_create max_bytes (size_t_of b))) (\<lambda>_.
                 bindp (recv_data net (size_t_of b)) (\<lambda>serialized_key.
                 bindp (lift_res (deserialize_string_from_char (bytes_string serialized_key) []))
                   (\<lambda>out. Ret (out, self')))))
            else Ret (output_keys, self'))
       else bindp (kkrt_receiver_match hl pl self net bins keys sender_data_size)
              (\<lambda>(marks, cnt, self').
            bindp (lift_res (collect_marked marks cnt input_keys output_keys)) (\<lambda>out.
            if k_sender_obtain_result self
            then let serialized_key = serialize_string_to_char out [] in
                 bindp (send_data net (size_t_bytes (length serialized_key))) (\<lambda>_.
                 bindp (send_data net (string_bytes serialized_key)) (\<lambda>_. Ret (out, self')))
            else Ret (out, self')))))"

definition kkrt_process_cardinality_only ::
  "hash_lib \<Rightarrow> 'r prng_lib \<Rightarrow> 'r kkrt_psi \<Rightarrow> net \<Rightarrow> string list \<Rightarrow>
     (nat \<times> 'r kkrt_psi) verse_proc" where
  "kkrt_process_cardinality_only hl pl self net input_keys =
     bindp (kkrt_exchange_sizes (k_is_sender self) net (length input_keys))
       (\<lambda>(sender_data_size, receiver_data_size).
     bindp (lift_res (bins_for receiver_data_size (k_epsilon self))) (\<lambda>bins.
       let keys = hash_keys hl input_keys in
       if k_is_sender self
       then bindp (kkrt_sender_oprf hl pl self net bins keys sender_data_size) (\<lambda>self'.
            if k_sender_obtain_result self
            then bindp (recv_data net 8) (\<lambda>b. Ret (size_t_of b, self'))
            else Ret (0, self'))
       else bindp (kkrt_receiver_match hl pl self net bins keys sender_data_size)
              (\<lambda>(marks, cnt, self').
            if k_sender_obtain_result self
            then bindp (send_data net (size_t_bytes cnt)) (\<lambda>_. Ret (cnt, self'))
            else Ret (cnt, self'))))"

end
