(* ===== verification/Kkrt_Correct.thy ===== *)
theory Kkrt_Correct
  imports Kkrt_Psi
begin

text \<open>
  Correctness of the KKRT protocol: the contracts of the hash tables and of the OPRF, each
  loop of the two parties under them, and the joint run of both entry points.
\<close>

section \<open>Contracts of the libraries\<close>

text \<open>
  A simple table holds every key once per hash function, marked with that function, in the bin
  it gives: \<open>loc j e\<close> is the bin of \<open>e\<close> under function \<open>j\<close>.
\<close>

definition table_entries :: "item list list \<Rightarrow> nat list list \<Rightarrow> (nat \<times> item \<times> nat) list" where
  "table_entries vals fids =
     concat (map (\<lambda>i. map (\<lambda>(v, f). (i, v, f)) (zip (vals ! i) (fids ! i))) [0..<length vals])"

definition simple_table_ok ::
  "(nat \<Rightarrow> item \<Rightarrow> nat) \<Rightarrow> nat \<Rightarrow> nat \<Rightarrow> item list \<Rightarrow> item list list \<Rightarrow> nat list list \<Rightarrow> bool" where
  "simple_table_ok loc bins k keys vals fids \<longleftrightarrow>
     length vals = bins \<and> length fids = bins \<and> map length fids = map length vals \<and>
     mset (table_entries vals fids) =
       mset (concat (map (\<lambda>e. map (\<lambda>j. (loc j e, keys_xor_fun j e, j)) [0..<k]) keys))"

text \<open>
  A cuckoo table without a stash holds every key in exactly one bin, a bin of one of its
  hash functions; the function id of an empty bin is out of range.
\<close>

definition cuckoo_table_ok ::
  "(nat \<Rightarrow> item \<Rightarrow> nat) \<Rightarrow> nat \<Rightarrow> nat \<Rightarrow> item list \<Rightarrow> item list \<Rightarrow> nat list \<Rightarrow> nat list \<Rightarrow> bool" where
  "cuckoo_table_ok loc bins k keys vals ids fids \<longleftrightarrow>
     length vals = bins \<and> length ids = bins \<and> length fids = bins \<and>
     list_all (\<lambda>b. fids ! b < k \<longrightarrow> ids ! b < length keys \<and> vals ! b = keys_xor_fun (fids ! b) (keys ! (ids ! b)) \<and>
                  loc (fids ! b) (keys ! (ids ! b)) = b) [0..<bins] \<and>
     mset (map ((!) ids) (filter (\<lambda>b. fids ! b < k) [0..<bins])) = mset [0..<length keys]"

text \<open>
  The OPRF gives the receiver the encodings of its inputs under the sender's encoder, when
  the two objects hold matching base transfers.
\<close>

definition oprf_ok ::
  "(verse_request, verse_answer) ideal \<Rightarrow> (nat \<Rightarrow> block \<Rightarrow> block) \<Rightarrow> 'r kkrt_psi \<Rightarrow> 'r kkrt_psi \<Rightarrow>
     bool" where
  "oprf_ok ideal F a b \<longleftrightarrow>
     (\<forall>inputs. ideal (Nco_Ot_Send (k_choices a) (k_base_recv a) (length inputs))
                (Nco_Ot_Receive (k_base_send b) inputs) =
        Some (Nco_Ot_Encoder F,
              Nco_Ot_Masks (map (\<lambda>i. F i (inputs ! i)) [0..<length inputs])))"

section \<open>The sender's encodings\<close>

lemma table_blocks_result:
  assumes "length vals = bins"
  shows "table_blocks bins vals = Inr (map (map block_of) vals)"
proof -
  have "for_upto bins (\<lambda>i blocks. res_bind (vec_at vals i) (\<lambda>row.
          res_bind (vec_at blocks i) (\<lambda>cur. vec_set blocks i (cur @ map block_of row))))
        (replicate bins []) =
      Inr (map (\<lambda>i. replicate bins [] ! i @ map block_of (vals ! i)) [0..<bins])"
    by (rule for_upto_update) (simp_all add: assms)
  moreover have "map (\<lambda>i. replicate bins [] ! i @ map block_of (vals ! i)) [0..<bins] =
      map (map block_of) vals"
    by (rule nth_equalityI) (simp_all add: assms)
  ultimately show ?thesis by (simp add: table_blocks_def assms)
qed

definition encoded :: "(nat \<Rightarrow> block \<Rightarrow> block) \<Rightarrow> (nat \<times> item \<times> nat) list \<Rightarrow> nat \<Rightarrow> block list" where
  "encoded F es f = map (\<lambda>(i, v, _). F i (block_of v)) (filter (\<lambda>(_, _, f'). f' = f) es)"

lemma encoded_append: "encoded F (es @ es') f = encoded F es f @ encoded F es' f"
  by (simp add: encoded_def)

lemma encoded_rows_update:
  "f < k \<Longrightarrow> (map (encoded F es) [0..<k])[f := encoded F es f @ [F i (block_of v)]] =
     map (encoded F (es @ [(i, v, f)])) [0..<k]"
  by (rule nth_equalityI) (auto simp: nth_list_update encoded_def)

lemma encode_row:
  assumes "length fs = length vs" and "\<forall>f\<in>set fs. f < k" and "i < length fids" and "fids ! i = fs"
  shows "for_upto (length vs) (encode_entry F fids i (map block_of vs)) (map (encoded F es) [0..<k]) =
    Inr (map (encoded F (es @ map (\<lambda>(v, f). (i, v, f)) (zip vs fs))) [0..<k])"
proof -
  let ?g = "\<lambda>j. map (encoded F (es @ map (\<lambda>(v, f). (i, v, f)) (zip (take j vs) (take j fs)))) [0..<k]"
  have "for_upto (length vs) (encode_entry F fids i (map block_of vs)) (?g 0) = Inr (?g (length vs))"
  proof (rule for_upto_trace)
    fix j assume j: "j < length vs"
    then have f: "fs ! j < k" using assms(1,2) by simp
    then show "encode_entry F fids i (map block_of vs) j (?g j) = Inr (?g (Suc j))"
      using j assms(1,3,4) encoded_rows_update [OF f, of F
          "es @ map (\<lambda>(v, f). (i, v, f)) (zip (take j vs) (take j fs))" i "vs ! j"]
      by (simp add: encode_entry_def take_Suc_conv_app_nth)
  qed
  with assms(1) show ?thesis by simp
qed

lemma table_entries_take:
  "i < length vals \<Longrightarrow>
     concat (map (\<lambda>i. map (\<lambda>(v, f). (i, v, f)) (zip (vals ! i) (fids ! i))) [0..<Suc i]) =
     concat (map (\<lambda>i. map (\<lambda>(v, f). (i, v, f)) (zip (vals ! i) (fids ! i))) [0..<i]) @
       map (\<lambda>(v, f). (i, v, f)) (zip (vals ! i) (fids ! i))"
  by simp

lemma encode_table_result:
  assumes "length vals = bins" and "length fids = bins" and "map length fids = map length vals"
    and "\<forall>fs\<in>set fids. \<forall>f\<in>set fs. f < k"
  shows "encode_table F k bins fids (map (map block_of) vals) =
    Inr (map (encoded F (table_entries vals fids)) [0..<k])"
proof -
  let ?E = "\<lambda>n. concat (map (\<lambda>i. map (\<lambda>(v, f). (i, v, f)) (zip (vals ! i) (fids ! i))) [0..<n])"
  have len: "length (fids ! i) = length (vals ! i)" if "i < bins" for i
    using that assms(1-3) by (metis length_map nth_map)
  have "for_upto bins (\<lambda>i enc_data. res_bind (vec_at (map (map block_of) vals) i) (\<lambda>row.
          for_upto (length row) (encode_entry F fids i row) enc_data))
        (map (encoded F (?E 0)) [0..<k]) = Inr (map (encoded F (?E bins)) [0..<k])"
  proof (rule for_upto_trace [where g = "\<lambda>n. map (encoded F (?E n)) [0..<k]"])
    fix i assume i: "i < bins"
    have "\<forall>f\<in>set (fids ! i). f < k" using assms(2,4) i by (metis nth_mem)
    from encode_row [OF len [OF i] this, of i fids F "?E i"] i assms(1,2)
    show "res_bind (vec_at (map (map block_of) vals) i) (\<lambda>row.
          for_upto (length row) (encode_entry F fids i row) (map (encoded F (?E i)) [0..<k])) =
        Inr (map (encoded F (?E (Suc i))) [0..<k])"
      by simp
  qed
  moreover have "map (encoded F []) [0..<k] = replicate k []"
    by (rule nth_equalityI) (simp_all add: encoded_def)
  ultimately show ?thesis
    using assms(1) by (simp add: encode_table_def table_entries_def)
qed

lemma simple_table_fids:
  assumes "simple_table_ok loc bins k keys vals fids"
  shows "\<forall>fs\<in>set fids. \<forall>f\<in>set fs. f < k"
proof (intro ballI)
  fix fs f assume "fs \<in> set fids" "f \<in> set fs"
  then obtain i j where i: "i < length fids" "j < length (fids ! i)" "fids ! i ! j = f"
    by (auto simp: in_set_conv_nth)
  from assms have l: "length vals = bins" "length fids = bins" "map length fids = map length vals"
    and m: "mset (table_entries vals fids) =
       mset (concat (map (\<lambda>e. map (\<lambda>j. (loc j e, keys_xor_fun j e, j)) [0..<k]) keys))"
    by (auto simp: simple_table_ok_def)
  have "length (fids ! i) = length (vals ! i)" using l i by (metis nth_map)
  with i have "(vals ! i ! j, f) \<in> set (zip (vals ! i) (fids ! i))"
    by (auto simp: in_set_zip)
  then have "(i, vals ! i ! j, f) \<in> set (table_entries vals fids)"
    using i l by (fastforce simp: table_entries_def)
  then show "f < k" using mset_eq_setD [OF m] by auto
qed

lemma filter_fids:
  "f < k \<Longrightarrow> filter (\<lambda>(_, _, f'). f' = f)
     (concat (map (\<lambda>e. map (\<lambda>j. (loc j e, keys_xor_fun j e, j)) [0..<k]) keys)) = map (\<lambda>e. (loc f e, keys_xor_fun f e, f)) keys"
proof (induction keys)
  case Nil
  then show ?case by simp
next
  case (Cons e keys)
  have "filter (\<lambda>j. j = f) [0..<k] = [f]"
    using Cons.prems by (induction k) (auto simp: less_Suc_eq)
  then have "filter (\<lambda>(_, _, f'). f' = f) (map (\<lambda>j. (loc j e, keys_xor_fun j e, j)) [0..<k]) = [(loc f e, keys_xor_fun f e, f)]"
    by (simp add: filter_map comp_def)
  with Cons show ?case by simp
qed

lemma encoded_mset:
  assumes "simple_table_ok loc bins k keys vals fids" and "f < k"
  shows "mset (encoded F (table_entries vals fids) f) = mset (map (\<lambda>e. F (loc f e) (block_of (keys_xor_fun f e))) keys)"
proof -
  have "mset (encoded F (table_entries vals fids) f) =
      image_mset (\<lambda>(i, v, _). F i (block_of v)) (filter_mset (\<lambda>(_, _, f'). f' = f)
        (mset (table_entries vals fids)))"
    by (simp add: encoded_def mset_filter)
  also have "filter_mset (\<lambda>(_, _, f'). f' = f) (mset (table_entries vals fids)) =
      mset (map (\<lambda>e. (loc f e, keys_xor_fun f e, f)) keys)"
    using assms by (simp only: simple_table_ok_def mset_filter [symmetric] filter_fids)
  finally show ?thesis by (simp add: image_mset.compositionality comp_def)
qed

lemma shuffle_rows_result:
  assumes "uniform_ok draw" and "length rows = k" and "\<forall>f<k. length (rows ! f) = n"
  shows "\<exists>out g'. shuffle_rows draw k n rows g = Inr (out, g') \<and> length out = k \<and>
    (\<forall>f<k. mset (out ! f) = mset (rows ! f))"
proof -
  let ?f = "\<lambda>i (out, g). res_bind (generate_permutation draw g n) (\<lambda>(permutation, g').
          res_bind (vec_at rows i) (\<lambda>row.
          res_bind (permute_and_undo 0 permutation True row) (\<lambda>row'.
          res_bind (vec_set out i row') (\<lambda>rows'. Inr (rows', g')))))"
  have "\<exists>t. for_upto k ?f (replicate k [], g) = Inr t \<and>
      (length (fst t) = k \<and> (\<forall>f<k. mset (fst t ! f) = mset (rows ! f)))"
  proof (rule for_upto_invariant [where
        P = "\<lambda>i t. length (fst t) = k \<and> (\<forall>f<i. mset (fst t ! f) = mset (rows ! f))"])
    fix i and t :: "block list list \<times> 'a"
    assume i: "i < k" and inv: "length (fst t) = k \<and> (\<forall>f<i. mset (fst t ! f) = mset (rows ! f))"
    obtain out h where t: "t = (out, h)" by (cases t)
    obtain p h' where p: "generate_permutation draw h n = Inr (p, h')" "mset p = mset [0..<n]"
      using generate_permutation_perm [OF assms(1)] by blast
    have len: "length (rows ! i) = n" using assms(3) i by simp
    have "permute_and_undo 0 p True (rows ! i) = Inr (map ((!) (rows ! i)) p)"
      using p(2) len by (intro permute_perm) simp
    moreover have "mset (map ((!) (rows ! i)) p) = mset (rows ! i)"
      using p(2) len by (intro mset_map_nth_perm) simp
    ultimately show "\<exists>t'. ?f i t = Inr t' \<and>
        length (fst t') = k \<and> (\<forall>f<Suc i. mset (fst t' ! f) = mset (rows ! f))"
      using i inv t p(1) assms(2) by (auto simp: less_Suc_eq nth_list_update)
  qed simp
  then show ?thesis unfolding shuffle_rows_def by (auto split: prod.splits)
qed

lemma reduce_rows_result:
  assumes "length rows = k" and "\<forall>f<k. length (rows ! f) = n"
  shows "reduce_rows k n rows = Inr (concat (map reduce (concat rows)))"
proof -
  have row: "for_upto n (\<lambda>j out. res_bind (vec_at rows i) (\<lambda>row.
      res_bind (vec_at row j) (\<lambda>b. Inr (out @ reduce b)))) out =
      Inr (out @ concat (map reduce (rows ! i)))" if i: "i < k" for i out
  proof -
    let ?g = "\<lambda>j. out @ concat (map reduce (take j (rows ! i)))"
    have "for_upto n (\<lambda>j out. res_bind (vec_at rows i) (\<lambda>row.
        res_bind (vec_at row j) (\<lambda>b. Inr (out @ reduce b)))) (?g 0) = Inr (?g n)"
      by (rule for_upto_trace) (use assms i in \<open>simp add: take_Suc_conv_app_nth\<close>)
    with assms i show ?thesis by simp
  qed
  let ?g = "\<lambda>i. concat (map reduce (concat (take i rows)))"
  have "for_upto k (\<lambda>i out. for_upto n (\<lambda>j out. res_bind (vec_at rows i) (\<lambda>row.
      res_bind (vec_at row j) (\<lambda>b. Inr (out @ reduce b)))) out) (?g 0) = Inr (?g k)"
    by (rule for_upto_trace) (use assms row in \<open>simp add: take_Suc_conv_app_nth\<close>)
  with assms show ?thesis by (simp add: reduce_rows_def)
qed

section \<open>The receiver's matching\<close>

lemma nth_run:
  "\<forall>r\<in>set rows. length r = n \<Longrightarrow> f < length rows \<Longrightarrow>
     take n (drop (f * n) (concat rows)) = rows ! f"
  by (induction rows arbitrary: f) (auto simp: nth_Cons split: nat.splits)

lemma length_runs: "\<forall>r\<in>set rows. length r = n \<Longrightarrow> length (concat rows) = length rows * n"
  by (induction rows) auto

lemma find_in_run:
  assumes "\<forall>r\<in>set rows. length r = n" and "f < length rows" and "length rows * n < 2 ^ 64"
  shows "\<exists>pos. std_find (concat rows) (size_mul f n) (size_mul (f + 1) n) v = Inr pos \<and>
    (pos \<noteq> size_mul (f + 1) n \<longleftrightarrow> v \<in> set (rows ! f))"
proof -
  have "(f + 1) * n \<le> length rows * n" using assms(2) by (intro mult_le_mono1) simp
  then have m: "size_mul f n = f * n" "size_mul (f + 1) n = (f + 1) * n"
    using assms(3) by (simp_all add: size_mul_def)
  have "\<exists>pos. std_find (concat rows) (f * n) ((f + 1) * n) v = Inr pos \<and>
      (pos \<noteq> (f + 1) * n \<longleftrightarrow> v \<in> set (take ((f + 1) * n - f * n) (drop (f * n) (concat rows))))"
    using \<open>(f + 1) * n \<le> length rows * n\<close> length_runs [OF assms(1)]
    by (intro std_find_found) simp_all
  moreover have "(f + 1) * n - f * n = n" by simp
  ultimately show ?thesis unfolding m using nth_run [OF assms(1,2)] by simp
qed

text \<open>The bins whose mask occurs among the sender's encodings for their hash function.\<close>

definition is_hit :: "nat \<Rightarrow> byte_vector list list \<Rightarrow> nat list \<Rightarrow> block list \<Rightarrow> nat \<Rightarrow> bool" where
  "is_hit k rows fids masks b \<longleftrightarrow> fids ! b < k \<and> reduce (masks ! b) \<in> set (rows ! (fids ! b))"

lemma match_bins_result:
  assumes rows: "\<forall>r\<in>set rows. length r = n" "length rows = k" "k * n < 2 ^ 64"
    and len: "length fids = bins" "length ids = bins" "length masks = bins"
    and ids: "\<And>b. b < bins \<Longrightarrow> fids ! b < k \<Longrightarrow> ids ! b < bins"
  shows "match_bins bins k n (concat rows) fids ids masks =
    Inr (map (\<lambda>i. i \<in> (!) ids ` set (filter (is_hit k rows fids masks) [0..<bins])) [0..<bins],
         length (filter (is_hit k rows fids masks) [0..<bins]))"
proof -
  let ?h = "is_hit k rows fids masks"
  let ?g = "\<lambda>m. (map (\<lambda>i. i \<in> (!) ids ` set (filter ?h [0..<m])) [0..<bins],
                 length (filter ?h [0..<m]))"
  have "for_upto bins (match_bin k n (concat rows) fids ids masks) (?g 0) = Inr (?g bins)"
  proof (rule for_upto_trace)
    fix b assume b: "b < bins"
    show "match_bin k n (concat rows) fids ids masks b (?g b) = Inr (?g (Suc b))"
    proof (cases "fids ! b < k")
      case False
      with b len show ?thesis by (simp add: match_bin_def is_hit_def)
    next
      case True
      obtain pos where pos: "std_find (concat rows) (size_mul (fids ! b) n)
            (size_mul (fids ! b + 1) n) (reduce (masks ! b)) = Inr pos"
          "pos \<noteq> size_mul (fids ! b + 1) n \<longleftrightarrow> reduce (masks ! b) \<in> set (rows ! (fids ! b))"
        using find_in_run [of rows n "fids ! b" "reduce (masks ! b)"] rows True by auto
      have upd: "(map (\<lambda>i. i \<in> A) [0..<bins])[ids ! b := True] =
          map (\<lambda>i. i \<in> insert (ids ! b) A) [0..<bins]" for A
        using ids [OF b True] by (simp add: nth_update_map_upt)
      show ?thesis
        using pos b len True ids [OF b True]
        by (cases "pos = size_mul (fids ! b + 1) n")
           (simp_all add: match_bin_def is_hit_def Let_def upd)
    qed
  qed
  moreover have "?g 0 = (replicate bins False, 0)"
    by (auto intro: nth_equalityI)
  ultimately show ?thesis by (simp only: match_bins_def)
qed

text \<open>What the receiver collects, when a key is hit exactly if the sender has it too.\<close>

lemma collect_hits:
  assumes perm: "mset (map ((!) ids) occ) = mset [0..<length ys]" and "length ys \<le> bins"
    and hit: "\<And>b. b \<in> set occ \<Longrightarrow> h b \<longleftrightarrow> ys ! (ids ! b) \<in> set xs"
  shows "collect_marked (map (\<lambda>i. i \<in> (!) ids ` set (filter h occ)) [0..<bins])
      (length (filter h occ)) ys out = Inr (intersection ys xs)"
    and "length (filter h occ) = length (intersection ys xs)"
proof -
  have hits: "filter h occ = filter (\<lambda>b. ys ! (ids ! b) \<in> set xs) occ"
    using hit by (rule filter_cong [OF refl])
  have inter: "map ((!) ys) (filter (\<lambda>i. ys ! i \<in> set xs) [0..<length ys]) = intersection ys xs"
  proof -
    have "map ((!) ys) (filter ((\<lambda>y. y \<in> set xs) \<circ> (!) ys) [0..<length ys]) =
        filter (\<lambda>y. y \<in> set xs) (map ((!) ys) [0..<length ys])"
      by (rule filter_map [symmetric])
    then show ?thesis by (simp only: comp_def map_nth intersection_def)
  qed
  have "length (filter h occ) = size (mset (filter (\<lambda>i. ys ! i \<in> set xs) (map ((!) ids) occ)))"
    unfolding hits filter_map comp_def by (simp only: length_map size_mset)
  also have "\<dots> = length (filter (\<lambda>i. ys ! i \<in> set xs) [0..<length ys])"
    unfolding mset_filter perm by (simp only: mset_filter [symmetric] size_mset)
  also have "\<dots> = length (intersection ys xs)" by (metis inter length_map)
  finally show cnt: "length (filter h occ) = length (intersection ys xs)" .
  let ?marks = "map (\<lambda>i. i \<in> (!) ids ` set (filter h occ)) [0..<bins]"
  have set_occ: "(!) ids ` set occ = {0..<length ys}"
    using mset_eq_setD [OF perm] by (simp only: set_map set_upt)
  have mark: "i \<in> (!) ids ` set (filter h occ) \<longleftrightarrow> ys ! i \<in> set xs" if "i < length ys" for i
  proof -
    from that set_occ obtain b where "b \<in> set occ" "ids ! b = i"
      by (metis atLeastLessThan_iff imageE le0)
    then show ?thesis unfolding hits by auto
  qed
  have "zip ?marks ys = zip (map (\<lambda>y. y \<in> set xs) ys) ys"
    using assms(2) mark by (intro nth_equalityI) simp_all
  then have m: "marked ?marks ys = intersection ys xs"
    unfolding marked_def intersection_def
    by (metis marked_def marked_map_filter)
  show "collect_marked ?marks (length (filter h occ)) ys out = Inr (intersection ys xs)"
    unfolding m [symmetric] using assms(2) cnt m by (intro collect_marked_spec) simp_all
qed

section \<open>Two honest parties\<close>

definition kkrt_paired :: "'r kkrt_psi \<Rightarrow> 'r kkrt_psi \<Rightarrow> bool" where
  "kkrt_paired a b \<longleftrightarrow> k_is_sender a \<and> \<not> k_is_sender b \<and>
     k_num_of_fun a = k_num_of_fun b \<and> k_epsilon a = k_epsilon b \<and> k_common_prng a = k_common_prng b"

text \<open>The seed of the two hash tables of a run, drawn from the common generator.\<close>

definition table_seed :: "'r prng_lib \<Rightarrow> 'r kkrt_psi \<Rightarrow> byte list" where
  "table_seed pl self = fst (prng_generate pl (k_common_prng self) kRandSeedBytesLen)"

definition next_common :: "'r prng_lib \<Rightarrow> 'r kkrt_psi \<Rightarrow> 'r" where
  "next_common pl self = snd (prng_generate pl (k_common_prng self) kRandSeedBytesLen)"

definition kkrt_tables_ok ::
  "hash_lib \<Rightarrow> (nat \<Rightarrow> item \<Rightarrow> nat) \<Rightarrow> nat \<Rightarrow> byte list \<Rightarrow> nat \<Rightarrow> string list \<Rightarrow> string list \<Rightarrow> bool" where
  "kkrt_tables_ok hl loc bins seed k xs ys \<longleftrightarrow>
     simple_table_ok loc bins k (hash_keys hl xs)
       (bin_entry_values hl bins seed k (hash_keys hl xs))
       (bin_entry_function_ids hl bins seed k (hash_keys hl xs)) \<and>
     cuckoo_table_ok loc bins k (hash_keys hl ys)
       (cuckoo_values hl bins seed k (hash_keys hl ys))
       (cuckoo_ids hl bins seed k (hash_keys hl ys))
       (cuckoo_function_ids hl bins seed k (hash_keys hl ys))"

text \<open>The vectors of a run stay below their \<open>max_size()\<close>.\<close>

definition kkrt_sizes_ok :: "nat \<Rightarrow> nat \<Rightarrow> nat \<Rightarrow> nat \<Rightarrow> bool" where
  "kkrt_sizes_ok bins k n m \<longleftrightarrow> bins \<le> max_vectors \<and> k \<le> max_vectors \<and>
     k * n \<le> max_vectors \<and> n < 2 ^ 64 \<and> m < 2 ^ 64"

definition encoding :: "hash_lib \<Rightarrow> (nat \<Rightarrow> item \<Rightarrow> nat) \<Rightarrow> (nat \<Rightarrow> block \<Rightarrow> block) \<Rightarrow> nat \<Rightarrow> string \<Rightarrow>
    byte_vector" where
  "encoding hl loc F j key =
     (let e = sha_256 hl (string_bytes key) kItemBytesLen in reduce (F (loc j e) (block_of (keys_xor_fun j e))))"

text \<open>Different keys of the two parties get different reduced encodings.\<close>

definition kkrt_no_collision ::
  "hash_lib \<Rightarrow> (nat \<Rightarrow> item \<Rightarrow> nat) \<Rightarrow> (nat \<Rightarrow> block \<Rightarrow> block) \<Rightarrow> nat \<Rightarrow> string list \<Rightarrow> string list \<Rightarrow>
     bool" where
  "kkrt_no_collision hl loc F k xs ys \<longleftrightarrow>
     list_all (\<lambda>y. list_all (\<lambda>x. list_all (\<lambda>j.
       encoding hl loc F j y = encoding hl loc F j x \<longrightarrow> y = x) [0..<k]) xs) ys"

lemma kkrt_no_collisionD:
  "kkrt_no_collision hl loc F k xs ys \<Longrightarrow> y \<in> set ys \<Longrightarrow> x \<in> set xs \<Longrightarrow> j < k \<Longrightarrow>
     encoding hl loc F j y = encoding hl loc F j x \<Longrightarrow> y = x"
  unfolding kkrt_no_collision_def list_all_iff by (metis atLeastLessThan_iff le0 set_upt)

lemma length_hash_keys [simp]: "length (hash_keys hl ks) = length ks"
  by (simp add: hash_keys_def)

text \<open>The sender's message: one shuffled run of encodings per hash function.\<close>

lemma sender_rows:
  assumes "uniform_ok draw"
    and "simple_table_ok loc bins k (hash_keys hl xs) vals fids"
  shows "\<exists>out g'. encode_table F k bins fids (map (map block_of) vals) =
        Inr (map (encoded F (table_entries vals fids)) [0..<k]) \<and>
      shuffle_rows draw k (length xs) (map (encoded F (table_entries vals fids)) [0..<k]) g =
        Inr (out, g') \<and> length out = k \<and>
      (\<forall>f<k. mset (map reduce (out ! f)) = mset (map (encoding hl loc F f) xs))"
proof -
  let ?rows = "map (encoded F (table_entries vals fids)) [0..<k]"
  have enc: "mset (?rows ! f) = mset (map (\<lambda>e. F (loc f e) (block_of (keys_xor_fun f e))) (hash_keys hl xs))"
    if "f < k" for f
    using encoded_mset [OF assms(2) that, of F] that by simp
  have "\<forall>f<k. length (?rows ! f) = length xs"
  proof (intro allI impI)
    fix f assume "f < k"
    from mset_eq_length [OF enc [OF this]] show "length (?rows ! f) = length xs" by simp
  qed
  from shuffle_rows_result [OF assms(1) _ this, of g] obtain out g' where
    out: "shuffle_rows draw k (length xs) ?rows g = Inr (out, g')" "length out = k"
      "\<forall>f<k. mset (out ! f) = mset (?rows ! f)" by auto
  have "mset (map reduce (out ! f)) = mset (map (encoding hl loc F f) xs)" if "f < k" for f
  proof -
    have "mset (out ! f) = mset (map (\<lambda>e. F (loc f e) (block_of (keys_xor_fun f e))) (hash_keys hl xs))"
      using out(3) enc that by simp
    then have "mset (map reduce (out ! f)) =
        mset (map reduce (map (\<lambda>e. F (loc f e) (block_of (keys_xor_fun f e))) (hash_keys hl xs)))"
      by (simp only: mset_map)
    also have "map reduce (map (\<lambda>e. F (loc f e) (block_of (keys_xor_fun f e))) (hash_keys hl xs)) =
        map (encoding hl loc F f) xs"
      by (simp add: hash_keys_def encoding_def Let_def)
    finally show ?thesis .
  qed
  moreover have "encode_table F k bins fids (map (map block_of) vals) = Inr ?rows"
    using assms(2) simple_table_fids [OF assms(2)]
    by (intro encode_table_result) (simp_all add: simple_table_ok_def)
  ultimately show ?thesis using out by blast
qed

lemma cuckoo_facts:
  assumes "cuckoo_table_ok loc bins k (hash_keys hl ys) vals ids fids"
  defines "occ \<equiv> filter (\<lambda>b. fids ! b < k) [0..<bins]"
  shows "mset (map ((!) ids) occ) = mset [0..<length ys]" and "length ys \<le> bins"
    and "\<And>b e. b < bins \<Longrightarrow> fids ! b < k \<Longrightarrow>
      e = sha_256 hl (string_bytes (ys ! (ids ! b))) kItemBytesLen \<Longrightarrow> ids ! b < length ys \<and>
      vals ! b = keys_xor_fun (fids ! b) e \<and> loc (fids ! b) e = b"
proof -
  show perm: "mset (map ((!) ids) occ) = mset [0..<length ys]"
    using assms(1) by (simp add: cuckoo_table_ok_def occ_def)
  have "length ys = length occ"
    using mset_eq_length [OF perm] by simp
  also have "\<dots> \<le> bins"
    unfolding occ_def by (rule order_trans [OF length_filter_le]) simp
  finally show "length ys \<le> bins" .
  fix b e assume "b < bins" "fids ! b < k"
    "e = sha_256 hl (string_bytes (ys ! (ids ! b))) kItemBytesLen"
  with assms(1) show "ids ! b < length ys \<and>
      vals ! b = keys_xor_fun (fids ! b) e \<and> loc (fids ! b) e = b"
    by (auto simp: cuckoo_table_ok_def list_all_iff hash_keys_def)
qed

text \<open>Matching the sender's message gives the receiver its part of the intersection.\<close>

lemma receiver_matches:
  assumes cuckoo: "cuckoo_table_ok loc bins k (hash_keys hl ys) vals ids fids"
    and out: "length out = k" "\<forall>f<k. mset (map reduce (out ! f)) = mset (map (encoding hl loc F f) xs)"
    and masks: "masks = map (\<lambda>i. F i (map block_of vals ! i)) [0..<length (map block_of vals)]"
    and nc: "kkrt_no_collision hl loc F k xs ys" and "k * length xs < 2 ^ 64"
  shows "\<exists>marks. match_bins bins k (length xs) (map reduce (concat out)) fids ids masks =
      Inr (marks, length (intersection ys xs)) \<and>
    (\<forall>o'. collect_marked marks (length (intersection ys xs)) ys o' = Inr (intersection ys xs))"
proof -
  let ?rows = "map (map reduce) out"
  let ?h = "is_hit k ?rows fids masks"
  let ?occ = "filter (\<lambda>b. fids ! b < k) [0..<bins]"
  note facts = cuckoo_facts [OF cuckoo]
  have len: "length vals = bins" "length ids = bins" "length fids = bins"
    using cuckoo by (simp_all add: cuckoo_table_ok_def)
  have rows: "\<forall>r\<in>set ?rows. length r = length xs" "length ?rows = k"
  proof
    fix r assume "r \<in> set ?rows"
    then obtain f where "f < k" "r = map reduce (out ! f)" using out(1) by (auto simp: in_set_conv_nth)
    with out(2) show "length r = length xs" by (metis mset_eq_length length_map)
  qed (simp add: out(1))
  have "match_bins bins k (length xs) (concat ?rows) fids ids masks =
    Inr (map (\<lambda>i. i \<in> (!) ids ` set (filter ?h [0..<bins])) [0..<bins],
         length (filter ?h [0..<bins]))"
    using facts(2,3) by (intro match_bins_result rows assms(6)) (auto simp: len masks intro: order_less_le_trans)
  also have "filter ?h [0..<bins] = filter ?h ?occ"
    unfolding filter_filter by (rule filter_cong [OF refl]) (simp add: is_hit_def)
  finally have m: "match_bins bins k (length xs) (map reduce (concat out)) fids ids masks =
    Inr (map (\<lambda>i. i \<in> (!) ids ` set (filter ?h ?occ)) [0..<bins], length (filter ?h ?occ))"
    by (simp only: map_concat)
  have hit: "?h b \<longleftrightarrow> ys ! (ids ! b) \<in> set xs" if "b \<in> set ?occ" for b
  proof -
    from that have b: "b < bins" "fids ! b < k" by simp_all
    let ?y = "ys ! (ids ! b)"
    have y: "?y \<in> set ys" using facts(3) [OF b refl] by simp
    let ?e = "sha_256 hl (string_bytes ?y) kItemBytesLen"
    have "vals ! b = keys_xor_fun (fids ! b) ?e" "loc (fids ! b) ?e = b"
      using facts(3) [OF b refl] by auto
    then have "reduce (masks ! b) = encoding hl loc F (fids ! b) ?y"
      using b(1) len(1) by (simp add: masks encoding_def Let_def)
    moreover have "set (map reduce (out ! (fids ! b))) = encoding hl loc F (fids ! b) ` set xs"
      using out(2) b(2) by (metis mset_eq_setD set_map)
    ultimately have "?h b \<longleftrightarrow> encoding hl loc F (fids ! b) ?y \<in> encoding hl loc F (fids ! b) ` set xs"
      using b out(1) by (simp add: is_hit_def)
    also have "\<dots> \<longleftrightarrow> ?y \<in> set xs"
      using kkrt_no_collisionD [OF nc y _ b(2)] by auto
    finally show ?thesis .
  qed
  note c = collect_hits [OF facts(1,2) hit]
  show ?thesis
    unfolding m using c by auto
qed

lemma length_reduce: "length (reduce b) = kReduceStatisticsLen"
  by (simp add: reduce_def defines_simps)

lemma sender_message:
  assumes "length out = k" and "\<forall>f<k. length (out ! f) = n" and "k * n \<le> max_vectors"
  shows "size_mul k n = k * n" "k * n < 2 ^ 64"
    "size_mul (k * n) kReduceStatisticsLen = length (concat (map reduce (concat out)))"
    "length (concat (map reduce (concat out))) \<le> max_bytes"
    "unpack_keys (concat (map reduce (concat out))) kReduceStatisticsLen (k * n) =
       Inr (map reduce (concat out))"
proof -
  have "\<forall>r\<in>set out. length r = n" using assms(1,2) by (auto simp: in_set_conv_nth)
  then have c: "length (map reduce (concat out)) = k * n"
    using length_runs [of out n] assms(1) by simp
  have r: "\<forall>r\<in>set (map reduce (concat out)). length r = kReduceStatisticsLen"
    by (simp add: length_reduce)
  have l: "length (concat (map reduce (concat out))) = k * n * kReduceStatisticsLen"
    using length_concat_fixed [OF r] by (simp only: c)
  have b: "k * n * kReduceStatisticsLen \<le> max_bytes"
    using assms(3) by (simp add: max_vectors_def max_bytes_def defines_simps)
  show "length (concat (map reduce (concat out))) \<le> max_bytes" unfolding l by (rule b)
  have w: "k * n * kReduceStatisticsLen < 2 ^ 64" using b by (simp add: max_bytes_def)
  show n: "k * n < 2 ^ 64" using assms(3) by (simp add: max_vectors_def)
  show "size_mul k n = k * n" using n by (simp add: size_mul_def)
  show "size_mul (k * n) kReduceStatisticsLen = length (concat (map reduce (concat out)))"
    unfolding l using w by (simp add: size_mul_def)
  have "length (map reduce (concat out)) * kReduceStatisticsLen < 2 ^ 64" using w by (simp only: c)
  from unpack_concat [OF r this]
  show "unpack_keys (concat (map reduce (concat out))) kReduceStatisticsLen (k * n) =
      Inr (map reduce (concat out))" by (simp only: c)
qed

lemma kkrt_oprf_joint:
  assumes uni: "uniform_ok (prng_standard pl)" and pair: "kkrt_paired a b"
    and oprf: "oprf_ok ideal F a b"
    and tables: "kkrt_tables_ok hl loc bins (table_seed pl a) (k_num_of_fun a) xs ys"
    and stash: "cuckoo_stash_size hl bins (table_seed pl a) (k_num_of_fun a) (hash_keys hl ys) = 0"
    and sizes: "kkrt_sizes_ok bins (k_num_of_fun a) (length xs) (length ys)"
    and nc: "kkrt_no_collision hl loc F (k_num_of_fun a) xs ys"
  shows "\<exists>g marks.
    joint ideal (kkrt_sender_oprf hl pl a Net bins (hash_keys hl xs) (length xs))
      (kkrt_receiver_match hl pl b Net bins (hash_keys hl ys) (length xs))
      (a\<lparr>k_prng := g, k_common_prng := next_common pl a\<rparr>)
      (marks, length (intersection ys xs), b\<lparr>k_common_prng := next_common pl a\<rparr>) \<and>
    (\<forall>o'. collect_marked marks (length (intersection ys xs)) ys o' = Inr (intersection ys xs))"
proof -
  define k where "k = k_num_of_fun a"
  define seed where "seed = table_seed pl a"
  let ?n = "length xs"
  let ?vals = "bin_entry_values hl bins seed k (hash_keys hl xs)"
  let ?fids = "bin_entry_function_ids hl bins seed k (hash_keys hl xs)"
  let ?cvals = "cuckoo_values hl bins seed k (hash_keys hl ys)"
  let ?cids = "cuckoo_ids hl bins seed k (hash_keys hl ys)"
  let ?cfids = "cuckoo_function_ids hl bins seed k (hash_keys hl ys)"
  have simple: "simple_table_ok loc bins k (hash_keys hl xs) ?vals ?fids"
    and cuckoo: "cuckoo_table_ok loc bins k (hash_keys hl ys) ?cvals ?cids ?cfids"
    using tables by (simp_all add: kkrt_tables_ok_def k_def seed_def)
  have gen: "prng_generate pl (k_common_prng a) kRandSeedBytesLen = (seed, next_common pl a)"
    by (simp add: seed_def table_seed_def next_common_def)
  have pa: "k_common_prng b = k_common_prng a" "k_num_of_fun b = k"
    using pair by (simp_all add: kkrt_paired_def k_def)
  obtain out g where out:
      "encode_table F k bins ?fids (map (map block_of) ?vals) =
         Inr (map (encoded F (table_entries ?vals ?fids)) [0..<k])"
      "shuffle_rows (prng_standard pl) k ?n
         (map (encoded F (table_entries ?vals ?fids)) [0..<k]) (k_prng a) = Inr (out, g)"
      "length out = k" "\<forall>f<k. mset (map reduce (out ! f)) = mset (map (encoding hl loc F f) xs)"
    using sender_rows [OF uni simple, of F "k_prng a"] by blast
  have rows: "\<forall>f<k. length (out ! f) = ?n" using out(4) by (metis mset_eq_length length_map)
  have kn: "k * ?n \<le> max_vectors" and bins: "bins \<le> max_vectors" and km: "k \<le> max_vectors"
    using sizes by (simp_all add: kkrt_sizes_ok_def k_def)
  define data where "data = concat (map reduce (concat out))"
  note msg = sender_message [OF out(3) rows kn, folded data_def]
  define masks where "masks = map (\<lambda>i. F i (map block_of ?cvals ! i)) [0..<length (map block_of ?cvals)]"
  from receiver_matches [OF cuckoo out(3,4) masks_def nc [folded k_def] msg(2)] obtain marks where
    marks: "match_bins bins k ?n (map reduce (concat out)) ?cfids ?cids masks =
        Inr (marks, length (intersection ys xs))"
      "\<forall>o'. collect_marked marks (length (intersection ys xs)) ys o' = Inr (intersection ys xs)"
    by blast
  have "bins \<le> max_bits" using bins by (simp add: max_vectors_def max_bits_def)
  have "length ?vals = bins" "length ?cvals = bins"
    using simple cuckoo by (simp_all add: simple_table_ok_def cuckoo_table_ok_def)
  have ocall: "ideal (Nco_Ot_Send (k_choices a) (k_base_recv a) bins)
      (Nco_Ot_Receive (k_base_send b) (map block_of ?cvals)) =
      Some (Nco_Ot_Encoder F, Nco_Ot_Masks masks)"
    using oprf \<open>length ?cvals = bins\<close> unfolding oprf_ok_def masks_def by (metis length_map)
  have "reaches ideal
      (Conf (kkrt_sender_oprf hl pl a Net bins (hash_keys hl xs) ?n)
            (kkrt_receiver_match hl pl b Net bins (hash_keys hl ys) ?n) [] [])
      (Conf (Ret (a\<lparr>k_prng := g, k_common_prng := next_common pl a\<rparr>))
            (Ret (marks, length (intersection ys xs), b\<lparr>k_common_prng := next_common pl a\<rparr>)) [] [])"
    unfolding kkrt_sender_oprf_def kkrt_receiver_match_def pa gen k_def [symmetric] Let_def prod.case
      stash [folded k_def seed_def] net_ops_simps bindp.simps
  proof (rule reaches_send_b, rule reaches_recv_a_all, goal_cases)
    case 2
    have "reaches ideal (Conf (Send data (Ret x))
        (Recv (length data) (\<lambda>d. bindp (lift_res (unpack_keys d kReduceStatisticsLen (k * ?n))) (\<lambda>es.
           bindp (lift_res (match_bins bins k ?n es ?cfids ?cids masks)) (\<lambda>(ms, cnt).
             Ret (ms, cnt, y))))) [] [])
        (Conf (Ret x) (Ret (marks, length (intersection ys xs), y)) [] [])" for x y
      by (rule reaches_send_a, rule reaches_recv_b_all) (simp_all add: msg marks(1))
    then show ?case
      by (simp add: size_codec.dec_enc check_stash_def vec_size_ok bins km \<open>bins \<le> max_bits\<close>
           table_blocks_result \<open>length ?vals = bins\<close>)
         (rule reaches_call, rule ocall,
          simp add: out(1,2) msg kn vec_size_ok
            reduce_rows_result [OF out(3) rows, folded data_def])
  qed (simp add: size_codec.enc_width)
  with marks(2) show ?thesis unfolding joint_def by blast
qed

end
