(* ===== verification/Kkrt_Properties.thy ===== *)
theory Kkrt_Properties
  imports Kkrt_Correct
begin

text \<open>
  The properties of the KKRT protocol: initialisation, the two entry points, the failure of
  the cuckoo table, and what happens when the parties disagree on the one parameter that
  initialisation does not compare. A small hash library (keys hashed by padding, tables
  computed by enumeration) and an OPRF by addition serve the concrete instances.
\<close>

section \<open>The runs\<close>

lemma exchange_sizes_joint:
  "n < 2 ^ 64 \<Longrightarrow> m < 2 ^ 64 \<Longrightarrow>
     joint ideal (kkrt_exchange_sizes True Net n) (kkrt_exchange_sizes False Net m) (n, m) (n, m)"
  unfolding joint_def kkrt_exchange_sizes_def
  by (simp, rule reaches_send_b, simp, rule reaches_recv_a_all, simp add: size_codec.enc_width,
      rule reaches_send_a, simp, rule reaches_recv_b_all)
     (simp_all add: size_codec.enc_width size_codec.dec_enc)

text \<open>Everything a run relies on, for a sender with keys \<open>xs\<close> and a receiver with keys \<open>ys\<close>.\<close>

definition kkrt_run_ok ::
  "hash_lib \<Rightarrow> 'r prng_lib \<Rightarrow> (verse_request, verse_answer) ideal \<Rightarrow> (nat \<Rightarrow> item \<Rightarrow> nat) \<Rightarrow>
     (nat \<Rightarrow> block \<Rightarrow> block) \<Rightarrow> nat \<Rightarrow> 'r kkrt_psi \<Rightarrow> 'r kkrt_psi \<Rightarrow> string list \<Rightarrow> string list \<Rightarrow> bool" where
  "kkrt_run_ok hl pl ideal loc F bins a b xs ys \<longleftrightarrow>
     uniform_ok (prng_standard pl) \<and> kkrt_paired a b \<and> oprf_ok ideal F a b \<and>
     bins_for (length ys) (k_epsilon a) = Inr bins \<and>
     kkrt_tables_ok hl loc bins (table_seed pl a) (k_num_of_fun a) xs ys \<and>
     kkrt_sizes_ok bins (k_num_of_fun a) (length xs) (length ys)"

definition no_stash ::
  "hash_lib \<Rightarrow> 'r prng_lib \<Rightarrow> nat \<Rightarrow> 'r kkrt_psi \<Rightarrow> string list \<Rightarrow> bool" where
  "no_stash hl pl bins a ys \<longleftrightarrow>
     cuckoo_stash_size hl bins (table_seed pl a) (k_num_of_fun a) (hash_keys hl ys) = 0"

text \<open>The part of each party that both entry points share.\<close>

definition sender_head ::
  "hash_lib \<Rightarrow> 'r prng_lib \<Rightarrow> 'r kkrt_psi \<Rightarrow> string list \<Rightarrow> 'r kkrt_psi verse_proc" where
  "sender_head hl pl a xs =
     bindp (kkrt_exchange_sizes True Net (length xs)) (\<lambda>(n, m).
     bindp (lift_res (bins_for m (k_epsilon a))) (\<lambda>bs.
       kkrt_sender_oprf hl pl a Net bs (hash_keys hl xs) n))"

definition receiver_head ::
  "hash_lib \<Rightarrow> 'r prng_lib \<Rightarrow> 'r kkrt_psi \<Rightarrow> string list \<Rightarrow>
     (bool list \<times> nat \<times> 'r kkrt_psi) verse_proc" where
  "receiver_head hl pl b ys =
     bindp (kkrt_exchange_sizes False Net (length ys)) (\<lambda>(n, m).
     bindp (lift_res (bins_for m (k_epsilon b))) (\<lambda>bs.
       kkrt_receiver_match hl pl b Net bs (hash_keys hl ys) n))"

lemma heads_joint:
  assumes run: "kkrt_run_ok hl pl ideal loc F bins a b xs ys" and "no_stash hl pl bins a ys"
    and "kkrt_no_collision hl loc F (k_num_of_fun a) xs ys"
  shows "\<exists>g marks. joint ideal (sender_head hl pl a xs) (receiver_head hl pl b ys)
      (a\<lparr>k_prng := g, k_common_prng := next_common pl a\<rparr>)
      (marks, length (intersection ys xs), b\<lparr>k_common_prng := next_common pl a\<rparr>) \<and>
    (\<forall>o'. collect_marked marks (length (intersection ys xs)) ys o' = Inr (intersection ys xs))"
proof -
  from run have r: "uniform_ok (prng_standard pl)" "kkrt_paired a b" "oprf_ok ideal F a b"
      "bins_for (length ys) (k_epsilon a) = Inr bins"
      "kkrt_tables_ok hl loc bins (table_seed pl a) (k_num_of_fun a) xs ys"
      "kkrt_sizes_ok bins (k_num_of_fun a) (length xs) (length ys)"
    by (simp_all add: kkrt_run_ok_def)
  have eb: "bins_for (length ys) (k_epsilon b) = Inr bins"
    using r(2,4) by (simp add: kkrt_paired_def)
  have sz: "length xs < 2 ^ 64" "length ys < 2 ^ 64" using r(6) by (simp_all add: kkrt_sizes_ok_def)
  from kkrt_oprf_joint [OF r(1-3,5) assms(2)[unfolded no_stash_def] r(6) assms(3)]
  obtain g marks where m:
    "joint ideal (kkrt_sender_oprf hl pl a Net bins (hash_keys hl xs) (length xs))
      (kkrt_receiver_match hl pl b Net bins (hash_keys hl ys) (length xs))
      (a\<lparr>k_prng := g, k_common_prng := next_common pl a\<rparr>)
      (marks, length (intersection ys xs), b\<lparr>k_common_prng := next_common pl a\<rparr>)"
    "\<forall>o'. collect_marked marks (length (intersection ys xs)) ys o' = Inr (intersection ys xs)"
    by blast
  have "joint ideal (sender_head hl pl a xs) (receiver_head hl pl b ys)
      (a\<lparr>k_prng := g, k_common_prng := next_common pl a\<rparr>)
      (marks, length (intersection ys xs), b\<lparr>k_common_prng := next_common pl a\<rparr>)"
    unfolding sender_head_def receiver_head_def
    by (rule joint_bindp [OF exchange_sizes_joint [OF sz]]) (simp add: r(4) eb m(1))
  with m(2) show ?thesis by blast
qed

lemma bindp_case_prod: "bindp (case p of (x, y) \<Rightarrow> f x y) k = (case p of (x, y) \<Rightarrow> bindp (f x y) k)"
  by (cases p) simp

lemma kkrt_process_roles:
  "k_is_sender a \<Longrightarrow> kkrt_process hl pl a Net xs out =
     bindp (sender_head hl pl a xs) (\<lambda>self'.
       if k_sender_obtain_result a
       then bindp (recv_data Net 8) (\<lambda>b.
            bindp (lift_res (vec_create max_bytes (size_t_of b))) (\<lambda>_.
            bindp (recv_data Net (size_t_of b)) (\<lambda>serialized_key.
            bindp (lift_res (deserialize_string_from_char (bytes_string serialized_key) []))
              (\<lambda>out. Ret (out, self')))))
       else Ret (out, self'))"
  "\<not> k_is_sender b \<Longrightarrow> kkrt_process hl pl b Net ys out =
     bindp (receiver_head hl pl b ys) (\<lambda>(marks, cnt, self').
       bindp (lift_res (collect_marked marks cnt ys out)) (\<lambda>out.
       if k_sender_obtain_result b
       then let serialized_key = serialize_string_to_char out [] in
            bindp (send_data Net (size_t_bytes (length serialized_key))) (\<lambda>_.
            bindp (send_data Net (string_bytes serialized_key)) (\<lambda>_. Ret (out, self')))
       else Ret (out, self')))"
  by (simp_all add: kkrt_process_def sender_head_def receiver_head_def Let_def bindp_assoc
      bindp_case_prod)

lemma kkrt_cardinality_roles:
  "k_is_sender a \<Longrightarrow> kkrt_process_cardinality_only hl pl a Net xs =
     bindp (sender_head hl pl a xs) (\<lambda>self'.
       if k_sender_obtain_result a
       then bindp (recv_data Net 8) (\<lambda>b. Ret (size_t_of b, self')) else Ret (0, self'))"
  "\<not> k_is_sender b \<Longrightarrow> kkrt_process_cardinality_only hl pl b Net ys =
     bindp (receiver_head hl pl b ys) (\<lambda>(marks, cnt, self').
       if k_sender_obtain_result b
       then bindp (send_data Net (size_t_bytes cnt)) (\<lambda>_. Ret (cnt, self')) else Ret (cnt, self'))"
  by (simp_all add: kkrt_process_cardinality_only_def sender_head_def receiver_head_def Let_def
      bindp_assoc bindp_case_prod)

lemma kkrt_paired_next:
  "kkrt_paired a b \<Longrightarrow>
     kkrt_paired (a\<lparr>k_prng := g, k_common_prng := c\<rparr>) (b\<lparr>k_common_prng := c\<rparr>)"
  by (simp add: kkrt_paired_def)

text \<open>Keys that travel back to the sender: no NUL, and together within one buffer.\<close>

definition transferable :: "string list \<Rightarrow> bool" where
  "transferable ys \<longleftrightarrow> list_all (\<lambda>y. nul \<notin> set y \<and> length y \<le> int_max) ys \<and>
     length (serialize_string_to_char ys []) \<le> max_bytes"

lemma transferable_intersection:
  assumes "transferable ys"
  shows "transferable (intersection ys xs)"
proof -
  have "length (serialize_string_to_char (intersection ys xs) []) \<le>
      length (serialize_string_to_char ys [])"
    unfolding serialize_concat intersection_def by (induction ys) simp_all
  with assms show ?thesis by (auto simp: transferable_def list_all_iff intersection_def)
qed

lemma send_result_joint:
  assumes "transferable zs"
  shows "joint ideal
    (bindp (recv_data Net 8) (\<lambda>b.
       bindp (lift_res (vec_create max_bytes (size_t_of b))) (\<lambda>_.
       bindp (recv_data Net (size_t_of b)) (\<lambda>serialized_key.
       bindp (lift_res (deserialize_string_from_char (bytes_string serialized_key) []))
         (\<lambda>out. Ret (out, u))))))
    (let serialized_key = serialize_string_to_char zs [] in
       bindp (send_data Net (size_t_bytes (length serialized_key))) (\<lambda>_.
       bindp (send_data Net (string_bytes serialized_key)) (\<lambda>_. Ret (zs, v))))
    (zs, u) (zs, v)"
proof -
  have l: "length (serialize_string_to_char zs []) \<le> max_bytes"
    and d: "deserialize_string_from_char (serialize_string_to_char zs []) [] = Inr zs"
    using assms deserialize_serialize [of zs "[]"] by (auto simp: transferable_def list_all_iff)
  then have "length (serialize_string_to_char zs []) < 2 ^ 64" by (simp add: max_bytes_def)
  note s = size_codec.enc_width [OF this] size_codec.dec_enc [OF this]
  have len: "length (string_bytes (serialize_string_to_char zs [])) =
      length (serialize_string_to_char zs [])" by (simp add: string_bytes_def)
  show ?thesis
    unfolding joint_def Let_def net_ops_simps bindp.simps
    by (rule reaches_send_b, simp, rule reaches_recv_a_all, simp add: s,
        simp add: s vec_size_ok l, rule reaches_send_b, rule reaches_recv_a_all)
       (simp_all add: len d)
qed

lemma send_count_joint:
  "c < 2 ^ 64 \<Longrightarrow>
     joint ideal (Recv 8 (\<lambda>b. Ret (size_t_of b, u))) (Send (size_t_bytes c) (Ret (c, v))) (c, u) (c, v)"
  unfolding joint_def
  by (rule reaches_send_b, simp, rule reaches_recv_a_all)
     (simp_all add: size_codec.enc_width size_codec.dec_enc)

section \<open>Concrete instances\<close>

definition toy_loc :: "nat \<Rightarrow> nat \<Rightarrow> item \<Rightarrow> nat" where
  "toy_loc bins j e = (unat (hd e) + j) mod bins"

definition toy_place :: "nat \<Rightarrow> item list \<Rightarrow> nat \<Rightarrow> nat option" where
  "toy_place bins keys b = List.find (\<lambda>i. toy_loc bins 0 (keys ! i) = b) [0..<length keys]"

definition toy_hash :: hash_lib where
  "toy_hash = \<lparr>sha_256 = (\<lambda>bs n. take n (bs @ replicate n 0)),
     bin_entry_values = (\<lambda>bins seed k keys. map (\<lambda>i. concat (map (\<lambda>e.
        map (\<lambda>j. keys_xor_fun j e) (filter (\<lambda>j. toy_loc bins j e = i) [0..<k])) keys)) [0..<bins]),
     bin_entry_function_ids = (\<lambda>bins seed k keys. map (\<lambda>i. concat (map (\<lambda>e.
        filter (\<lambda>j. toy_loc bins j e = i) [0..<k]) keys)) [0..<bins]),
     cuckoo_stash_size = (\<lambda>bins seed k keys.
        length keys - length (filter (\<lambda>b. toy_place bins keys b \<noteq> None) [0..<bins])),
     cuckoo_values = (\<lambda>bins seed k keys. map (\<lambda>b.
        case toy_place bins keys b of None \<Rightarrow> replicate 16 0 | Some i \<Rightarrow> keys ! i) [0..<bins]),
     cuckoo_ids = (\<lambda>bins seed k keys. map (\<lambda>b.
        case toy_place bins keys b of None \<Rightarrow> 0 | Some i \<Rightarrow> i) [0..<bins]),
     cuckoo_function_ids = (\<lambda>bins seed k keys. map (\<lambda>b.
        case toy_place bins keys b of None \<Rightarrow> k | Some i \<Rightarrow> 0) [0..<bins]),
     cuckoo_occupancy = (\<lambda>bins seed k keys. map (\<lambda>b. toy_place bins keys b \<noteq> None) [0..<bins]),
     cuckoo_source_values = (\<lambda>bins seed k keys. map (\<lambda>b.
        case toy_place bins keys b of None \<Rightarrow> replicate 16 0 | Some i \<Rightarrow> keys ! i) [0..<bins]),
     element_addresses = (\<lambda>bins seed k keys. concat (map (\<lambda>e. map (\<lambda>j. toy_loc bins j e) [0..<k]) keys))\<rparr>"

definition toy_prng :: "nat list prng_lib" where
  "toy_prng = \<lparr>prng_create = map unat, prng_generate = (\<lambda>g n. (map of_nat (take n (g @ replicate n 0)), drop n g)),
     prng_standard = replay\<rparr>"

definition toy_encode :: "nat \<Rightarrow> block \<Rightarrow> block" where
  "toy_encode i x = x + of_nat i"

fun toy_verse :: "(verse_request, verse_answer) ideal" where
  "toy_verse (Nco_Ot_Send c r n) (Nco_Ot_Receive s inputs) =
     (if n = length inputs
      then Some (Nco_Ot_Encoder toy_encode,
                 Nco_Ot_Masks (map (\<lambda>i. toy_encode i (inputs ! i)) [0..<n])) else None)"
| "toy_verse (Base_Ot_Receive cs) Base_Ot_Send =
     Some (Base_Ot_Received cs, Base_Ot_Sent (map (\<lambda>c. (c, c)) cs))"
| "toy_verse _ _ = None"

definition toy_kkrt :: "bool \<Rightarrow> bool \<Rightarrow> nat list kkrt_psi" where
  "toy_kkrt sender obtain = \<lparr>k_is_sender = sender, k_sender_obtain_result = obtain, k_verbose = False,
     k_prng = [1, 0], k_common_prng = [], k_choices = [], k_base_recv = [], k_base_send = [],
     k_epsilon = 0x3ff8000000000000, k_num_of_fun = 2\<rparr>"

abbreviation toy_xs :: "string list" where "toy_xs \<equiv> [''a'', ''d'']"
abbreviation toy_ys :: "string list" where "toy_ys \<equiv> [''b'', ''a'']"

lemma toy_bins: "bins_for 2 0x3ff8000000000000 = Inr 3"
  unfolding bins_for_def by (simp add: double_eval size_of_ceil_def)

abbreviation toy_item :: "byte \<Rightarrow> item" where "toy_item c \<equiv> c # replicate 15 0"

lemma toy_simple_entries:
  "table_entries (bin_entry_values toy_hash 3 seed 2 (hash_keys toy_hash toy_xs))
       (bin_entry_function_ids toy_hash 3 seed 2 (hash_keys toy_hash toy_xs)) =
     [(1, toy_item 97, 0), (1, toy_item 100, 0), (2, toy_item 96, 1), (2, toy_item 101, 1)]"
  "concat (map (\<lambda>e. map (\<lambda>j. (toy_loc 3 j e, keys_xor_fun j e, j)) [0..<2]) (hash_keys toy_hash toy_xs)) =
     [(1, toy_item 97, 0), (2, toy_item 96, 1), (1, toy_item 100, 0), (2, toy_item 101, 1)]"
  by code_simp+

lemma toy_simple_shape:
  "let vals = bin_entry_values toy_hash 3 seed 2 (hash_keys toy_hash toy_xs);
       fids = bin_entry_function_ids toy_hash 3 seed 2 (hash_keys toy_hash toy_xs)
   in length vals = 3 \<and> length fids = 3 \<and> map length fids = map length vals"
  by code_simp

lemma toy_cuckoo_shape:
  "let ids = cuckoo_ids toy_hash 3 seed 2 (hash_keys toy_hash toy_ys);
       fids = cuckoo_function_ids toy_hash 3 seed 2 (hash_keys toy_hash toy_ys);
       vals = cuckoo_values toy_hash 3 seed 2 (hash_keys toy_hash toy_ys)
   in length vals = 3 \<and> length ids = 3 \<and> length fids = 3 \<and>
     list_all (\<lambda>b. fids ! b < 2 \<longrightarrow> ids ! b < length (hash_keys toy_hash toy_ys) \<and>
        vals ! b = keys_xor_fun (fids ! b) (hash_keys toy_hash toy_ys ! (ids ! b)) \<and>
        toy_loc 3 (fids ! b) (hash_keys toy_hash toy_ys ! (ids ! b)) = b) [0..<3] \<and>
     map ((!) ids) (filter (\<lambda>b. fids ! b < 2) [0..<3]) = [1, 0] \<and>
     [0..<length (hash_keys toy_hash toy_ys)] = [0, 1]"
  by code_simp

lemma mset_swap4: "mset [p, q, r, s] = mset [p, r, q, s]"
  by simp

lemma toy_tables: "kkrt_tables_ok toy_hash (toy_loc 3) 3 seed 2 toy_xs toy_ys"
proof -
  have "mset (table_entries (bin_entry_values toy_hash 3 seed 2 (hash_keys toy_hash toy_xs))
       (bin_entry_function_ids toy_hash 3 seed 2 (hash_keys toy_hash toy_xs))) =
     mset (concat (map (\<lambda>e. map (\<lambda>j. (toy_loc 3 j e, keys_xor_fun j e, j)) [0..<2]) (hash_keys toy_hash toy_xs)))"
    unfolding toy_simple_entries by (rule mset_swap4)
  moreover have "mset [1, 0] = mset [0, 1 :: nat]" by simp
  ultimately show ?thesis
    using toy_simple_shape [of seed] toy_cuckoo_shape [of seed]
    unfolding kkrt_tables_ok_def simple_table_ok_def cuckoo_table_ok_def Let_def by metis
qed

lemma toy_no_stash: "no_stash toy_hash toy_prng 3 (toy_kkrt True True) toy_ys"
  by code_simp

lemma take_le_bytes: "take m (le_bytes w n) = le_bytes (min m w) n"
proof (induction w arbitrary: m n)
  case (Suc w)
  then show ?case by (cases m) simp_all
qed simp

lemma le_nat_zeros: "le_nat (replicate m 0) = 0"
  by (induction m) simp_all

lemma toy_encoding:
  "encoding toy_hash (toy_loc 3) toy_encode j [c] =
     le_bytes 12 (unat (of_char c XOR of_nat j :: byte) + (unat (of_char c :: byte) + j) mod 3)"
proof -
  let ?n = "unat (of_char c XOR of_nat j :: byte) + (unat (of_char c :: byte) + j) mod 3"
  have item: "take 16 (of_char c # replicate 16 0) = toy_item (of_char c)"
    by (simp add: take_Cons')
  have "unat (of_char c XOR of_nat j :: byte) < 256"
    using unsigned_less [of "of_char c XOR of_nat j :: byte", where ?'a = nat] by simp
  then have "?n < 2 ^ 128" by (simp add: less_trans [of _ "256 + 3"])
  have "encoding toy_hash (toy_loc 3) toy_encode j [c] = reduce (of_nat ?n)"
    using item
    by (simp add: encoding_def toy_hash_def string_bytes_def defines_simps Let_def toy_encode_def
        toy_loc_def block_of_def le_nat_zeros keys_xor_fun_def)
  also have "\<dots> = le_bytes 12 (?n mod 2 ^ 128)"
    unfolding reduce_def block_bytes_def unat_of_nat
    by (simp add: take_le_bytes defines_simps)
  also have "?n mod 2 ^ 128 = ?n" using \<open>?n < 2 ^ 128\<close> by (rule mod_less)
  finally show ?thesis .
qed

lemma le_bytes_inject:
  assumes "m < 256 ^ w" and "n < 256 ^ w"
  shows "le_bytes w m = le_bytes w n \<longleftrightarrow> m = n"
  by (metis assms le_nat_le_bytes mod_less)

lemma toy_chars:
  "unat (of_char CHR ''a'' :: byte) = 97" "unat (of_char CHR ''b'' :: byte) = 98"
  "unat (of_char CHR ''d'' :: byte) = 100"
  by code_simp+

lemma toy_nc: "kkrt_no_collision toy_hash (toy_loc 3) toy_encode 2 toy_xs toy_ys"
proof -
  have "set [0..<2] = {0, 1 :: nat}" by auto
  then show ?thesis
    unfolding kkrt_no_collision_def list_all_iff
    by (simp add: toy_encoding toy_chars le_bytes_inject)
qed

lemma toy_uniform: "uniform_ok (prng_standard toy_prng)"
  by (simp add: toy_prng_def uniform_ok_replay)

lemma toy_oprf: "oprf_ok toy_verse toy_encode (toy_kkrt True o1) (toy_kkrt False o2)"
  by (simp add: oprf_ok_def)

lemma toy_flag: "k_sender_obtain_result (toy_kkrt s f) = f"
  by (simp add: toy_kkrt_def)

lemma toy_run_ok:
  "kkrt_run_ok toy_hash toy_prng toy_verse (toy_loc 3) toy_encode 3
     (toy_kkrt True o1) (toy_kkrt False o2) toy_xs toy_ys"
  using toy_uniform toy_oprf [unfolded toy_kkrt_def] toy_bins [unfolded numeral_2_eq_2] toy_tables
  by (simp add: kkrt_run_ok_def kkrt_paired_def toy_kkrt_def kkrt_sizes_ok_def max_vectors_def)

lemma toy_kkrt_no_stash: "no_stash toy_hash toy_prng 3 (toy_kkrt True o1) toy_ys"
  using toy_no_stash by (simp add: no_stash_def table_seed_def toy_kkrt_def)

lemma toy_kkrt_nc:
  "kkrt_no_collision toy_hash (toy_loc 3) toy_encode (k_num_of_fun (toy_kkrt True o1)) toy_xs toy_ys"
  using toy_nc by (simp add: toy_kkrt_def)

section \<open>What two honest parties compute\<close>

lemma kkrt_process_joint:
  assumes run: "kkrt_run_ok hl pl ideal loc F bins a b xs ys" and "no_stash hl pl bins a ys"
    and "kkrt_no_collision hl loc F (k_num_of_fun a) xs ys"
    and flag: "k_sender_obtain_result a = k_sender_obtain_result b" and tr: "transferable ys"
  shows "\<exists>g. joint ideal (kkrt_process hl pl a Net xs oa) (kkrt_process hl pl b Net ys ob)
      (if k_sender_obtain_result a then intersection ys xs else oa,
       a\<lparr>k_prng := g, k_common_prng := next_common pl a\<rparr>)
      (intersection ys xs, b\<lparr>k_common_prng := next_common pl a\<rparr>)"
proof -
  from run have "kkrt_paired a b" by (simp add: kkrt_run_ok_def)
  then have roles: "k_is_sender a" "\<not> k_is_sender b" by (simp_all add: kkrt_paired_def)
  from heads_joint [OF assms(1-3)] obtain g marks where
    m: "joint ideal (sender_head hl pl a xs) (receiver_head hl pl b ys)
      (a\<lparr>k_prng := g, k_common_prng := next_common pl a\<rparr>)
      (marks, length (intersection ys xs), b\<lparr>k_common_prng := next_common pl a\<rparr>)"
    and coll: "\<forall>o'. collect_marked marks (length (intersection ys xs)) ys o' =
      Inr (intersection ys xs)" by blast
  show ?thesis
    unfolding kkrt_process_roles(1) [OF roles(1)] kkrt_process_roles(2) [OF roles(2)]
    by (rule exI [of _ g], rule joint_bindp [OF m])
       (simp add: flag coll joint_Ret send_result_joint [OF transferable_intersection [OF tr], simplified])
qed

text \<open>C3: Two paired parties whose hash tables leave no stash end, under every schedule, with the
  receiver holding its keys that the sender also has, and the sender holding the same list when
  it obtains the result and its output vector untouched when it does not. Both objects have
  advanced their common generator in step, so they are paired for the next run.\<close>

theorem kkrt_process_correct:
  assumes run: "kkrt_run_ok hl pl ideal loc F bins a b xs ys" and "no_stash hl pl bins a ys"
    and "kkrt_no_collision hl loc F (k_num_of_fun a) xs ys"
    and flag: "k_sender_obtain_result a = k_sender_obtain_result b" and tr: "transferable ys"
  shows "\<exists>a' b'. kkrt_paired a' b' \<and>
    outcomes ideal (start (kkrt_process hl pl a Net xs oa) (kkrt_process hl pl b Net ys ob)) =
      {Conf (Ret (if k_sender_obtain_result a then intersection ys xs else oa, a'))
            (Ret (intersection ys xs, b')) [] []}"
proof -
  from run have "kkrt_paired a b" by (simp add: kkrt_run_ok_def)
  note next_pair = kkrt_paired_next [OF this]
  from kkrt_process_joint [OF assms, of oa ob] obtain g where
    "joint ideal (kkrt_process hl pl a Net xs oa) (kkrt_process hl pl b Net ys ob)
      (if k_sender_obtain_result a then intersection ys xs else oa,
       a\<lparr>k_prng := g, k_common_prng := next_common pl a\<rparr>)
      (intersection ys xs, b\<lparr>k_common_prng := next_common pl a\<rparr>)" by blast
  from joint_outcomes [OF this] next_pair show ?thesis by blast
qed

lemma toy_intersection: "intersection toy_ys toy_xs = [''a'']"
  by (simp add: intersection_def)

lemma toy_transferable: "transferable toy_ys"
  by (simp add: transferable_def serialize_concat int_max_def max_bytes_def)

theorem kkrt_process_correct_witness:
  "\<exists>a' b'. kkrt_paired a' b' \<and>
    outcomes toy_verse (start (kkrt_process toy_hash toy_prng (toy_kkrt True True) Net toy_xs [])
                              (kkrt_process toy_hash toy_prng (toy_kkrt False True) Net toy_ys [])) =
      {Conf (Ret ([''a''], a')) (Ret ([''a''], b')) [] []}"
  using kkrt_process_correct [OF toy_run_ok toy_kkrt_no_stash toy_kkrt_nc _ toy_transferable,
      of True True "[]" "[]"]
  by (simp add: toy_intersection toy_flag)

lemma kkrt_cardinality_joint:
  assumes run: "kkrt_run_ok hl pl ideal loc F bins a b xs ys" and "no_stash hl pl bins a ys"
    and "kkrt_no_collision hl loc F (k_num_of_fun a) xs ys"
    and flag: "k_sender_obtain_result a = k_sender_obtain_result b"
  shows "\<exists>g. joint ideal (kkrt_process_cardinality_only hl pl a Net xs)
      (kkrt_process_cardinality_only hl pl b Net ys)
      (if k_sender_obtain_result a then length (intersection ys xs) else 0,
       a\<lparr>k_prng := g, k_common_prng := next_common pl a\<rparr>)
      (length (intersection ys xs), b\<lparr>k_common_prng := next_common pl a\<rparr>)"
proof -
  from run have pair: "kkrt_paired a b" and "length ys < 2 ^ 64"
    by (simp_all add: kkrt_run_ok_def kkrt_sizes_ok_def)
  have "length (intersection ys xs) \<le> length ys" by (simp add: intersection_def)
  then have small: "length (intersection ys xs) < 2 ^ 64"
    using \<open>length ys < 2 ^ 64\<close> by (rule order_le_less_trans)
  from pair have roles: "k_is_sender a" "\<not> k_is_sender b" by (simp_all add: kkrt_paired_def)
  from heads_joint [OF assms(1-3)] obtain g marks where
    m: "joint ideal (sender_head hl pl a xs) (receiver_head hl pl b ys)
      (a\<lparr>k_prng := g, k_common_prng := next_common pl a\<rparr>)
      (marks, length (intersection ys xs), b\<lparr>k_common_prng := next_common pl a\<rparr>)" by blast
  show ?thesis
    unfolding kkrt_cardinality_roles(1) [OF roles(1)] kkrt_cardinality_roles(2) [OF roles(2)]
    by (rule exI [of _ g], rule joint_bindp [OF m]) (simp add: flag joint_Ret send_count_joint [OF small])
qed

text \<open>C14: In the cardinality mode the receiver returns the size of the intersection, and the sender
  returns it too or zero according to the flag.\<close>

theorem kkrt_cardinality_correct:
  assumes run: "kkrt_run_ok hl pl ideal loc F bins a b xs ys" and "no_stash hl pl bins a ys"
    and "kkrt_no_collision hl loc F (k_num_of_fun a) xs ys"
    and flag: "k_sender_obtain_result a = k_sender_obtain_result b"
  shows "\<exists>a' b'. kkrt_paired a' b' \<and>
    outcomes ideal (start (kkrt_process_cardinality_only hl pl a Net xs)
                          (kkrt_process_cardinality_only hl pl b Net ys)) =
      {Conf (Ret (if k_sender_obtain_result a then length (intersection ys xs) else 0, a'))
            (Ret (length (intersection ys xs), b')) [] []}"
proof -
  from run have "kkrt_paired a b" by (simp add: kkrt_run_ok_def)
  note next_pair = kkrt_paired_next [OF this]
  from kkrt_cardinality_joint [OF assms] obtain g where
    "joint ideal (kkrt_process_cardinality_only hl pl a Net xs)
      (kkrt_process_cardinality_only hl pl b Net ys)
      (if k_sender_obtain_result a then length (intersection ys xs) else 0,
       a\<lparr>k_prng := g, k_common_prng := next_common pl a\<rparr>)
      (length (intersection ys xs), b\<lparr>k_common_prng := next_common pl a\<rparr>)" by blast
  from joint_outcomes [OF this] next_pair show ?thesis by blast
qed

theorem kkrt_cardinality_correct_witness:
  "\<exists>a' b'. kkrt_paired a' b' \<and>
    outcomes toy_verse
      (start (kkrt_process_cardinality_only toy_hash toy_prng (toy_kkrt True False) Net toy_xs)
             (kkrt_process_cardinality_only toy_hash toy_prng (toy_kkrt False False) Net toy_ys)) =
      {Conf (Ret (0, a')) (Ret (1, b')) [] []}"
  using kkrt_cardinality_correct [OF toy_run_ok toy_kkrt_no_stash toy_kkrt_nc, of False False]
  by (simp add: toy_intersection toy_flag)

section \<open>A cuckoo table with a stash\<close>

lemma heads_stash:
  assumes "bins_for (length ys) (k_epsilon a) = Inr bins" and "k_epsilon b = k_epsilon a"
    and "length xs < 2 ^ 64" and "length ys < 2 ^ 64"
    and "s = cuckoo_stash_size hl bins (table_seed pl b) (k_num_of_fun b) (hash_keys hl ys)"
    and "0 < s" and "s < 2 ^ 64"
  shows "reaches ideal (Conf (sender_head hl pl a xs) (receiver_head hl pl b ys) [] [])
    (Conf (Throw (Invalid_Argument ''stash of size is not zero.''))
          (Throw (Invalid_Argument ''stash of size is not zero.'')) [] [])"
  unfolding sender_head_def receiver_head_def
  by (rule joint_reaches_seq [OF exchange_sizes_joint [OF assms(3,4)]],
      simp add: assms(1,2) kkrt_sender_oprf_def kkrt_receiver_match_def Let_def
        case_prod_beta table_seed_def [symmetric] assms(5) [symmetric],
      rule reaches_send_b, rule reaches_recv_a_all, simp add: size_codec.enc_width [OF assms(7)])
     (simp add: size_codec.dec_enc [OF assms(7)] assms(6) check_stash_def)

text \<open>C33: When the receiver's cuckoo table needs a stash, both parties stop with the same exception
  before anything that depends on the sender's keys is sent.\<close>

theorem kkrt_stash_fails:
  assumes "kkrt_paired a b" and "bins_for (length ys) (k_epsilon a) = Inr bins"
    and "length xs < 2 ^ 64" and "length ys < 2 ^ 64"
    and "cuckoo_stash_size hl bins (table_seed pl b) (k_num_of_fun b) (hash_keys hl ys) = s"
    and "0 < s" and "s < 2 ^ 64"
  shows "outcomes ideal (start (kkrt_process hl pl a Net xs oa) (kkrt_process hl pl b Net ys ob)) =
    {Conf (Throw (Invalid_Argument ''stash of size is not zero.''))
          (Throw (Invalid_Argument ''stash of size is not zero.'')) [] []}"
proof -
  from assms(1) have roles: "k_is_sender a" "\<not> k_is_sender b" "k_epsilon b = k_epsilon a"
    by (simp_all add: kkrt_paired_def)
  show ?thesis
    unfolding start_def kkrt_process_roles(1) [OF roles(1)] kkrt_process_roles(2) [OF roles(2)]
    by (rule outcomes_eqI,
        rule reaches_seq [OF heads_stash [OF assms(2) roles(3) assms(3,4) assms(5) [symmetric] assms(6,7)]])
       simp_all
qed

text \<open>Three keys whose first candidate bins collide.\<close>

lemma toy_stash:
  "cuckoo_stash_size toy_hash 3 seed 2 (hash_keys toy_hash [''a'', ''d'']) = 1"
  by code_simp

theorem kkrt_stash_fails_witness:
  "outcomes toy_verse
     (start (kkrt_process toy_hash toy_prng (toy_kkrt True True) Net toy_xs [])
            (kkrt_process toy_hash toy_prng (toy_kkrt False True) Net [''a'', ''d''] [])) =
   {Conf (Throw (Invalid_Argument ''stash of size is not zero.''))
         (Throw (Invalid_Argument ''stash of size is not zero.'')) [] []}"
proof (rule kkrt_stash_fails)
  show "kkrt_paired (toy_kkrt True True) (toy_kkrt False True)"
    by (simp add: kkrt_paired_def toy_kkrt_def)
  show "bins_for (length [''a'', ''d'']) (k_epsilon (toy_kkrt True True)) = Inr 3"
    using toy_bins [unfolded numeral_2_eq_2] by (simp add: toy_kkrt_def)
  show "cuckoo_stash_size toy_hash 3 (table_seed toy_prng (toy_kkrt False True))
      (k_num_of_fun (toy_kkrt False True)) (hash_keys toy_hash [''a'', ''d'']) = 1"
    using toy_stash by (simp add: toy_kkrt_def)
qed simp_all

section \<open>Parties that disagree on who obtains the result\<close>

text \<open>C34: Initialisation does not compare \<open>sender_obtain_result\<close>. When only the sender's object has
  it set, the receiver returns its result and the sender waits for a message that never
  comes.\<close>

theorem kkrt_flag_mismatch_blocks:
  assumes run: "kkrt_run_ok hl pl ideal loc F bins a b xs ys" and "no_stash hl pl bins a ys"
    and "kkrt_no_collision hl loc F (k_num_of_fun a) xs ys"
    and "k_sender_obtain_result a" and "\<not> k_sender_obtain_result b"
  shows "\<exists>k b'. outcomes ideal
      (start (kkrt_process hl pl a Net xs oa) (kkrt_process hl pl b Net ys ob)) =
    {Conf (Recv 8 k) (Ret (intersection ys xs, b')) [] []}"
proof -
  from run have pair: "kkrt_paired a b" by (simp add: kkrt_run_ok_def)
  then have roles: "k_is_sender a" "\<not> k_is_sender b" by (simp_all add: kkrt_paired_def)
  from heads_joint [OF assms(1-3)] obtain g marks where
    m: "joint ideal (sender_head hl pl a xs) (receiver_head hl pl b ys)
      (a\<lparr>k_prng := g, k_common_prng := next_common pl a\<rparr>)
      (marks, length (intersection ys xs), b\<lparr>k_common_prng := next_common pl a\<rparr>)"
    and coll: "\<forall>o'. collect_marked marks (length (intersection ys xs)) ys o' =
      Inr (intersection ys xs)" by blast
  have blocked: "stuck ideal (Conf (Recv 8 k) (Ret r) [] [])" for k r
    by (auto simp: stuck_def elim: net_stepE)
  show ?thesis
    unfolding start_def kkrt_process_roles(1) [OF roles(1)] kkrt_process_roles(2) [OF roles(2)]
    by (intro exI, rule outcomes_eqI, rule joint_reaches_seq [OF m], simp add: assms(4,5) coll,
        rule rtranclp.rtrancl_refl, rule blocked)
qed

theorem kkrt_flag_mismatch_blocks_witness:
  "\<exists>k b'. outcomes toy_verse
      (start (kkrt_process toy_hash toy_prng (toy_kkrt True True) Net toy_xs [])
             (kkrt_process toy_hash toy_prng (toy_kkrt False False) Net toy_ys [])) =
    {Conf (Recv 8 k) (Ret (intersection toy_ys toy_xs, b')) [] []}"
  by (rule kkrt_flag_mismatch_blocks [OF toy_run_ok toy_kkrt_no_stash toy_kkrt_nc])
     (simp_all add: toy_flag)

section \<open>Initialisation\<close>

definition kkrt_configured ::
  "('j, double) json_lib \<Rightarrow> 'j \<Rightarrow> bool \<Rightarrow> bool \<Rightarrow> double \<Rightarrow> nat \<Rightarrow> bool \<Rightarrow> bool" where
  "kkrt_configured js params verb sender epsilon fun_num obtain \<longleftrightarrow>
     get_bool js params ''common'' ''verbose'' = Inr verb \<and>
     get_bool js params ''common'' ''is_sender'' = Inr sender \<and>
     get_double js params ''kkrt_psi_params'' ''epsilon'' = Inr epsilon \<and>
     get_size js params ''kkrt_psi_params'' ''fun_num'' = Inr fun_num \<and>
     get_bool js params ''kkrt_psi_params'' ''sender_obtain_result'' = Inr obtain"

lemma common_seed_joint:
  "joint ideal (common_seed Net x) (common_seed Net y)
     (take kRandSeedBytesLen (block_bytes (x XOR y))) (take kRandSeedBytesLen (block_bytes (x XOR y)))"
  unfolding joint_def common_seed_def
  by (simp, rule reaches_send_a, rule reaches_send_b, simp, rule reaches_recv_a_all, simp,
      rule reaches_recv_b_all) (simp_all add: block_codec.dec_enc xor.commute)

text \<open>The choice bits the sender draws, and the seed both parties derive from their two draws.\<close>

definition drawn_choices :: "'r prng_lib \<Rightarrow> 'r \<Rightarrow> block list" where
  "drawn_choices pl g = blocks_of 4 (fst (prng_generate pl g 64))"

definition agreed_seed :: "'r prng_lib \<Rightarrow> 'r \<Rightarrow> 'r \<Rightarrow> byte list" where
  "agreed_seed pl ga gb = take kRandSeedBytesLen (block_bytes
     (block_of (fst (prng_generate pl ga 16)) XOR block_of (fst (prng_generate pl gb 16))))"

lemma setup_ots_joint:
  assumes "\<And>choices. \<exists>recv send. ideal (Base_Ot_Receive choices) Base_Ot_Send =
           Some (Base_Ot_Received recv, Base_Ot_Sent send)"
  shows "\<exists>recv send. ideal (Base_Ot_Receive (drawn_choices pl ga)) Base_Ot_Send =
        Some (Base_Ot_Received recv, Base_Ot_Sent send) \<and>
      joint ideal (kkrt_setup_ots pl True Net ga) (kkrt_setup_ots pl False Net gb)
        (drawn_choices pl ga, recv, [], snd (prng_generate pl ga 64)) ([], [], send, gb)"
proof -
  obtain rc ga' where c: "prng_generate pl ga 64 = (rc, ga')" by (metis surj_pair)
  obtain recv send where ot: "ideal (Base_Ot_Receive (blocks_of 4 rc)) Base_Ot_Send =
      Some (Base_Ot_Received recv, Base_Ot_Sent send)" using assms by blast
  have "joint ideal (kkrt_setup_ots pl True Net ga) (kkrt_setup_ots pl False Net gb)
      (blocks_of 4 rc, recv, [], ga') ([], [], send, gb)"
    unfolding kkrt_setup_ots_def c
    by (simp add: Let_def, rule joint_call, rule ot) (simp add: joint_Ret)
  with c ot show ?thesis by (auto simp: drawn_choices_def)
qed

lemma kkrt_init_joint:
  assumes "kkrt_configured js pa va True eps n oa" and "kkrt_configured js pb vb False eps n ob"
    and "\<not> double_ne eps eps" and "n < 2 ^ 64"
    and "\<And>choices. \<exists>recv send. ideal (Base_Ot_Receive choices) Base_Ot_Send =
           Some (Base_Ot_Received recv, Base_Ot_Sent send)"
  shows "\<exists>a b. joint ideal (kkrt_init js pl ga Net pa) (kkrt_init js pl gb Net pb) a b \<and>
    kkrt_paired a b \<and> k_sender_obtain_result a = oa \<and> k_sender_obtain_result b = ob \<and>
    k_num_of_fun a = n \<and> k_epsilon a = eps \<and> k_common_prng a = prng_create pl (agreed_seed pl ga gb) \<and>
    k_choices a = drawn_choices pl (snd (prng_generate pl ga 16)) \<and>
    ideal (Base_Ot_Receive (k_choices a)) Base_Ot_Send =
      Some (Base_Ot_Received (k_base_recv a), Base_Ot_Sent (k_base_send b))"
proof -
  obtain ra ga' rb gb' where g: "prng_generate pl ga 16 = (ra, ga')" "prng_generate pl gb 16 = (rb, gb')"
    by (metis surj_pair)
  let ?choices = "drawn_choices pl ga'" and ?g = "snd (prng_generate pl ga' 64)"
  obtain recv send where ot: "ideal (Base_Ot_Receive ?choices) Base_Ot_Send =
      Some (Base_Ot_Received recv, Base_Ot_Sent send)"
    and ots: "joint ideal (kkrt_setup_ots pl True Net ga') (kkrt_setup_ots pl False Net gb')
      (?choices, recv, [], ?g) ([], [], send, gb')"
    using setup_ots_joint [where ideal = ideal and pl = pl, OF assms(5)] by blast
  let ?seed = "take kRandSeedBytesLen (block_bytes (block_of ra XOR block_of rb))"
  let ?obj = "\<lambda>s o' v g cs r sd. \<lparr>k_is_sender = s, k_sender_obtain_result = o', k_verbose = v,
      k_prng = g, k_common_prng = prng_create pl ?seed, k_choices = cs, k_base_recv = r,
      k_base_send = sd, k_epsilon = eps, k_num_of_fun = n\<rparr>"
  have check: "joint ideal (kkrt_check_params True eps n Net) (kkrt_check_params False eps n Net) () ()"
    unfolding kkrt_check_params_def
    by (intro joint_bindp [OF double_param.consistency_agree] size_param.consistency_agree)
       (use assms(3,4) in simp_all)
  have "joint ideal (kkrt_init js pl ga Net pa) (kkrt_init js pl gb Net pb)
      (?obj True oa va ?g ?choices recv []) (?obj False ob vb gb' [] [] send)"
    using assms(1,2) unfolding kkrt_configured_def kkrt_init_def
    by (simp add: g, intro joint_bindp [OF check] joint_bindp [OF common_seed_joint]
          joint_bindp [OF ots]) (simp add: joint_Ret)
  with ot show ?thesis
    by (intro exI [of _ "?obj True oa va ?g ?choices recv []"]
          exI [of _ "?obj False ob vb gb' [] [] send"] conjI) (simp_all add: kkrt_paired_def agreed_seed_def g)
qed

text \<open>C25: Parties with the same expansion factor and number of hash functions, whose base transfers
  succeed, finish initialisation with the generator seeded by both parties' draws, with the
  parameters of their configurations and each with its own \<open>sender_obtain_result\<close>, compared or not.
  The sender keeps the choices it drew and what the base transfers returned for them, the receiver
  the pairs of the same run of the transfers.\<close>

theorem kkrt_init_agrees:
  assumes "kkrt_configured js pa va True eps n oa" and "kkrt_configured js pb vb False eps n ob"
    and "\<not> double_ne eps eps" and "n < 2 ^ 64"
    and "\<And>choices. \<exists>recv send. ideal (Base_Ot_Receive choices) Base_Ot_Send =
           Some (Base_Ot_Received recv, Base_Ot_Sent send)"
  shows "\<exists>a b. kkrt_paired a b \<and> k_sender_obtain_result a = oa \<and> k_sender_obtain_result b = ob \<and>
    k_num_of_fun a = n \<and> k_epsilon a = eps \<and> k_common_prng a = prng_create pl (agreed_seed pl ga gb) \<and>
    k_choices a = drawn_choices pl (snd (prng_generate pl ga 16)) \<and>
    ideal (Base_Ot_Receive (k_choices a)) Base_Ot_Send =
      Some (Base_Ot_Received (k_base_recv a), Base_Ot_Sent (k_base_send b)) \<and>
    outcomes ideal (start (kkrt_init js pl ga Net pa) (kkrt_init js pl gb Net pb)) =
      {Conf (Ret a) (Ret b) [] []}"
  using kkrt_init_joint [where ideal = ideal and pl = pl and ga = ga and gb = gb, OF assms]
  by (metis (no_types, lifting) joint_outcomes)

text \<open>A configuration is its role and its flag.\<close>

definition toy_kkrt_json :: "(bool \<times> bool, double) json_lib" where
  "toy_kkrt_json = \<lparr>json_parse = (\<lambda>s. (True, True)), merge_patch = (\<lambda>d p. p),
     get_bool = (\<lambda>(s, f) group name. Inr (if name = ''is_sender'' then s
        else if name = ''sender_obtain_result'' then f else False)),
     get_int = (\<lambda>_ group name. Inl (Json_Error name)),
     get_size = (\<lambda>_ group name. Inr 3),
     get_double = (\<lambda>_ group name. Inr 0x3ff451eb851eb852),
     get_string = (\<lambda>_ group name. Inl (Json_Error name))\<rparr>"

theorem kkrt_init_agrees_witness:
  "\<exists>a b. kkrt_paired a b \<and> k_sender_obtain_result a = True \<and> k_sender_obtain_result b = False \<and>
    k_num_of_fun a = 3 \<and> k_epsilon a = 0x3ff451eb851eb852 \<and>
    k_common_prng a = prng_create toy_prng (agreed_seed toy_prng [5, 6] [7, 8]) \<and>
    k_choices a = drawn_choices toy_prng (snd (prng_generate toy_prng [5, 6] 16)) \<and>
    toy_verse (Base_Ot_Receive (k_choices a)) Base_Ot_Send =
      Some (Base_Ot_Received (k_base_recv a), Base_Ot_Sent (k_base_send b)) \<and>
    outcomes toy_verse
      (start (kkrt_init toy_kkrt_json toy_prng [5, 6] Net (True, True))
             (kkrt_init toy_kkrt_json toy_prng [7, 8] Net (False, False))) =
      {Conf (Ret a) (Ret b) [] []}"
proof (rule kkrt_init_agrees [where n = 3 and va = False and vb = False])
  show "\<not> double_ne 0x3ff451eb851eb852 0x3ff451eb851eb852"
    by (simp add: double_ne_def decode_def)
qed (simp_all add: kkrt_configured_def toy_kkrt_json_def)

end
