(* ===== verification/Streams.thy ===== *)
theory Streams
  imports Prelude
begin

text \<open>
  Input streams as the CSV provider uses them: the characters of the file or string buffer,
  the read position and the two state bits, with \<open>std::getline\<close>, \<open>clear\<close> and \<open>seekg\<close>. The
  loops \<open>while (std::getline(in, s, delim))\<close> all read the same list of strings, which is
  the abstraction the provider is verified against.
\<close>

section \<open>Operations\<close>

record stream =
  st_data :: string
  st_pos :: nat
  st_eof :: bool
  st_fail :: bool

definition stringstream :: "string \<Rightarrow> stream" where
  "stringstream s = \<lparr>st_data = s, st_pos = 0, st_eof = False, st_fail = False\<rparr>"

definition good :: "stream \<Rightarrow> bool" where
  "good st \<longleftrightarrow> \<not> st_eof st \<and> \<not> st_fail st"

text \<open>
  A stream that is not good fails and leaves the string argument alone; otherwise the string
  is replaced. Reaching the end sets the end bit, and the fail bit too when nothing at all
  was extracted.
\<close>

definition getline :: "char \<Rightarrow> stream \<Rightarrow> string \<Rightarrow> string \<times> stream" where
  "getline delim st str =
     (if \<not> good st then (str, st\<lparr>st_fail := True\<rparr>)
      else let rest = drop (st_pos st) (st_data st);
               w = takeWhile (\<lambda>c. c \<noteq> delim) rest
           in if length w < length rest
              then (w, st\<lparr>st_pos := st_pos st + length w + 1\<rparr>)
              else (w, st\<lparr>st_pos := st_pos st + length w, st_eof := True, st_fail := (rest = [])\<rparr>))"

definition clear :: "stream \<Rightarrow> stream" where
  "clear st = st\<lparr>st_eof := False, st_fail := False\<rparr>"

text \<open>\<open>seekg(0, beg)\<close> clears the end bit and does nothing on a failed stream.\<close>

definition seek_start :: "stream \<Rightarrow> stream" where
  "seek_start st = (if st_fail st then st\<lparr>st_eof := False\<rparr> else st\<lparr>st_pos := 0, st_eof := False\<rparr>)"

section \<open>Reading to the end\<close>

text \<open>The successive values of \<open>s\<close> in \<open>while (std::getline(in, s, delim))\<close>, and the stream after it.\<close>

definition stream_left :: "stream \<Rightarrow> nat" where
  "stream_left st = (length (st_data st) - st_pos st) + (if good st then 1 else 0)"

lemma getline_progress:
  "getline d st s = (w, st') \<Longrightarrow> \<not> st_fail st' \<Longrightarrow> stream_left st' < stream_left st"
  by (auto simp: getline_def stream_left_def good_def Let_def split: if_splits)

function getlines :: "char \<Rightarrow> stream \<Rightarrow> string \<Rightarrow> string list \<times> stream" where
  "getlines d st s =
     (let r = getline d st s in
      if st_fail (snd r) then ([], snd r)
      else let q = getlines d (snd r) (fst r) in (fst r # fst q, snd q))"
  by pat_completeness auto
termination
  by (relation "measure (\<lambda>(d, st, s). stream_left st)") (auto dest: getline_progress [OF prod.collapse [symmetric]])

declare getlines.simps [simp del]

lemma getline_irrelevant: "good st \<Longrightarrow> getline d st s = getline d st t"
  by (simp add: getline_def)

lemma getlines_irrelevant: "fst (getlines d st s) = fst (getlines d st t)"
proof (cases "good st")
  case True
  then show ?thesis by (subst (1 2) getlines.simps) (simp add: getline_irrelevant [of st d s t])
next
  case False
  then show ?thesis by (subst (1 2) getlines.simps) (simp add: getline_def)
qed

text \<open>The strings a stream still holds.\<close>

definition pending :: "char \<Rightarrow> stream \<Rightarrow> string list" where
  "pending d st = fst (getlines d st [])"

lemma pending_Nil: "pending d st = [] \<longleftrightarrow> st_fail (snd (getline d st s))"
  unfolding pending_def by (subst getlines.simps) (auto simp: Let_def getline_def good_def)

lemma pending_Cons:
  assumes "pending d st = w # ws"
  shows "\<exists>st'. getline d st s = (w, st') \<and> pending d st' = ws \<and> st_data st' = st_data st"
proof -
  have g: "good st"
    using assms unfolding pending_def by (subst (asm) getlines.simps)
      (auto simp: Let_def getline_def good_def split: if_splits)
  obtain v st' where r: "getline d st [] = (v, st')" by (cases "getline d st []")
  have "fst (getlines d st []) = (if st_fail st' then [] else v # fst (getlines d st' v))"
    by (subst getlines.simps) (simp add: r Let_def)
  with assms have "v = w" "fst (getlines d st' v) = ws"
    by (auto simp: pending_def split: if_splits)
  then have "pending d st' = ws" unfolding pending_def by (metis getlines_irrelevant)
  moreover have "getline d st s = (w, st')" using r \<open>v = w\<close> getline_irrelevant [OF g, of d s "[]"] by simp
  moreover have "st_data st' = st_data st" using r by (auto simp: getline_def Let_def split: if_splits)
  ultimately show ?thesis by blast
qed

section \<open>The strings of a buffer\<close>

text \<open>The pieces of a text cut at the delimiter, without an empty last piece.\<close>

fun pieces :: "char \<Rightarrow> string \<Rightarrow> string list" where
  "pieces d [] = []"
| "pieces d (c # cs) =
     (if c = d then [] # pieces d cs
      else (case pieces d cs of [] \<Rightarrow> [[c]] | w # ws \<Rightarrow> (c # w) # ws))"

lemma pieces_line: "d \<notin> set w \<Longrightarrow> pieces d (w @ d # rest) = w # pieces d rest"
  by (induction w) auto

lemma pieces_last: "d \<notin> set w \<Longrightarrow> w \<noteq> [] \<Longrightarrow> pieces d w = [w]"
proof (induction w)
  case (Cons c w)
  then show ?case by (cases w) auto
qed simp

lemma pieces_lines:
  "\<forall>w\<in>set ws. d \<notin> set w \<Longrightarrow> pieces d (concat (map (\<lambda>w. w @ [d]) ws) @ rest) = ws @ pieces d rest"
  by (induction ws) (simp_all add: pieces_line)

lemma split_first:
  "length (takeWhile (\<lambda>c. c \<noteq> d) s) < length s \<Longrightarrow>
     s = takeWhile (\<lambda>c. c \<noteq> d) s @ d # drop (Suc (length (takeWhile (\<lambda>c. c \<noteq> d) s))) s"
  by (induction s) auto

lemma pending_step:
  assumes "getline d st [] = (w, st')" and "\<not> st_fail st'"
  shows "pending d st = w # pending d st'"
  unfolding pending_def
  by (subst getlines.simps) (simp add: assms Let_def getlines_irrelevant [of d st' w "[]"])

lemma pending_pieces:
  assumes "good st"
  shows "pending d st = pieces d (drop (st_pos st) (st_data st))"
  using assms
proof (induction "stream_left st" arbitrary: st rule: less_induct)
  case less
  define rest where "rest = drop (st_pos st) (st_data st)"
  define w where "w = takeWhile (\<lambda>c. c \<noteq> d) rest"
  have dw: "d \<notin> set w" unfolding w_def by (auto dest: set_takeWhileD)
  show ?case
  proof (cases "length w < length rest")
    case True
    define st' where "st' = st\<lparr>st_pos := st_pos st + length w + 1\<rparr>"
    have r: "getline d st s = (w, st')" for s
      using less.prems True by (simp add: getline_def Let_def rest_def [symmetric] w_def [symmetric] st'_def)
    have g: "good st'" using less.prems by (simp add: st'_def good_def)
    then have f: "\<not> st_fail st'" by (simp add: good_def)
    have IH: "pending d st' = pieces d (drop (st_pos st') (st_data st'))"
      by (rule less.hyps [OF getline_progress [OF r f] g])
    have "drop (st_pos st') (st_data st') = drop (Suc (length w)) rest"
      by (simp add: st'_def rest_def add.commute)
    moreover have "rest = w @ d # drop (Suc (length w)) rest"
      using True unfolding w_def by (rule split_first)
    ultimately have "pieces d rest = w # pending d st'"
      using pieces_line [OF dw] IH by metis
    then show ?thesis using pending_step [OF r f] by (simp add: rest_def)
  next
    case False
    then have w: "w = rest"
      unfolding w_def by (metis length_takeWhile_le le_neq_implies_less takeWhile_eq_take take_all order_refl)
    define st' where "st' = st\<lparr>st_pos := st_pos st + length w, st_eof := True, st_fail := (rest = [])\<rparr>"
    have r: "getline d st s = (w, st')" for s
      using less.prems False
      by (simp add: getline_def Let_def rest_def [symmetric] w_def [symmetric] st'_def)
    have end_fail: "pending d st' = []"
      unfolding pending_Nil [of d st' "[]"] by (simp add: getline_def good_def st'_def)
    show ?thesis
    proof (cases "rest = []")
      case True
      then have "st_fail (snd (getline d st []))" by (simp add: r st'_def)
      with True show ?thesis by (simp add: pending_Nil [of d st "[]", THEN iffD2] rest_def)
    next
      case nonempty: False
      then have "pending d st = w # pending d st'"
        by (intro pending_step [OF r]) (simp add: st'_def)
      then show ?thesis
        using end_fail pieces_last [OF dw] w nonempty by (simp add: rest_def)
    qed
  qed
qed

end
