(* ===== verification/Csv_Provider.thy ===== *)
theory Csv_Provider
  imports Streams Decimal Algorithms
begin

text \<open>
  \<open>data/csv_data_provider.cpp\<close>: the CSV source and sink. The object of class
  \<open>CsvDataProvider\<close> is a record with its input stream; the file system is a map from paths to
  contents. Each of the four batch operations is checked against the list of lines that are
  left, through one contract.
\<close>

section \<open>The object\<close>

record csv =
  c_has_header :: bool
  c_stream :: stream
  c_cur_line_idx :: nat
  c_rows_num :: nat
  c_columns_num :: nat
  c_items_columns_num :: nat

abbreviation newline :: char where "newline \<equiv> CHR 0x0A"
abbreviation comma :: char where "comma \<equiv> CHR 0x2C"

text \<open>\<open>max_strings\<close> and \<open>max_words\<close> are the limits of vectors of strings and of 64-bit words.\<close>

definition max_strings :: nat where "max_strings = (2 ^ 63 - 1) div 32"
definition max_words :: nat where "max_words = (2 ^ 63 - 1) div 8"

definition size_sub :: "nat \<Rightarrow> nat \<Rightarrow> nat" where
  "size_sub a b = (a + 2 ^ 64 - b mod 2 ^ 64) mod 2 ^ 64"

definition count_nonempty :: "string list \<Rightarrow> nat" where
  "count_nonempty ls = fold (\<lambda>s n. if s \<noteq> [] then n + 1 else n) ls 0"

definition count_rows_and_coulmns :: "stream \<Rightarrow> bool \<Rightarrow> (nat \<times> nat) \<times> stream" where
  "count_rows_and_coulmns in0 has_header =
     (let in1 = seek_start (clear in0);
          (line, in2) = getline newline in1 [];
          cols = count_nonempty (fst (getlines comma (stringstream line) []));
          (lines, in3) = getlines newline in2 line;
          raws = (if \<not> has_header then 1 else 0) + count_nonempty lines
      in ((raws, cols), seek_start (clear in3)))"

definition skip_header :: "bool \<Rightarrow> stream \<Rightarrow> stream" where
  "skip_header has_header st = (if has_header then snd (getline newline st []) else st)"

definition csv_open ::
  "(string \<Rightarrow> string option) \<Rightarrow> string \<Rightarrow> bool \<Rightarrow> nat \<Rightarrow> csv res" where
  "csv_open fs file_path has_header items_columns_num =
     (if file_path = [] then Inl (Invalid_Argument ''file path is empty.'')
      else (case fs file_path of
              None \<Rightarrow> Inl (Runtime_Error (''file '' @ file_path @ ''read failed.''))
            | Some content \<Rightarrow>
                (let (cnt, st) = count_rows_and_coulmns (stringstream content) has_header in
                 Inr \<lparr>c_has_header = has_header, c_stream = skip_header has_header st,
                      c_cur_line_idx = 0, c_rows_num = fst cnt, c_columns_num = snd cnt,
                      c_items_columns_num = items_columns_num\<rparr>)))"

definition seek_begin :: "csv \<Rightarrow> csv" where
  "seek_begin self =
     self\<lparr>c_stream := skip_header (c_has_header self) (seek_start (clear (c_stream self))),
          c_cur_line_idx := 0\<rparr>"

section \<open>Reading batches\<close>

definition read_lines_count :: "csv \<Rightarrow> nat \<Rightarrow> nat" where
  "read_lines_count self batch_size =
     min batch_size (size_sub (c_rows_num self) (c_cur_line_idx self))"

text \<open>
  The \<open>while\<close> loop of the four operations: \<open>cur_line\<close> keeps its old value when the stream is
  at its end, an empty line is skipped, any other is handed to \<open>body\<close>.
\<close>

definition read_line ::
  "(string \<Rightarrow> 'o \<Rightarrow> 'o res) \<Rightarrow> stream \<times> string \<times> 'o \<Rightarrow> (stream \<times> string \<times> 'o) res" where
  "read_line body s =
     (case s of (st, cur_line, out) \<Rightarrow>
        let (line, st') = getline newline st cur_line in
        res_bind (if line \<noteq> [] then body line out else Inr out) (\<lambda>out'. Inr (st', line, out')))"

definition read_lines ::
  "(string \<Rightarrow> 'o \<Rightarrow> 'o res) \<Rightarrow> nat \<Rightarrow> stream \<Rightarrow> 'o \<Rightarrow> (stream \<times> 'o) res" where
  "read_lines body n st out =
     res_bind (for_upto n (\<lambda>_. read_line body) (st, [], out)) (\<lambda>(st', cur_line, out'). Inr (st', out'))"

definition advance :: "csv \<Rightarrow> nat \<Rightarrow> stream \<Rightarrow> csv" where
  "advance self n st = self\<lparr>c_stream := st, c_cur_line_idx := (c_cur_line_idx self + n) mod 2 ^ 64\<rparr>"

definition push_at :: "'a list list \<Rightarrow> nat \<Rightarrow> 'a \<Rightarrow> 'a list list res" where
  "push_at xs i v = res_bind (vec_at xs i) (\<lambda>cur. vec_set xs i (cur @ [v]))"

definition take_item :: "string \<Rightarrow> string list \<Rightarrow> string list res" where
  "take_item line items = Inr (items @ [line])"

definition get_next_batch :: "nat \<Rightarrow> csv \<Rightarrow> string list \<Rightarrow> (csv \<times> string list) res" where
  "get_next_batch batch_size self items =
     (if batch_size = 0 then Inr (self, items)
      else let n = read_lines_count self batch_size in
           res_bind (vec_reserve max_strings n) (\<lambda>_.
           res_bind (read_lines take_item n (c_stream self) items) (\<lambda>(st, items').
             Inr (advance self n st, items'))))"

text \<open>One field of the line after the other; a field that is missing repeats the one before.\<close>

definition take_fields ::
  "nat \<Rightarrow> stream \<times> string \<Rightarrow> string list list \<Rightarrow> ((stream \<times> string) \<times> string list list) res" where
  "take_fields k ss items =
     for_upto k (\<lambda>idx ((ss, column_str), items).
         let (field, ss') = getline comma ss column_str in
         res_bind (push_at items idx field) (\<lambda>items'. Inr ((ss', field), items')))
       (ss, items)"

definition take_columns :: "nat \<Rightarrow> string \<Rightarrow> string list list \<Rightarrow> string list list res" where
  "take_columns k line items =
     res_bind (take_fields k (stringstream line, []) items) (\<lambda>(ss, items'). Inr items')"

definition get_next_batch_2d :: "nat \<Rightarrow> csv \<Rightarrow> string list list \<Rightarrow> (csv \<times> string list list) res" where
  "get_next_batch_2d batch_size self items =
     (if batch_size = 0 then Inr (self, items)
      else let n = read_lines_count self batch_size; k = c_items_columns_num self in
           res_bind (vec_grow max_vectors k) (\<lambda>_.
           res_bind (read_lines (take_columns k) n (c_stream self) (resize [] k items)) (\<lambda>(st, items').
             Inr (advance self n st, items'))))"

definition take_item_payload ::
  "string \<Rightarrow> string list \<times> 64 word list \<Rightarrow> (string list \<times> 64 word list) res" where
  "take_item_payload line out =
     (case out of (items, payloads) \<Rightarrow>
        let (item, ss) = getline comma (stringstream line) [];
            (column_str, ss') = getline comma ss item
        in res_bind (stoull column_str) (\<lambda>v. Inr (items @ [item], payloads @ [v])))"

definition get_next_batch_with_payloads ::
  "nat \<Rightarrow> csv \<Rightarrow> string list \<times> 64 word list \<Rightarrow> (csv \<times> string list \<times> 64 word list) res" where
  "get_next_batch_with_payloads batch_size self out =
     (if batch_size = 0 then Inr (self, out)
      else let n = read_lines_count self batch_size in
           res_bind (vec_reserve max_strings n) (\<lambda>_.
           res_bind (vec_reserve max_words n) (\<lambda>_.
           res_bind (read_lines take_item_payload n (c_stream self) out) (\<lambda>(st, out').
             Inr (advance self n st, out')))))"

definition take_payloads ::
  "nat \<Rightarrow> stream \<times> string \<Rightarrow> 64 word list list \<Rightarrow> 64 word list list res" where
  "take_payloads m ss payloads =
     res_bind (for_upto m (\<lambda>idx ((ss, column_str), payloads).
         let (field, ss') = getline comma ss column_str in
         res_bind (stoull field) (\<lambda>v.
         res_bind (push_at payloads idx v) (\<lambda>payloads'. Inr ((ss', field), payloads'))))
       (ss, payloads)) (\<lambda>(ss, payloads'). Inr payloads')"

definition take_row ::
  "nat \<Rightarrow> nat \<Rightarrow> string \<Rightarrow> string list list \<times> 64 word list list \<Rightarrow>
     (string list list \<times> 64 word list list) res" where
  "take_row k m line out =
     (case out of (items, payloads) \<Rightarrow>
        res_bind (take_fields k (stringstream line, []) items) (\<lambda>(ss, items').
        res_bind (take_payloads m ss payloads) (\<lambda>payloads'. Inr (items', payloads'))))"

definition get_next_batch_with_payloads_2d ::
  "nat \<Rightarrow> csv \<Rightarrow> string list list \<times> 64 word list list \<Rightarrow>
     (csv \<times> string list list \<times> 64 word list list) res" where
  "get_next_batch_with_payloads_2d batch_size self out =
     (if batch_size = 0 then Inr (self, out)
      else let n = read_lines_count self batch_size; k = c_items_columns_num self;
               m = size_sub (c_columns_num self) k in
           res_bind (vec_grow max_vectors k) (\<lambda>_.
           res_bind (vec_grow max_vectors m) (\<lambda>_.
           res_bind (read_lines (take_row k m) n (c_stream self)
                       (resize [] k (fst out), resize [] m (snd out))) (\<lambda>(st, out').
             Inr (advance self n st, out')))))"

section \<open>Writing\<close>

text \<open>
  Every cell but the last of a row is followed by a comma, the last by a newline. The state of
  the output stream is never tested: when the path cannot be opened (\<open>writable\<close>) the output is
  lost without an error.
\<close>

definition write_header :: "string list \<Rightarrow> string" where
  "write_header header =
     concat (map (\<lambda>i. if i \<noteq> length header - 1 then header ! i @ [comma] else header ! i @ [newline])
               [0..<length header])"

definition write_row ::
  "string list list \<Rightarrow> 64 word list list \<Rightarrow> nat \<Rightarrow> string \<Rightarrow> string res" where
  "write_row items payloads j out =
     res_bind (for_upto (length items) (\<lambda>i out.
         res_bind (vec_at items i) (\<lambda>column. res_bind (vec_at column j) (\<lambda>cell.
           Inr (out @ cell @
             [if i \<noteq> length items - 1 then comma else if payloads \<noteq> [] then comma else newline])))) out)
       (for_upto (length payloads) (\<lambda>i out.
         res_bind (vec_at payloads i) (\<lambda>column. res_bind (vec_at column j) (\<lambda>v.
           Inr (out @ show_nat (unat v) @ [if i \<noteq> length payloads - 1 then comma else newline])))))"

definition write_data_to_file ::
  "(string \<Rightarrow> bool) \<Rightarrow> (string \<Rightarrow> string option) \<Rightarrow> string list list \<Rightarrow> 64 word list list \<Rightarrow>
     string \<Rightarrow> bool \<Rightarrow> string list \<Rightarrow> (string \<Rightarrow> string option) res" where
  "write_data_to_file writable fs items payloads file_path has_header header =
     (if items = [] then Inl (Invalid_Argument ''items can not be empty.'')
      else res_bind (for_upto (length (items ! 0)) (write_row items payloads)
                       (if has_header then write_header header else []))
             (\<lambda>content. Inr (if writable file_path then fs(file_path \<mapsto> content) else fs)))"

end
