(* ===== verification/Csv_Correct.thy ===== *)
theory Csv_Correct
  imports Csv_Provider
begin

text \<open>
  The contract of the CSV source, \<open>line_source\<close>: a batch hands the next lines of the file to
  the parser of the operation and moves past them. The four batch operations of the provider
  are interpretations, so what follows from the contract (batches compose, a file is read
  alike whatever the batch sizes) holds for each.
\<close>

section \<open>The contract of a line source\<close>

definition fetch_batches ::
  "(nat \<Rightarrow> 's \<Rightarrow> 'o \<Rightarrow> ('s \<times> 'o) res) \<Rightarrow> nat list \<Rightarrow> 's \<Rightarrow> 'o \<Rightarrow> ('s \<times> 'o) res" where
  "fetch_batches fetch bs s out = fold_res (\<lambda>b (s, o'). fetch b s o') bs (s, out)"

locale line_source =
  fixes view :: "'s \<Rightarrow> string list"
    and ok :: "'s \<Rightarrow> bool"
    and shaped :: "'o \<Rightarrow> bool"
    and emit :: "string \<Rightarrow> 'o \<Rightarrow> 'o res"
    and fetch :: "nat \<Rightarrow> 's \<Rightarrow> 'o \<Rightarrow> ('s \<times> 'o) res"
  assumes fetch_lines:
      "ok s \<Longrightarrow> shaped out \<Longrightarrow> \<exists>s'. ok s' \<and> view s' = drop b (view s) \<and>
         fetch b s out = res_bind (fold_res emit (take b (view s)) out) (\<lambda>o'. Inr (s', o'))"
    and emit_shaped: "shaped out \<Longrightarrow> emit l out = Inr o' \<Longrightarrow> shaped o'"
begin

lemma emits_shaped: "shaped out \<Longrightarrow> fold_res emit ls out = Inr o' \<Longrightarrow> shaped o'"
proof (induction ls arbitrary: out)
  case (Cons l ls)
  then show ?case by (cases "emit l out") (auto dest: emit_shaped)
qed simp

text \<open>A sequence of batches reads what one batch of their total size reads.\<close>

lemma fetch_batches_lines:
  "ok s \<Longrightarrow> shaped out \<Longrightarrow>
     \<exists>s'. ok s' \<and> view s' = drop (sum_list bs) (view s) \<and>
       fetch_batches fetch bs s out =
         res_bind (fold_res emit (take (sum_list bs) (view s)) out) (\<lambda>o'. Inr (s', o'))"
proof (induction bs arbitrary: s out)
  case Nil
  then show ?case by (auto simp: fetch_batches_def)
next
  case (Cons b bs)
  from fetch_lines [OF Cons.prems, of b] obtain s1 where s1: "ok s1" "view s1 = drop b (view s)"
      "fetch b s out = res_bind (fold_res emit (take b (view s)) out) (\<lambda>o'. Inr (s1, o'))" by blast
  have split: "take (b + sum_list bs) (view s) = take b (view s) @ take (sum_list bs) (view s1)"
    by (simp add: take_add s1(2))
  show ?case
  proof (cases "fold_res emit (take b (view s)) out")
    case (Inl e)
    with s1 split show ?thesis
      using Cons.IH [OF s1(1) Cons.prems(2)]
      by (auto simp: fetch_batches_def fold_res_append drop_drop add.commute)
  next
    case (Inr o1)
    with Cons.prems(2) have "shaped o1" by (rule emits_shaped)
    from Cons.IH [OF s1(1) this] obtain s2 where "ok s2" "view s2 = drop (sum_list bs) (view s1)"
        "fetch_batches fetch bs s1 o1 =
           res_bind (fold_res emit (take (sum_list bs) (view s1)) o1) (\<lambda>o'. Inr (s2, o'))" by blast
    with Inr s1 split show ?thesis
      by (intro exI [of _ s2]) (simp add: fetch_batches_def fold_res_append drop_drop add.commute)
  qed
qed

lemma batching_irrelevant:
  assumes "ok s" and "shaped out" and "sum_list bs = sum_list cs"
  shows "map_sum id snd (fetch_batches fetch bs s out) = map_sum id snd (fetch_batches fetch cs s out)"
proof -
  have snd: "map_sum id snd (res_bind r (\<lambda>o'. Inr (s', o'))) = r"
    for r :: "'o res" and s' by (cases r) simp_all
  from fetch_batches_lines [OF assms(1,2), of bs] fetch_batches_lines [OF assms(1,2), of cs] assms(3)
  show ?thesis by (auto simp: snd)
qed

end

section \<open>The provider's lines\<close>

text \<open>The physical lines the provider will still look at.\<close>

definition csv_view :: "csv \<Rightarrow> string list" where
  "csv_view self = take (c_rows_num self - c_cur_line_idx self) (pending newline (c_stream self))"

definition csv_ok :: "nat \<Rightarrow> nat \<Rightarrow> csv \<Rightarrow> bool" where
  "csv_ok k m self \<longleftrightarrow> c_cur_line_idx self \<le> c_rows_num self \<and> c_rows_num self \<le> max_strings \<and>
     c_rows_num self - c_cur_line_idx self \<le> length (pending newline (c_stream self)) \<and>
     c_items_columns_num self = k \<and> size_sub (c_columns_num self) k = m"

text \<open>The two-dimensional operations also need their columns to fit in a vector of vectors.\<close>

definition csv_ok_2d :: "nat \<Rightarrow> nat \<Rightarrow> csv \<Rightarrow> bool" where
  "csv_ok_2d k m self \<longleftrightarrow> csv_ok k m self \<and> k \<le> max_vectors \<and> m \<le> max_vectors"

definition skip_empty :: "(string \<Rightarrow> 'o \<Rightarrow> 'o res) \<Rightarrow> string \<Rightarrow> 'o \<Rightarrow> 'o res" where
  "skip_empty body line out = (if line \<noteq> [] then body line out else Inr out)"

lemma read_lines_pending:
  assumes "n \<le> length (pending newline st)"
  shows "\<exists>st'. pending newline st' = drop n (pending newline st) \<and> st_data st' = st_data st \<and>
    read_lines body n st out =
      res_bind (fold_res (skip_empty body) (take n (pending newline st)) out) (\<lambda>o'. Inr (st', o'))"
proof -
  have "\<exists>st' line. pending newline st' = drop n (pending newline st) \<and> st_data st' = st_data st \<and>
      for_upto n (\<lambda>_. read_line body) (st, [], out) =
        res_bind (fold_res (skip_empty body) (take n (pending newline st)) out)
          (\<lambda>o'. Inr (st', line, o'))"
    using assms
  proof (induction n)
    case 0
    then show ?case by auto
  next
    case (Suc n)
    then obtain st' line where st': "pending newline st' = drop n (pending newline st)"
        "st_data st' = st_data st"
        "for_upto n (\<lambda>_. read_line body) (st, [], out) =
        res_bind (fold_res (skip_empty body) (take n (pending newline st)) out)
          (\<lambda>o'. Inr (st', line, o'))" by auto
    let ?l = "pending newline st ! n"
    have "pending newline st' = ?l # drop (Suc n) (pending newline st)"
      using st'(1) Suc.prems by (simp add: Cons_nth_drop_Suc)
    from pending_Cons [OF this, of line] obtain st2 where st2: "getline newline st' line = (?l, st2)"
        "pending newline st2 = drop (Suc n) (pending newline st)" "st_data st2 = st_data st" 
      using st'(2) by auto
    have take: "take (Suc n) (pending newline st) = take n (pending newline st) @ [?l]"
      using Suc.prems by (simp add: take_Suc_conv_app_nth)
    have "for_upto (Suc n) (\<lambda>_. read_line body) (st, [], out) =
        res_bind (fold_res (skip_empty body) (take (Suc n) (pending newline st)) out)
          (\<lambda>o'. Inr (st2, ?l, o'))"
      unfolding take for_upto_Suc st'(3) fold_res_append
      by (cases "fold_res (skip_empty body) (take n (pending newline st)) out")
         (simp_all add: read_line_def st2(1) skip_empty_def)
    with st2 show ?case by blast
  qed
  then obtain st' line where s: "pending newline st' = drop n (pending newline st)"
      "st_data st' = st_data st"
      "for_upto n (\<lambda>_. read_line body) (st, [], out) =
        res_bind (fold_res (skip_empty body) (take n (pending newline st)) out)
          (\<lambda>o'. Inr (st', line, o'))" by blast
  then have "read_lines body n st out =
      res_bind (fold_res (skip_empty body) (take n (pending newline st)) out) (\<lambda>o'. Inr (st', o'))"
    by (simp add: read_lines_def res_bind_assoc)
  with s show ?thesis by blast
qed

lemma size_sub_exact:
  assumes "b \<le> a" and "a < 2 ^ 64"
  shows "size_sub a b = a - b"
proof -
  have "a + 2 ^ 64 - b mod 2 ^ 64 = (a - b) + 2 ^ 64" "a - b < 2 ^ 64" using assms by simp_all
  then show ?thesis unfolding size_sub_def by (simp only: mod_add_self2 mod_less)
qed

lemma csv_ok_count:
  assumes "csv_ok k m self"
  shows "read_lines_count self b = min b (c_rows_num self - c_cur_line_idx self)"
    and "read_lines_count self b \<le> max_strings" "read_lines_count self b \<le> max_words"
    and "take (read_lines_count self b) (pending newline (c_stream self)) = take b (csv_view self)"
    and "read_lines_count self b \<le> length (pending newline (c_stream self))"
proof -
  let ?r = "c_rows_num self" and ?c = "c_cur_line_idx self"
  have rc: "?c \<le> ?r" "?r \<le> max_strings" "?r - ?c \<le> length (pending newline (c_stream self))"
    using assms by (simp_all add: csv_ok_def)
  have big: "?r < 2 ^ 64" "?c < 2 ^ 64" using rc by (simp_all add: max_strings_def)
  then show n: "read_lines_count self b = min b (?r - ?c)"
    using size_sub_exact [OF rc(1)] by (simp add: read_lines_count_def)
  then have "read_lines_count self b \<le> ?r" by simp
  then show "read_lines_count self b \<le> max_strings" "read_lines_count self b \<le> max_words"
    using \<open>read_lines_count self b \<le> ?r\<close> rc(2) by (simp_all add: max_strings_def max_words_def)
  show "take (read_lines_count self b) (pending newline (c_stream self)) = take b (csv_view self)"
    by (simp add: n csv_view_def min.commute)
  show "read_lines_count self b \<le> length (pending newline (c_stream self))"
    using rc(3) by (simp add: n)
qed

lemma csv_ok_advance:
  assumes ok: "csv_ok k m self" and st: "pending newline st = drop n (pending newline (c_stream self))"
    and n: "n = read_lines_count self b"
  shows "csv_ok k m (advance self n st)" "csv_view (advance self n st) = drop b (csv_view self)"
proof -
  have n': "n = min b (c_rows_num self - c_cur_line_idx self)" using n csv_ok_count(1) [OF ok] by simp
  have rc: "c_cur_line_idx self \<le> c_rows_num self" "c_rows_num self \<le> max_strings"
    using ok by (simp_all add: csv_ok_def)
  then have "c_cur_line_idx self + n \<le> c_rows_num self" using n' by simp
  moreover from this have "(c_cur_line_idx self + n) mod 2 ^ 64 = c_cur_line_idx self + n"
    using rc(2) by (intro mod_less) (simp add: max_strings_def)
  ultimately show "csv_ok k m (advance self n st)" "csv_view (advance self n st) = drop b (csv_view self)"
    using ok st n' by (auto simp: csv_ok_def csv_view_def advance_def drop_take min_def)
qed

section \<open>The four operations meet the contract\<close>

text \<open>The common shape of the four operations.\<close>

lemma batch_lines:
  assumes ok: "csv_ok k m self"
    and fetch: "0 < b \<Longrightarrow> fetch b self out =
        res_bind (read_lines body (read_lines_count self b) (c_stream self) out)
          (\<lambda>(st, o'). Inr (advance self (read_lines_count self b) st, o'))"
      "b = 0 \<Longrightarrow> fetch b self out = Inr (self, out)"
  shows "\<exists>s'. csv_ok k m s' \<and> csv_view s' = drop b (csv_view self) \<and>
    fetch b self out =
      res_bind (fold_res (skip_empty body) (take b (csv_view self)) out) (\<lambda>o'. Inr (s', o'))"
proof (cases "b = 0")
  case True
  with ok fetch(2) show ?thesis by auto
next
  case False
  let ?n = "read_lines_count self b"
  from read_lines_pending [OF csv_ok_count(5) [OF ok, of b], where body = body and out = out] obtain st where
    st: "pending newline st = drop ?n (pending newline (c_stream self))"
      "read_lines body ?n (c_stream self) out =
        res_bind (fold_res (skip_empty body) (take b (csv_view self)) out) (\<lambda>o'. Inr (st, o'))"
    unfolding csv_ok_count(4) [OF ok] by blast
  have "fetch b self out = res_bind (fold_res (skip_empty body) (take b (csv_view self)) out)
      (\<lambda>o'. Inr (advance self ?n st, o'))"
    using fetch(1) False by (simp add: st(2) res_bind_assoc)
  with csv_ok_advance [OF ok st(1) refl] show ?thesis by blast
qed

lemma resize_same [simp]: "length xs = n \<Longrightarrow> resize d n xs = xs"
  by (simp add: resize_def)

lemma push_at_length: "push_at xs i v = Inr ys \<Longrightarrow> length ys = length xs"
  by (auto simp: push_at_def vec_at_def vec_set_def res_bind_def split: sum.splits if_splits)

lemma loop_length:
  assumes "\<And>i s t. f i s = Inr t \<Longrightarrow> length (snd t) = length (snd s)"
  shows "for_upto n f s = Inr t \<Longrightarrow> length (snd t) = length (snd s)"
proof (induction n arbitrary: t)
  case (Suc n)
  then show ?case by (auto simp: for_upto_Suc res_bind_eq_Inr dest!: assms)
qed simp

lemma take_fields_length: "take_fields k ss xs = Inr (ss', ys) \<Longrightarrow> length ys = length xs"
proof -
  assume "take_fields k ss xs = Inr (ss', ys)"
  then have "length (snd (ss', ys)) = length (snd (ss, xs))"
    unfolding take_fields_def
    by (rule loop_length [rotated]) (auto simp: res_bind_eq_Inr push_at_length split: prod.splits)
  then show ?thesis by simp
qed

lemma take_payloads_length: "take_payloads m ss xs = Inr ys \<Longrightarrow> length ys = length xs"
proof -
  assume "take_payloads m ss xs = Inr ys"
  then obtain s where "for_upto m (\<lambda>idx ((ss, column_str), payloads).
         let (field, ss') = getline comma ss column_str in
         res_bind (stoull field) (\<lambda>v.
         res_bind (push_at payloads idx v) (\<lambda>payloads'. Inr ((ss', field), payloads'))))
       (ss, xs) = Inr (s, ys)"
    by (auto simp: take_payloads_def res_bind_eq_Inr split: prod.splits)
  then have "length (snd (s, ys)) = length (snd (ss, xs))"
    by (rule loop_length [rotated]) (auto simp: res_bind_eq_Inr push_at_length split: prod.splits)
  then show ?thesis by simp
qed

interpretation batch_items: line_source csv_view "csv_ok k m" "\<lambda>_. True" "skip_empty take_item"
    get_next_batch for k m
  by unfold_locales
     (auto intro!: batch_lines simp: get_next_batch_def Let_def vec_size_ok csv_ok_count(2,3))

interpretation batch_items_2d: line_source csv_view "csv_ok_2d k m" "\<lambda>items. length items = k"
    "skip_empty (take_columns k)" get_next_batch_2d for k m
proof unfold_locales
  fix s and out :: "string list list" and b
  assume ok: "csv_ok_2d k m s" "length out = k"
  have "\<exists>s'. csv_ok k m s' \<and> csv_view s' = drop b (csv_view s) \<and>
      get_next_batch_2d b s out =
        res_bind (fold_res (skip_empty (take_columns k)) (take b (csv_view s)) out)
          (\<lambda>o'. Inr (s', o'))"
    using ok by (intro batch_lines)
      (auto simp: get_next_batch_2d_def Let_def vec_size_ok csv_ok_2d_def csv_ok_def)
  with ok show "\<exists>s'. csv_ok_2d k m s' \<and> csv_view s' = drop b (csv_view s) \<and>
      get_next_batch_2d b s out =
        res_bind (fold_res (skip_empty (take_columns k)) (take b (csv_view s)) out)
          (\<lambda>o'. Inr (s', o'))"
    by (auto simp: csv_ok_2d_def)
next
  fix l and out o' :: "string list list"
  assume "length out = k" "skip_empty (take_columns k) l out = Inr o'"
  then show "length o' = k"
    by (auto simp: skip_empty_def take_columns_def res_bind_eq_Inr take_fields_length split: if_splits)
qed

interpretation batch_payloads: line_source csv_view "csv_ok k m" "\<lambda>_. True"
    "skip_empty take_item_payload" get_next_batch_with_payloads for k m
  by unfold_locales
     (auto intro!: batch_lines simp: get_next_batch_with_payloads_def Let_def vec_size_ok csv_ok_count(2,3))

interpretation batch_payloads_2d: line_source csv_view "csv_ok_2d k m"
    "\<lambda>out. length (fst out) = k \<and> length (snd out) = m" "skip_empty (take_row k m)"
    get_next_batch_with_payloads_2d for k m
proof unfold_locales
  fix s and out :: "string list list \<times> 64 word list list" and b
  assume ok: "csv_ok_2d k m s" "length (fst out) = k \<and> length (snd out) = m"
  have "\<exists>s'. csv_ok k m s' \<and> csv_view s' = drop b (csv_view s) \<and>
      get_next_batch_with_payloads_2d b s out =
        res_bind (fold_res (skip_empty (take_row k m)) (take b (csv_view s)) out)
          (\<lambda>o'. Inr (s', o'))"
    using ok by (intro batch_lines)
      (auto simp: get_next_batch_with_payloads_2d_def Let_def vec_size_ok csv_ok_2d_def csv_ok_def)
  with ok show "\<exists>s'. csv_ok_2d k m s' \<and> csv_view s' = drop b (csv_view s) \<and>
      get_next_batch_with_payloads_2d b s out =
        res_bind (fold_res (skip_empty (take_row k m)) (take b (csv_view s)) out)
          (\<lambda>o'. Inr (s', o'))"
    by (auto simp: csv_ok_2d_def)
next
  fix l and out o' :: "string list list \<times> 64 word list list"
  assume "length (fst out) = k \<and> length (snd out) = m" "skip_empty (take_row k m) l out = Inr o'"
  then show "length (fst o') = k \<and> length (snd o') = m"
    by (cases out) (auto simp: skip_empty_def take_row_def res_bind_eq_Inr take_fields_length
        take_payloads_length split: if_splits)
qed

section \<open>Opening and rewinding\<close>

lemma count_nonempty_filter: "count_nonempty ls = length (filter (\<lambda>s. s \<noteq> []) ls)"
proof -
  have "fold (\<lambda>s n. if s \<noteq> [] then n + 1 else n) ls n = n + length (filter (\<lambda>s. s \<noteq> []) ls)" for n
    by (induction ls arbitrary: n) simp_all
  then show ?thesis by (simp add: count_nonempty_def)
qed

lemma getline_data: "st_data (snd (getline d st s)) = st_data st"
  by (simp add: getline_def Let_def)

lemma getlines_data: "st_data (snd (getlines d st s)) = st_data st"
proof (induction d st s rule: getlines.induct)
  case (1 d st s)
  then show ?case by (subst getlines.simps) (simp add: Let_def getline_data)
qed

lemma rewind: "seek_start (clear st) = stringstream (st_data st)"
  by (cases st) (simp add: seek_start_def clear_def stringstream_def)

lemma pending_start: "pending d (stringstream s) = pieces d s"
  by (subst pending_pieces) (simp_all add: good_def stringstream_def)

lemma pending_skip_header:
  "pending newline (skip_header h (stringstream s)) =
     (if h then tl (pieces newline s) else pieces newline s)"
proof (cases "pieces newline s")
  case Nil
  have "pending newline (snd (getline newline st [])) = []" if "pending newline st = []" for st
    using that unfolding pending_Nil [of newline _ "[]"] by (auto simp: getline_def Let_def good_def)
  with Nil show ?thesis by (simp add: skip_header_def pending_start)
next
  case (Cons w ws)
  with pending_Cons [of newline "stringstream s" w ws "[]"] show ?thesis
    by (auto simp: skip_header_def pending_start)
qed

definition data_rows :: "bool \<Rightarrow> string \<Rightarrow> string list" where
  "data_rows h content = (if h then tl (pieces newline content) else pieces newline content)"

definition row_count :: "bool \<Rightarrow> string \<Rightarrow> nat" where
  "row_count h content =
     (if h then 0 else 1) + length (filter (\<lambda>l. l \<noteq> []) (tl (pieces newline content)))"

definition column_count :: "string \<Rightarrow> nat" where
  "column_count content =
     (case pieces newline content of [] \<Rightarrow> 0
      | l # ls \<Rightarrow> length (filter (\<lambda>f. f \<noteq> []) (pieces comma l)))"

definition opened :: "bool \<Rightarrow> nat \<Rightarrow> string \<Rightarrow> csv" where
  "opened h k content =
     \<lparr>c_has_header = h, c_stream = skip_header h (stringstream content), c_cur_line_idx = 0,
      c_rows_num = row_count h content, c_columns_num = column_count content,
      c_items_columns_num = k\<rparr>"

lemma count_rows_result:
  "count_rows_and_coulmns (stringstream content) h =
     ((row_count h content, column_count content), stringstream content)"
proof (cases "pieces newline content")
  case Nil
  obtain l st where l: "getline newline (stringstream content) [] = (l, st)" by fastforce
  have "st_fail st" using pending_Nil [of newline "stringstream content" "[]"] Nil l
    by (simp add: pending_start)
  moreover have "l = []"
    using l Nil pending_start [of newline content] \<open>st_fail st\<close>
    by (auto simp: getline_def Let_def good_def stringstream_def split: if_splits)
  moreover have "fst (getlines newline st []) = []"
    using \<open>st_fail st\<close> by (subst getlines.simps) (simp add: getline_def good_def)
  moreover have "st_data (snd (getlines newline st [])) = content"
    using l getlines_data [of newline st "[]"] getline_data [of newline "stringstream content" "[]"]
    by (simp add: stringstream_def)
  moreover obtain rs st3 where "getlines newline st [] = (rs, st3)" by fastforce
  ultimately show ?thesis
    using Nil l pending_start [of comma "[]"]
    by (simp add: count_rows_and_coulmns_def rewind count_nonempty_filter row_count_def
        column_count_def pending_def) (simp add: stringstream_def)
next
  case (Cons l ls)
  from pending_Cons [of newline "stringstream content" l ls "[]"] Cons obtain st where
    st: "getline newline (stringstream content) [] = (l, st)" "pending newline st = ls"
      "st_data st = st_data (stringstream content)"
    by (auto simp: pending_start)
  then have "st_data st = content" by (simp add: stringstream_def)
  have "fst (getlines newline st l) = ls"
    using st(2) getlines_irrelevant [of newline st l "[]"] by (simp add: pending_def)
  moreover have "st_data (snd (getlines newline st l)) = content"
    using getlines_data [of newline st l] \<open>st_data st = content\<close> by simp
  moreover obtain rs st3 where "getlines newline st l = (rs, st3)" by fastforce
  ultimately show ?thesis
    using Cons st(1) pending_start [of comma l]
    by (simp add: count_rows_and_coulmns_def rewind count_nonempty_filter row_count_def
        column_count_def pending_def) (simp add: stringstream_def)
qed

lemma csv_open_result:
  "path \<noteq> [] \<Longrightarrow> fs path = Some content \<Longrightarrow> csv_open fs path h k = Inr (opened h k content)"
  by (simp add: csv_open_def count_rows_result opened_def)

lemma length_pieces: "length (pieces d s) \<le> length s"
  by (induction s) (auto split: list.splits)

lemma pieces_Nil [simp]: "pieces d s = [] \<longleftrightarrow> s = []"
  by (cases s) (auto split: list.splits)

lemma row_count_le: "content \<noteq> [] \<Longrightarrow> row_count h content \<le> length (data_rows h content)"
proof -
  assume "content \<noteq> []"
  then obtain l ls where "pieces newline content = l # ls" by (cases "pieces newline content") auto
  then show ?thesis
    using length_filter_le [of "\<lambda>l. l \<noteq> []" ls] by (simp add: row_count_def data_rows_def)
qed

lemma opened_ok:
  assumes "content \<noteq> []" and "length content \<le> max_strings"
  shows "csv_ok k (size_sub (column_count content) k) (opened h k content)"
    and "csv_view (opened h k content) = take (row_count h content) (data_rows h content)"
proof -
  have p: "pending newline (c_stream (opened h k content)) = data_rows h content"
    by (simp add: opened_def pending_skip_header data_rows_def)
  have "length (data_rows h content) \<le> length content"
    using length_pieces [of newline content] by (auto simp: data_rows_def)
  with row_count_le [OF assms(1), of h] assms(2) p
  show "csv_ok k (size_sub (column_count content) k) (opened h k content)"
    by (simp add: csv_ok_def opened_def)
  show "csv_view (opened h k content) = take (row_count h content) (data_rows h content)"
    unfolding csv_view_def p by (simp add: opened_def)
qed

end
