(* ===== verification/Csv_Properties.thy ===== *)
theory Csv_Properties
  imports Csv_Correct
begin

text \<open>
  The properties of the CSV source and sink: whole files, blank lines, rows with missing
  fields, rewinding, the column arithmetic, and the round trip through a written file.
\<close>

section \<open>Whole files\<close>

lemma fold_take_item:
  "fold_res (skip_empty take_item) ls out = Inr (out @ filter (\<lambda>l. l \<noteq> []) ls)"
  by (induction ls arbitrary: out) (simp_all add: skip_empty_def take_item_def)

lemma read_opened:
  assumes "content \<noteq> []" and "length content \<le> max_strings" and "row_count h content \<le> sum_list bs"
  shows "\<exists>self'. fetch_batches get_next_batch bs (opened h k content) out =
    Inr (self', out @ filter (\<lambda>l. l \<noteq> []) (take (row_count h content) (data_rows h content)))"
proof -
  have "take (sum_list bs) (csv_view (opened h k content)) =
      take (row_count h content) (data_rows h content)"
    using assms(3) by (simp add: opened_ok(2) [OF assms(1,2)] min_def)
  then show ?thesis
    using batch_items.fetch_batches_lines [OF opened_ok(1) [OF assms(1,2), of k h] TrueI, of bs out]
    by (auto simp: fold_take_item)
qed

lemma no_blank_count:
  "\<forall>l\<in>set (pieces newline content). l \<noteq> [] \<Longrightarrow> content \<noteq> [] \<Longrightarrow>
     row_count h content = length (data_rows h content)"
  by (cases "pieces newline content") (auto simp: row_count_def data_rows_def)

text \<open>C28: A file without blank lines is read completely and in order, whatever the sizes of the
  batches it is read in, as long as they cover it.\<close>

theorem csv_reads_whole_file:
  assumes "path \<noteq> []" and "fs path = Some content" and "content \<noteq> []"
    and "length content \<le> max_strings" and "\<forall>l\<in>set (pieces newline content). l \<noteq> []"
    and "length (data_rows h content) \<le> sum_list bs"
  shows "\<exists>self self'. csv_open fs path h k = Inr self \<and>
    fetch_batches get_next_batch bs self [] = Inr (self', data_rows h content)"
proof -
  have rows: "row_count h content = length (data_rows h content)"
    using assms(5,3) by (rule no_blank_count)
  have "\<forall>l\<in>set (data_rows h content). l \<noteq> []"
    using assms(5) by (cases "pieces newline content") (auto simp: data_rows_def)
  then have "filter (\<lambda>l. l \<noteq> []) (data_rows h content) = data_rows h content" by simp
  with read_opened [OF assms(3,4), of h bs k "[]"] assms(6) rows
  show ?thesis unfolding csv_open_result [of path fs content h k, OF assms(1,2)] by auto
qed

theorem csv_reads_whole_file_witness:
  "\<exists>self self'. csv_open [''f'' \<mapsto> ''id'' @ [newline] @ ''a'' @ [newline] @ ''b''] ''f'' True 1 = Inr self \<and>
     fetch_batches get_next_batch [1, 5] self [] =
       Inr (self', data_rows True (''id'' @ [newline] @ ''a'' @ [newline] @ ''b''))"
  by (rule csv_reads_whole_file) (simp_all add: max_strings_def data_rows_def)

text \<open>C36: When a blank line stands among the lines a reader goes through, some later data line is never
  read: the row count skips blank lines, the reading loop does not.\<close>

theorem csv_blank_line_loses_rows:
  assumes "path \<noteq> []" and "fs path = Some content" and "content \<noteq> []"
    and "length content \<le> max_strings" and "row_count h content \<le> sum_list bs"
    and "h \<or> hd (pieces newline content) \<noteq> []"
    and "[] \<in> set (take (row_count h content) (data_rows h content))"
  shows "\<exists>self self' items. csv_open fs path h k = Inr self \<and>
    fetch_batches get_next_batch bs self [] = Inr (self', items) \<and>
    length items < length (filter (\<lambda>l. l \<noteq> []) (data_rows h content))"
proof -
  let ?n = "row_count h content"
  let ?items = "filter (\<lambda>l. l \<noteq> []) (take ?n (data_rows h content))"
  have "length ?items < length (take ?n (data_rows h content))"
    using assms(7) by (rule length_filter_less) simp
  also have "\<dots> \<le> ?n" by simp
  also have "?n = length (filter (\<lambda>l. l \<noteq> []) (data_rows h content))"
    using assms(6,3) by (cases "pieces newline content") (auto simp: row_count_def data_rows_def)
  finally show ?thesis
    using read_opened [OF assms(3-5), of k "[]"]
    unfolding csv_open_result [of path fs content h k, OF assms(1,2)] by auto
qed

theorem csv_blank_line_loses_rows_witness:
  "\<exists>self self' items. csv_open [''f'' \<mapsto> ''a'' @ [newline, newline] @ ''b''] ''f'' False 1 = Inr self \<and>
     fetch_batches get_next_batch [10] self [] = Inr (self', items) \<and>
     length items < length (filter (\<lambda>l. l \<noteq> []) (data_rows False (''a'' @ [newline, newline] @ ''b'')))"
  by (rule csv_blank_line_loses_rows)
     (simp_all add: max_strings_def data_rows_def row_count_def)

section \<open>The text of the stream is kept\<close>

lemma read_lines_data:
  assumes "read_lines body n st out = Inr (st', out')"
  shows "st_data st' = st_data st"
proof -
  from assms obtain l where l: "for_upto n (\<lambda>_. read_line body) (st, [], out) = Inr (st', l, out')"
    by (auto simp: read_lines_def res_bind_eq_Inr split: prod.splits)
  have "for_upto n (\<lambda>_. read_line body) (st, [], out) = Inr t \<Longrightarrow> st_data (fst t) = st_data st" for t
  proof (induction n arbitrary: t)
    case (Suc n)
    then obtain u where u: "st_data (fst u) = st_data st" "read_line body u = Inr t"
      by (auto simp: for_upto_Suc res_bind_eq_Inr)
    then show ?case
      by (cases u) (auto simp: read_line_def Let_def res_bind_eq_Inr split_beta getline_data)
  qed simp
  from this [OF l] show ?thesis by simp
qed

section \<open>Fields of a line\<close>

text \<open>
  What the \<open>i\<close>-th \<open>getline\<close> on the line yields: the \<open>i\<close>-th field; past a last field that ends
  at the end of the line that field again, past a trailing comma the empty string.
\<close>

fun field_at :: "string \<Rightarrow> nat \<Rightarrow> string" where
  "field_at r 0 = takeWhile (\<lambda>c. c \<noteq> comma) r"
| "field_at r (Suc i) =
     (case dropWhile (\<lambda>c. c \<noteq> comma) r of
        [] \<Rightarrow> takeWhile (\<lambda>c. c \<noteq> comma) r
      | c # r' \<Rightarrow> field_at r' i)"

text \<open>The reader of a line before its \<open>i\<close>-th field.\<close>

definition at_field :: "string \<Rightarrow> nat \<Rightarrow> stream \<times> string \<Rightarrow> bool" where
  "at_field line i s =
     (case s of (ss, column_str) \<Rightarrow>
        if good ss then \<forall>j\<ge>i. field_at line j = field_at (drop (st_pos ss) (st_data ss)) (j - i)
        else \<forall>j\<ge>i. field_at line j = column_str)"

lemma at_field_start: "at_field line 0 (stringstream line, [])"
  by (simp add: at_field_def stringstream_def good_def)

lemma dropWhile_until: "d \<notin> set w \<Longrightarrow> dropWhile (\<lambda>c. c \<noteq> d) (w @ d # r) = d # r"
  by (induction w) auto

lemma at_field_step:
  assumes "at_field line i (ss, column_str)"
  shows "\<exists>ss'. getline comma ss column_str = (field_at line i, ss') \<and>
    at_field line (Suc i) (ss', field_at line i)"
proof (cases "good ss")
  case False
  with assms have "\<forall>j\<ge>i. field_at line j = column_str" by (simp add: at_field_def)
  with False show ?thesis by (auto simp: getline_def at_field_def good_def)
next
  case True
  define r where "r = drop (st_pos ss) (st_data ss)"
  define w where "w = takeWhile (\<lambda>c. c \<noteq> comma) r"
  have f: "field_at line j = field_at r (j - i)" if "i \<le> j" for j
    using assms True that by (simp add: at_field_def r_def)
  have w: "field_at line i = w" using f [of i] by (simp add: w_def)
  show ?thesis
  proof (cases "length w < length r")
    case less: True
    then obtain r' where r': "r = w @ comma # r'" unfolding w_def by (metis split_first)
    have "comma \<notin> set w" unfolding w_def by (auto dest: set_takeWhileD)
    then have dw: "dropWhile (\<lambda>c. c \<noteq> comma) r = comma # r'"
      unfolding r' by (rule dropWhile_until)
    let ?ss = "ss\<lparr>st_pos := st_pos ss + length w + 1\<rparr>"
    have "drop (st_pos ?ss) (st_data ?ss) = drop (Suc (length w)) r"
      by (simp add: r_def add.commute)
    then have d: "drop (st_pos ?ss) (st_data ?ss) = r'" using r' by simp
    have "field_at line j = field_at r' (j - Suc i)" if "Suc i \<le> j" for j
    proof -
      have "j - i = Suc (j - Suc i)" using that by simp
      with f [of j] that dw show ?thesis by simp
    qed
    moreover have "good ?ss" using True by (simp add: good_def)
    ultimately have "at_field line (Suc i) (?ss, w)" using d by (simp add: at_field_def)
    moreover have "getline comma ss column_str = (w, ?ss)"
      using True less by (simp add: getline_def Let_def r_def [symmetric] w_def [symmetric])
    ultimately show ?thesis using w by auto
  next
    case False
    then have "w = r"
      unfolding w_def by (metis length_takeWhile_le le_neq_implies_less takeWhile_eq_take take_all order_refl)
    then have dw: "dropWhile (\<lambda>c. c \<noteq> comma) r = []"
      unfolding w_def by (metis append_self_conv takeWhile_dropWhile_id)
    let ?ss = "ss\<lparr>st_pos := st_pos ss + length w, st_eof := True, st_fail := (r = [])\<rparr>"
    have "field_at line j = w" if "Suc i \<le> j" for j
    proof -
      have "j - i = Suc (j - Suc i)" using that by simp
      with f [of j] that dw show ?thesis by (simp add: w_def)
    qed
    then have "at_field line (Suc i) (?ss, w)" by (simp add: at_field_def good_def)
    moreover have "getline comma ss column_str = (w, ?ss)"
      using True False by (simp add: getline_def Let_def r_def [symmetric] w_def [symmetric])
    ultimately show ?thesis using w by auto
  qed
qed

lemma push_at_in: "i < length xs \<Longrightarrow> push_at xs i v = Inr (xs[i := xs ! i @ [v]])"
  by (simp add: push_at_def)

text \<open>The columns after \<open>i\<close> of them have received their next cell.\<close>

definition pushed :: "'a list list \<Rightarrow> (nat \<Rightarrow> 'a) \<Rightarrow> nat \<Rightarrow> 'a list list" where
  "pushed xs f i = map (\<lambda>j. if j < i then xs ! j @ [f j] else xs ! j) [0..<length xs]"

lemma pushed_0 [simp]: "pushed xs f 0 = xs"
  by (simp add: pushed_def map_nth)

lemma pushed_all: "pushed xs f (length xs) = map (\<lambda>j. xs ! j @ [f j]) [0..<length xs]"
  by (simp add: pushed_def)

lemma push_pushed:
  "i < length xs \<Longrightarrow> push_at (pushed xs f i) i (f i) = Inr (pushed xs f (Suc i))"
  by (subst push_at_in) (auto simp: pushed_def nth_list_update intro!: nth_equalityI)

lemma take_fields_spec:
  assumes "at_field line 0 s" and "length items = k"
  shows "\<exists>s'. at_field line k s' \<and>
    take_fields k s items = Inr (s', map (\<lambda>i. items ! i @ [field_at line i]) [0..<k])"
proof -
  let ?f = "\<lambda>idx ((ss, column_str), items). let (field, ss') = getline comma ss column_str in
         res_bind (push_at items idx field) (\<lambda>items'. Inr ((ss', field), items'))"
  have "\<exists>t. for_upto k ?f (s, items) = Inr t \<and>
      (at_field line k (fst t) \<and> snd t = pushed items (field_at line) k)"
  proof (rule for_upto_invariant [where
        P = "\<lambda>i t. at_field line i (fst t) \<and> snd t = pushed items (field_at line) i"])
    fix i and t :: "(stream \<times> string) \<times> string list list"
    assume i: "i < k" and inv: "at_field line i (fst t) \<and> snd t = pushed items (field_at line) i"
    obtain ss col where t: "t = ((ss, col), pushed items (field_at line) i)"
      using inv by (metis prod.collapse)
    from at_field_step [of line i ss col] inv t obtain ss' where
      "getline comma ss col = (field_at line i, ss')" "at_field line (Suc i) (ss', field_at line i)"
      by auto
    with t i push_pushed [of i items "field_at line"] assms(2)
    show "\<exists>t'. ?f i t = Inr t' \<and>
        at_field line (Suc i) (fst t') \<and> snd t' = pushed items (field_at line) (Suc i)"
      by simp
  qed (simp add: assms(1))
  then show ?thesis
    using assms(2) pushed_all [of items "field_at line"] by (auto simp: take_fields_def)
qed

text \<open>Splitting a line into \<open>k\<close> columns appends one cell to each, the field of that position; a
  line with too few fields repeats its last field instead of reporting an error.\<close>

lemma take_columns_spec:
  assumes "length items = k"
  shows "take_columns k line items = Inr (map (\<lambda>i. items ! i @ [field_at line i]) [0..<k])"
  using take_fields_spec [OF at_field_start [of line] assms] by (auto simp: take_columns_def)

section \<open>Rows with payloads\<close>

lemma take_payloads_spec:
  assumes "at_field line k s" and "length payloads = m"
    and v: "\<And>i. i < m \<Longrightarrow> stoull (field_at line (k + i)) = Inr (v i)"
  shows "take_payloads m s payloads = Inr (map (\<lambda>i. payloads ! i @ [v i]) [0..<m])"
proof -
  let ?f = "\<lambda>idx ((ss, column_str), payloads). let (field, ss') = getline comma ss column_str in
         res_bind (stoull field) (\<lambda>v.
         res_bind (push_at payloads idx v) (\<lambda>payloads'. Inr ((ss', field), payloads')))"
  have "\<exists>t. for_upto m ?f (s, payloads) = Inr t \<and>
      (at_field line (k + m) (fst t) \<and> snd t = pushed payloads v m)"
  proof (rule for_upto_invariant [where
        P = "\<lambda>i t. at_field line (k + i) (fst t) \<and> snd t = pushed payloads v i"])
    fix i and t :: "(stream \<times> string) \<times> 64 word list list"
    assume i: "i < m" and inv: "at_field line (k + i) (fst t) \<and> snd t = pushed payloads v i"
    obtain ss col where t: "t = ((ss, col), pushed payloads v i)"
      using inv by (metis prod.collapse)
    from at_field_step [of line "k + i" ss col] inv t obtain ss' where
      "getline comma ss col = (field_at line (k + i), ss')"
      "at_field line (k + Suc i) (ss', field_at line (k + i))"
      by auto
    with t i v [OF i] push_pushed [of i payloads v] assms(2)
    show "\<exists>t'. ?f i t = Inr t' \<and> at_field line (k + Suc i) (fst t') \<and> snd t' = pushed payloads v (Suc i)"
      by simp
  qed (simp add: assms(1))
  then show ?thesis
    using assms(2) pushed_all [of payloads v] by (auto simp: take_payloads_def)
qed

lemma take_row_spec:
  assumes "length items = k" and "length payloads = m"
    and "\<And>i. i < m \<Longrightarrow> stoull (field_at line (k + i)) = Inr (v i)"
  shows "take_row k m line (items, payloads) =
    Inr (map (\<lambda>i. items ! i @ [field_at line i]) [0..<k], map (\<lambda>i. payloads ! i @ [v i]) [0..<m])"
proof -
  obtain s where "at_field line k s"
      "take_fields k (stringstream line, []) items =
         Inr (s, map (\<lambda>i. items ! i @ [field_at line i]) [0..<k])"
    using take_fields_spec [OF at_field_start assms(1)] by blast
  with take_payloads_spec [OF this(1) assms(2,3)] show ?thesis by (simp add: take_row_def)
qed

section \<open>The text of a written file\<close>

fun join :: "string list \<Rightarrow> string" where
  "join [] = []"
| "join [c] = c"
| "join (c # d # cs) = c @ comma # join (d # cs)"

lemma join_append: "cs \<noteq> [] \<Longrightarrow> ds \<noteq> [] \<Longrightarrow> join (cs @ ds) = join cs @ comma # join ds"
proof (induction cs rule: join.induct)
  case (2 c)
  then show ?case by (cases ds) auto
qed auto

lemma join_loop:
  "cs \<noteq> [] \<Longrightarrow>
     concat (map (\<lambda>i. cs ! i @ [if i \<noteq> length cs - 1 then comma else e]) [0..<length cs]) =
     join cs @ [e]"
proof (induction cs rule: join.induct)
  case (3 c d cs)
  have shift: "[0..<length (c # d # cs)] = 0 # map Suc [0..<length (d # cs)]"
    by (metis length_Cons map_Suc_upt upt_conv_Cons zero_less_Suc)
  have tail: "map (\<lambda>i. (c # d # cs) ! i @ [if i \<noteq> length (c # d # cs) - 1 then comma else e])
      (map Suc [0..<length (d # cs)]) =
    map (\<lambda>i. (d # cs) ! i @ [if i \<noteq> length (d # cs) - 1 then comma else e]) [0..<length (d # cs)]"
    unfolding map_map by (rule map_cong [OF refl]) auto
  show ?case unfolding shift list.map(2) concat.simps(2) tail 3(1) [OF list.distinct(2)] by simp
qed auto

lemma field_at_join:
  "\<forall>c\<in>set cs. comma \<notin> set c \<Longrightarrow> i < length cs \<Longrightarrow> field_at (join cs) i = cs ! i"
proof (induction cs arbitrary: i rule: join.induct)
  case (2 c)
  then show ?case by (auto intro: takeWhile_eq_all_conv [THEN iffD2])
next
  case (3 c d cs)
  have tw: "takeWhile (\<lambda>x. x \<noteq> comma) (c @ comma # r) = c" for r
    using 3(2) by (auto simp: takeWhile_append2 intro: takeWhile_append2 [THEN trans])
  have dw: "dropWhile (\<lambda>x. x \<noteq> comma) (c @ comma # r) = comma # r" for r
    using 3(2) by (intro dropWhile_until) auto
  show ?case
  proof (cases i)
    case 0
    then show ?thesis by (simp add: tw)
  next
    case (Suc j)
    with 3(1) [of j] 3(2,3) show ?thesis by (simp add: dw)
  qed
qed simp

lemma pieces_join:
  "\<forall>c\<in>set cs. comma \<notin> set c \<Longrightarrow> cs \<noteq> [] \<Longrightarrow> last cs \<noteq> [] \<Longrightarrow> pieces comma (join cs) = cs"
  by (induction cs rule: join.induct) (auto simp: pieces_last pieces_line)

text \<open>Row \<open>j\<close> of a table given by its columns.\<close>

definition row_cells :: "string list list \<Rightarrow> 64 word list list \<Rightarrow> nat \<Rightarrow> string list" where
  "row_cells items payloads j =
     map (\<lambda>c. c ! j) items @ map (\<lambda>c. show_nat (unat (c ! j))) payloads"

lemma write_row_result:
  assumes "items \<noteq> []" and "payloads \<noteq> []" and "\<forall>c\<in>set items. j < length c"
    and "\<forall>c\<in>set payloads. j < length c"
  shows "write_row items payloads j out = Inr (out @ join (row_cells items payloads j) @ [newline])"
proof -
  let ?c = "map (\<lambda>c. c ! j) items" and ?p = "map (\<lambda>c. show_nat (unat (c ! j))) payloads"
  let ?g = "\<lambda>i. out @ concat (map (\<lambda>i. ?c ! i @ [if i \<noteq> length ?c - 1 then comma else comma]) [0..<i])"
  have a: "for_upto (length items) (\<lambda>i out.
         res_bind (vec_at items i) (\<lambda>column. res_bind (vec_at column j) (\<lambda>cell.
           Inr (out @ cell @
             [if i \<noteq> length items - 1 then comma else if payloads \<noteq> [] then comma else newline])))) (?g 0) =
      Inr (?g (length items))"
    by (rule for_upto_trace [where g = ?g]) (use assms in simp)
  let ?h = "\<lambda>i. ?g (length items) @
      concat (map (\<lambda>i. ?p ! i @ [if i \<noteq> length ?p - 1 then comma else newline]) [0..<i])"
  have b: "for_upto (length payloads) (\<lambda>i out.
         res_bind (vec_at payloads i) (\<lambda>column. res_bind (vec_at column j) (\<lambda>v.
           Inr (out @ show_nat (unat v) @ [if i \<noteq> length payloads - 1 then comma else newline])))) (?h 0) =
      Inr (?h (length payloads))"
    by (rule for_upto_trace [where g = ?h]) (use assms in simp)
  have "?g (length items) = out @ join ?c @ [comma]"
    using join_loop [of ?c comma] assms(1) by simp
  moreover have "?h (length payloads) = ?g (length items) @ join ?p @ [newline]"
    using join_loop [of ?p newline] assms(2) by simp
  moreover have "join (row_cells items payloads j) = join ?c @ comma # join ?p"
    unfolding row_cells_def using assms(1,2) by (intro join_append) simp_all
  ultimately have "?h (length payloads) = out @ join (row_cells items payloads j) @ [newline]" by simp
  moreover have "?g 0 = out" by simp
  moreover have "?h 0 = ?g (length items)" by simp
  ultimately show ?thesis
    unfolding write_row_def using a b by (simp only: res_bind_Inr)
qed

section \<open>Round trip\<close>

definition written :: "string list list \<Rightarrow> 64 word list list \<Rightarrow> nat \<Rightarrow> string" where
  "written items payloads n =
     concat (map (\<lambda>r. r @ [newline]) (map (\<lambda>j. join (row_cells items payloads j)) [0..<n]))"

text \<open>Columns of one length whose cells are non-empty and hold no separator.\<close>

definition table_ok :: "string list list \<Rightarrow> 64 word list list \<Rightarrow> nat \<Rightarrow> bool" where
  "table_ok items payloads n \<longleftrightarrow> items \<noteq> [] \<and> payloads \<noteq> [] \<and> 0 < n \<and>
     list_all (\<lambda>c. length c = n \<and>
       list_all (\<lambda>x. x \<noteq> [] \<and> comma \<notin> set x \<and> newline \<notin> set x) c) items \<and>
     list_all (\<lambda>c. length c = n) payloads"

lemma table_cells:
  assumes "table_ok items payloads n" and "j < n"
  shows "\<forall>x\<in>set (row_cells items payloads j). x \<noteq> [] \<and> comma \<notin> set x \<and> newline \<notin> set x"
    and "row_cells items payloads j \<noteq> []"
    and "length (row_cells items payloads j) = length items + length payloads"
  using assms show_nat_no_special
  by (auto simp: table_ok_def row_cells_def list_all_iff)

lemma join_no_newline: "\<forall>x\<in>set cs. newline \<notin> set x \<Longrightarrow> newline \<notin> set (join cs)"
  by (induction cs rule: join.induct) auto

lemma join_nonempty: "cs \<noteq> [] \<Longrightarrow> \<forall>x\<in>set cs. x \<noteq> [] \<Longrightarrow> join cs \<noteq> []"
  by (cases cs rule: join.cases) auto

lemma written_lines:
  assumes "table_ok items payloads n"
  shows "pieces newline (written items payloads n) =
    map (\<lambda>j. join (row_cells items payloads j)) [0..<n]"
proof -
  have "\<forall>r\<in>set (map (\<lambda>j. join (row_cells items payloads j)) [0..<n]). newline \<notin> set r"
    using table_cells(1) [OF assms] by (auto intro!: join_no_newline dest!: bspec)
  from pieces_lines [OF this, of "[]"] show ?thesis by (simp add: written_def)
qed

lemma write_table:
  assumes "table_ok items payloads n" and "writable path"
  shows "write_data_to_file writable fs items payloads path False header =
    Inr (fs(path \<mapsto> written items payloads n))"
proof -
  let ?g = "\<lambda>i. concat (map (\<lambda>r. r @ [newline]) (map (\<lambda>j. join (row_cells items payloads j)) [0..<i]))"
  have t: "items \<noteq> []" "payloads \<noteq> []" "\<forall>c\<in>set items. length c = n" "\<forall>c\<in>set payloads. length c = n"
    using assms(1) by (auto simp: table_ok_def list_all_iff)
  have "length (items ! 0) = n" using t(1,3) by (metis length_greater_0_conv nth_mem)
  moreover have "for_upto n (write_row items payloads) (?g 0) = Inr (?g n)"
  proof (rule for_upto_trace [where g = ?g])
    fix j assume "j < n"
    with t have "\<forall>c\<in>set items. j < length c" "\<forall>c\<in>set payloads. j < length c" by auto
    from write_row_result [OF t(1,2) this]
    show "write_row items payloads j (?g j) = Inr (?g (Suc j))" by simp
  qed
  ultimately show ?thesis
    using t(1) assms(2) by (simp add: write_data_to_file_def written_def)
qed

lemma row_fields:
  assumes "table_ok items payloads n" and "j < n"
  shows "i < length items \<Longrightarrow> field_at (join (row_cells items payloads j)) i = items ! i ! j"
    and "i < length payloads \<Longrightarrow>
      stoull (field_at (join (row_cells items payloads j)) (length items + i)) = Inr (payloads ! i ! j)"
proof -
  let ?cs = "row_cells items payloads j"
  have f: "field_at (join ?cs) i = ?cs ! i" if "i < length items + length payloads" for i
    using table_cells [OF assms] that by (intro field_at_join) auto
  show "i < length items \<Longrightarrow> field_at (join ?cs) i = items ! i ! j"
    by (subst f) (simp_all add: row_cells_def nth_append)
  assume i: "i < length payloads"
  have "unat (payloads ! i ! j) < 2 ^ 64"
    using unsigned_less [of "payloads ! i ! j", where ?'a = nat] by simp
  from stoull_show_nat [OF this, of "[]"] i
  show "stoull (field_at (join ?cs) (length items + i)) = Inr (payloads ! i ! j)"
    by (subst f) (simp_all add: row_cells_def nth_append)
qed

lemma take_rows:
  assumes "table_ok items payloads n"
  shows "fold_res (skip_empty (take_row (length items) (length payloads)))
      (map (\<lambda>j. join (row_cells items payloads j)) [0..<n])
      (replicate (length items) [], replicate (length payloads) []) = Inr (items, payloads)"
proof -
  let ?E = "skip_empty (take_row (length items) (length payloads))"
  let ?r = "\<lambda>j. join (row_cells items payloads j)"
  have len: "\<forall>c\<in>set items. length c = n" "\<forall>c\<in>set payloads. length c = n"
    using assms by (auto simp: table_ok_def list_all_iff)
  have step: "?E (?r j) (map (take j) items, map (take j) payloads) =
      Inr (map (take (Suc j)) items, map (take (Suc j)) payloads)" if j: "j < n" for j
  proof -
    have "?r j \<noteq> []" using table_cells [OF assms j] by (intro join_nonempty) auto
    then have "?E (?r j) (map (take j) items, map (take j) payloads) =
        Inr (map (\<lambda>i. map (take j) items ! i @ [field_at (?r j) i]) [0..<length items],
             map (\<lambda>i. map (take j) payloads ! i @ [payloads ! i ! j]) [0..<length payloads])"
      unfolding skip_empty_def using row_fields(2) [OF assms j]
      by (simp add: take_row_spec)
    moreover have "map (\<lambda>i. map (take j) items ! i @ [field_at (?r j) i]) [0..<length items] =
        map (take (Suc j)) items"
      using row_fields(1) [OF assms j] len j
      by (intro nth_equalityI) (simp_all add: take_Suc_conv_app_nth)
    moreover have "map (\<lambda>i. map (take j) payloads ! i @ [payloads ! i ! j]) [0..<length payloads] =
        map (take (Suc j)) payloads"
      using len j by (intro nth_equalityI) (simp_all add: take_Suc_conv_app_nth)
    ultimately show ?thesis by simp
  qed
  have "fold_res ?E (map ?r [0..<i]) (map (take 0) items, map (take 0) payloads) =
      Inr (map (take i) items, map (take i) payloads)" if "i \<le> n" for i
    using that by (induction i) (simp_all add: fold_res_append step)
  from this [of n] have "fold_res ?E (map ?r [0..<n]) (map (take 0) items, map (take 0) payloads) =
      Inr (map (take n) items, map (take n) payloads)" by simp
  moreover have "map (take n) items = items" "map (take n) payloads = payloads"
    using len by (auto intro!: map_idI)
  ultimately show ?thesis by (simp add: map_replicate_const)
qed

lemma fetch_resize:
  "c_items_columns_num self = k \<Longrightarrow> size_sub (c_columns_num self) k = m \<Longrightarrow> 0 < b \<Longrightarrow>
     get_next_batch_with_payloads_2d b self ([], []) =
     get_next_batch_with_payloads_2d b self (replicate k [], replicate m [])"
  by (simp add: get_next_batch_with_payloads_2d_def Let_def resize_def)

text \<open>C27: A table written without a header and read back in one batch gives the same items and
  payloads.\<close>

theorem csv_round_trip:
  assumes "table_ok items payloads n" and "path \<noteq> []" and "writable path"
    and "n \<le> b" and "length (written items payloads n) \<le> max_strings"
    and "length items + length payloads \<le> max_vectors"
  shows "\<exists>fs' self self'. write_data_to_file writable fs items payloads path False header = Inr fs' \<and>
    csv_open fs' path False (length items) = Inr self \<and>
    get_next_batch_with_payloads_2d b self ([], []) = Inr (self', items, payloads)"
proof -
  let ?w = "written items payloads n" and ?k = "length items" and ?m = "length payloads"
  let ?r = "\<lambda>j. join (row_cells items payloads j)"
  let ?self = "opened False ?k ?w"
  have n: "0 < n" using assms(1) by (simp add: table_ok_def)
  note lines = written_lines [OF assms(1)]
  have ne: "?w \<noteq> []" using lines n by (metis length_map length_upt less_nat_zero_code list.size(3)
        diff_zero pieces_Nil)
  have "?r j \<noteq> []" if "j < n" for j
    using table_cells [OF assms(1) that] by (intro join_nonempty) auto
  then have nonempty: "\<forall>l\<in>set (pieces newline ?w). l \<noteq> []"
    unfolding lines by auto
  have rows: "data_rows False ?w = map ?r [0..<n]" by (simp add: data_rows_def lines)
  have count: "row_count False ?w = n"
    using no_blank_count [OF nonempty ne, of False] rows by simp
  have "pieces comma (?r 0) = row_cells items payloads 0"
    using table_cells [OF assms(1) n] by (intro pieces_join) auto
  then have "column_count ?w = ?k + ?m"
    using table_cells [OF assms(1) n] n lines
    by (simp add: column_count_def upt_conv_Cons)
  moreover have "?k + ?m < 2 ^ 64" using assms(6) by (simp add: max_vectors_def)
  ultimately have m: "size_sub (column_count ?w) ?k = ?m" by (simp add: size_sub_def)
  have ok: "csv_ok_2d ?k ?m ?self"
    using opened_ok(1) [OF ne assms(5), of ?k False] assms(6) m by (simp add: csv_ok_2d_def)
  have view: "take b (csv_view ?self) = map ?r [0..<n]"
    using assms(4) by (simp add: opened_ok(2) [OF ne assms(5)] count rows)
  from batch_payloads_2d.fetch_lines [OF ok, of "(replicate ?k [], replicate ?m [])" b]
  obtain self' where "get_next_batch_with_payloads_2d b ?self (replicate ?k [], replicate ?m []) =
      Inr (self', items, payloads)"
    by (auto simp: view take_rows [OF assms(1)])
  moreover have "get_next_batch_with_payloads_2d b ?self ([], []) =
      get_next_batch_with_payloads_2d b ?self (replicate ?k [], replicate ?m [])"
    using n assms(4) m by (intro fetch_resize) (simp_all add: opened_def)
  moreover have "csv_open (fs(path \<mapsto> ?w)) path False ?k = Inr ?self"
    using assms(2) by (intro csv_open_result) simp_all
  ultimately show ?thesis
    unfolding write_table [where writable = writable and path = path, OF assms(1,3)] by auto
qed

theorem csv_round_trip_witness:
  "\<exists>fs' self self'. write_data_to_file (\<lambda>_. True) Map.empty [[''a'', ''b''], [''x'', ''y'']] [[7, 8]] ''f'' False [] =
      Inr fs' \<and>
    csv_open fs' ''f'' False 2 = Inr self \<and>
    get_next_batch_with_payloads_2d 5 self ([], []) = Inr (self', [[''a'', ''b''], [''x'', ''y'']], [[7, 8]])"
proof -
  have "\<exists>fs' self self'. write_data_to_file (\<lambda>_. True) Map.empty [[''a'', ''b''], [''x'', ''y'']] [[7, 8]] ''f'' False [] =
        Inr fs' \<and>
      csv_open fs' ''f'' False (length [[''a'', ''b''], [''x'', ''y'']]) = Inr self \<and>
      get_next_batch_with_payloads_2d 5 self ([], []) =
        Inr (self', [[''a'', ''b''], [''x'', ''y'']], [[7, 8]])"
  proof (rule csv_round_trip [where n = 2])
    show "table_ok [[''a'', ''b''], [''x'', ''y'']] [[7, 8]] 2" by (simp add: table_ok_def)
    show "length (written [[''a'', ''b''], [''x'', ''y'']] [[7, 8]] 2) \<le> max_strings"
    proof -
      have "length (show_nat 7) = 1" "length (show_nat 8) = 1"
        by (subst show_nat.simps, simp)+
      moreover have "[0..<2] = [0, 1 :: nat]" by (simp add: upt_conv_Cons)
      ultimately show ?thesis by (simp add: written_def row_cells_def max_strings_def)
    qed
  qed (simp_all add: max_vectors_def)
  then show ?thesis by (simp add: numeral_2_eq_2)
qed

section \<open>Column arithmetic\<close>

text \<open>A file with fewer columns than the configured number of item columns makes the payload
  reader compute a negative column count, which wraps around and ends in a length error.\<close>

lemma csv_too_few_columns:
  assumes "c_columns_num self < c_items_columns_num self" and "c_items_columns_num self \<le> max_vectors"
    and "0 < b"
  shows "get_next_batch_with_payloads_2d b self out =
    Inl (Length_Error ''vector::_M_default_append'')"
proof -
  let ?c = "c_columns_num self" and ?k = "c_items_columns_num self"
  have small: "?k < 2 ^ 64" using assms(2) by (simp add: max_vectors_def)
  then have "size_sub ?c ?k = 2 ^ 64 - (?k - ?c)"
    using assms(1) by (simp add: size_sub_def)
  then have "max_vectors < size_sub ?c ?k"
    using assms(1,2) by (simp add: max_vectors_def)
  then show ?thesis
    using assms(2,3) by (simp add: get_next_batch_with_payloads_2d_def Let_def vec_grow_def)
qed

end
