(* ===== verification/Csv_States.thy ===== *)
theory Csv_States
  imports Csv_Properties
begin

text \<open>
  The state of a CSV provider through its life: the steps a client can take after construction
  as a relation, and the invariant that ties the row index to the position in the stream in
  every reachable state.
\<close>

section \<open>Steps of a provider\<close>

text \<open>One call of one of the reading operations that returns, or of \<open>seek_begin\<close>.\<close>

inductive csv_step :: "csv \<Rightarrow> csv \<Rightarrow> bool" where
  items: "get_next_batch b self out = Inr (self', out') \<Longrightarrow> csv_step self self'"
| items_2d: "get_next_batch_2d b self out = Inr (self', out') \<Longrightarrow> csv_step self self'"
| payloads: "get_next_batch_with_payloads b self out = Inr (self', out') \<Longrightarrow> csv_step self self'"
| payloads_2d: "get_next_batch_with_payloads_2d b self out = Inr (self', out') \<Longrightarrow> csv_step self self'"
| again: "csv_step self (seek_begin self)"

text \<open>
  The four reading operations change the object in the same way: not at all, or by moving the
  stream over \<open>read_lines_count\<close> lines and counting them.
\<close>

definition moved :: "nat \<Rightarrow> stream \<Rightarrow> stream \<Rightarrow> bool" where
  "moved n st st' \<longleftrightarrow> st_data st' = st_data st \<and>
     (n \<le> length (pending newline st) \<longrightarrow> pending newline st' = drop n (pending newline st))"

lemma read_lines_moved: "read_lines body n st out = Inr (st', out') \<Longrightarrow> moved n st st'"
  using read_lines_pending [of n st body out] read_lines_data [of body n st out st' out']
  by (fastforce simp: moved_def res_bind_eq_Inr)

inductive read_once :: "csv \<Rightarrow> csv \<Rightarrow> bool" where
  nothing: "read_once self self"
| lines: "moved (read_lines_count self b) (c_stream self) st \<Longrightarrow>
    read_once self (advance self (read_lines_count self b) st)"

lemma csv_step_cases:
  assumes "csv_step self self'"
  shows "read_once self self' \<or> self' = seek_begin self"
  using assms
proof cases
  case (items b out out')
  then show ?thesis
    by (auto simp: get_next_batch_def Let_def res_bind_eq_Inr intro: read_once.intros read_lines_moved split: if_splits)
next
  case (items_2d b out out')
  then show ?thesis
    by (auto simp: get_next_batch_2d_def Let_def res_bind_eq_Inr intro: read_once.intros read_lines_moved split: if_splits)
next
  case (payloads b out out')
  then show ?thesis
    by (auto simp: get_next_batch_with_payloads_def Let_def res_bind_eq_Inr intro: read_once.intros read_lines_moved
        split: if_splits)
next
  case (payloads_2d b out out')
  then show ?thesis
    by (auto simp: get_next_batch_with_payloads_2d_def Let_def res_bind_eq_Inr intro: read_once.intros read_lines_moved
        split: if_splits)
qed simp

section \<open>The invariant\<close>

text \<open>
  The counters are those of the file, the stream reads the file, and the lines it still has are
  the data rows from the row index on.
\<close>

definition csv_state :: "bool \<Rightarrow> nat \<Rightarrow> string \<Rightarrow> csv \<Rightarrow> bool" where
  "csv_state h k content self \<longleftrightarrow>
     c_has_header self = h \<and> c_items_columns_num self = k \<and>
     c_rows_num self = row_count h content \<and> c_columns_num self = column_count content \<and>
     c_cur_line_idx self \<le> row_count h content \<and>
     st_data (c_stream self) = content \<and>
     pending newline (c_stream self) = drop (c_cur_line_idx self) (data_rows h content)"

lemma csv_state_opened: "csv_state h k content (opened h k content)"
  by (simp add: csv_state_def opened_def pending_skip_header data_rows_def)
     (simp add: skip_header_def getline_data stringstream_def)

lemma csv_state_seek_begin:
  assumes "csv_state h k content self"
  shows "seek_begin self = opened h k content"
  using assms by (cases self) (auto simp: csv_state_def seek_begin_def rewind opened_def)

lemma csv_state_ok:
  assumes "csv_state h k content self" and "content \<noteq> []" and "length content \<le> max_strings"
  shows "csv_ok k (size_sub (column_count content) k) self"
proof -
  have "length (data_rows h content) \<le> max_strings"
    using length_pieces [of newline content] assms(3) by (auto simp: data_rows_def)
  with row_count_le [OF assms(2), of h] assms(1) show ?thesis
    by (auto simp: csv_state_def csv_ok_def)
qed

lemma csv_state_read:
  assumes "csv_state h k content self" and "content \<noteq> []" and "length content \<le> max_strings"
    and "read_once self self'"
  shows "csv_state h k content self'"
  using assms(4)
proof cases
  case nothing
  with assms(1) show ?thesis by simp
next
  case (lines b st)
  let ?n = "read_lines_count self b"
  note ok = csv_state_ok [OF assms(1-3)]
  have p: "pending newline st = drop ?n (pending newline (c_stream self))"
    and d: "st_data st = st_data (c_stream self)"
    using lines(2) csv_ok_count(5) [OF ok, of b] by (simp_all add: moved_def)
  from ok have "c_rows_num self < 2 ^ 64" by (simp add: csv_ok_def max_strings_def)
  moreover have le: "c_cur_line_idx self + ?n \<le> c_rows_num self"
    using csv_ok_count(1) [OF ok, of b] ok by (auto simp: csv_ok_def min_def)
  ultimately have "(c_cur_line_idx self + ?n) mod 2 ^ 64 = c_cur_line_idx self + ?n" by simp
  with assms(1) p d le show ?thesis
    unfolding lines(1) by (simp add: csv_state_def advance_def add.commute)
qed

text \<open>C11: However a client mixes batches of the four kinds, of any sizes, with \<open>seek_begin\<close>, in every
  reachable state of the provider the counters are those of the file, the row index is at most
  the row count, the stream stands exactly at the row of the index, and rewinding gives the
  state of a new provider.\<close>

theorem csv_reachable_invariant:
  assumes "csv_open fs path h k = Inr self" and "fs path = Some content"
    and "content \<noteq> []" and "length content \<le> max_strings" and "csv_step\<^sup>*\<^sup>* self self'"
  shows "c_cur_line_idx self' \<le> c_rows_num self' \<and> c_rows_num self' = c_rows_num self \<and>
    c_columns_num self' = c_columns_num self \<and> c_items_columns_num self' = k \<and>
    pending newline (c_stream self') = drop (c_cur_line_idx self') (data_rows h content) \<and>
    seek_begin self' = self"
proof -
  have self: "self = opened h k content"
    using assms(1) csv_open_result [of path fs content h k] assms(2)
    by (auto simp: csv_open_def split: if_splits)
  have "csv_state h k content self'"
    using assms(5)
  proof (induction rule: rtranclp_induct)
    case base
    then show ?case by (simp add: self csv_state_opened)
  next
    case (step s t)
    from csv_step_cases [OF step.hyps(2)] show ?case
      using csv_state_read [OF step.IH assms(3,4)] csv_state_seek_begin [OF step.IH]
      by (auto simp: csv_state_opened)
  qed
  with csv_state_seek_begin [OF this] show ?thesis
    by (auto simp: csv_state_def self opened_def)
qed

lemma example_steps:
  defines "s \<equiv> opened False 1 (''a'' @ [newline] @ ''b'')"
  shows "\<exists>s'. csv_step\<^sup>*\<^sup>* s s' \<and> c_cur_line_idx s' = 1"
proof -
  have "csv_ok 1 (size_sub 1 1) s"
    unfolding s_def using opened_ok(1) [where content = "''a'' @ [newline] @ ''b''" and h = False and k = 1]
    by (simp add: max_strings_def column_count_def)
  from batch_items.fetch_lines [OF this TrueI, of 1 "[]"] obtain s' where
    "get_next_batch 1 s [] = Inr (s', [''a''])"
    by (auto simp: s_def max_strings_def opened_ok(2) skip_empty_def take_item_def data_rows_def row_count_def)
  moreover from this have "c_cur_line_idx s' = 1"
    by (auto simp: get_next_batch_def Let_def res_bind_eq_Inr advance_def s_def opened_def
        read_lines_count_def size_sub_def row_count_def split: if_splits)
  ultimately show ?thesis by (blast intro: csv_step.items)
qed

theorem csv_reachable_invariant_witness:
  "\<exists>self self'. csv_open [''f'' \<mapsto> ''a'' @ [newline] @ ''b''] ''f'' False 1 = Inr self \<and>
     csv_step\<^sup>*\<^sup>* self self' \<and> c_cur_line_idx self' = 1 \<and>
     pending newline (c_stream self') = [''b''] \<and> seek_begin self' = self"
proof -
  let ?c = "''a'' @ [newline] @ ''b''"
  have o: "csv_open [''f'' \<mapsto> ?c] ''f'' False 1 = Inr (opened False 1 ?c)"
    by (rule csv_open_result) simp_all
  obtain s' where s': "csv_step\<^sup>*\<^sup>* (opened False 1 ?c) s'" "c_cur_line_idx s' = 1"
    using example_steps by auto
  from csv_reachable_invariant [OF o _ _ _ s'(1)] s' o show ?thesis
    by (auto simp: max_strings_def data_rows_def)
qed

end
