(* ===== verification/Utility_Properties.thy ===== *)
theory Utility_Properties
  imports Ecdh_Properties
begin

text \<open>
  Properties of the helpers under the two protocols: the random permutation and its undoing,
  the parallel encryption loop, and the exchange that compares a parameter with the peer's.
\<close>

section \<open>Permutations\<close>

text \<open>C29: The permutation a party draws rearranges its vector, and undoing it on any vector obtained
  element by element from the rearranged one restores the original order: what comes back from
  the peer is aligned with the input keys again.\<close>

theorem shuffle_round_trip:
  assumes "uniform_ok draw"
  shows "\<exists>p h ys. generate_permutation draw g (length xs) = Inr (p, h) \<and>
    permute_and_undo d p True xs = Inr ys \<and> mset ys = mset xs \<and>
    (\<forall>f. permute_and_undo e p False (map f ys) = Inr (map f xs))"
proof -
  from generate_permutation_perm [OF assms] obtain p h where
    p: "generate_permutation draw g (length xs) = Inr (p, h)" "mset p = mset [0..<length xs]" by blast
  show ?thesis
    by (intro exI conjI allI, rule p(1), rule permute_perm [OF p(2)], rule mset_map_nth_perm [OF p(2)],
        rule permute_undo_map [OF p(2)])
qed

theorem shuffle_round_trip_witness:
  "\<exists>p h ys. generate_permutation replay [0, 1] (length ''xyz'') = Inr (p, h) \<and>
    permute_and_undo CHR ''-'' p True ''xyz'' = Inr ys \<and> mset ys = mset ''xyz'' \<and>
    (\<forall>f. permute_and_undo (0 :: nat) p False (map f ys) = Inr (map f ''xyz''))"
  by (rule shuffle_round_trip) (rule uniform_ok_replay)

text \<open>Every permutation of the positions can be drawn: for each there is a sequence of draws on which
  \<open>generate_permutation\<close> returns it.\<close>

lemma generate_permutation_complete:
  assumes "mset p = mset [0..<n]"
  shows "\<exists>js. generate_permutation replay js n = Inr (p, [])"
  unfolding generate_permutation_def using assms by (rule std_shuffle_onto)

section \<open>The parallel loop\<close>

text \<open>C30: The iterations of the parallel loop of \<open>encrypt_keys\<close>, run in any order the threads produce,
  store at each position the encryption of the input key of that position, the same vector as
  the loop in index order.\<close>

theorem encrypt_keys_any_order:
  assumes "mset p = mset [0..<length ks]" and "length t = length ks"
  shows "fold_res (encrypt_step self ks) p t = encrypt_keys self ks t \<and>
    encrypt_keys self ks t = Inr (map (enc_key (e_ecc_cipher self) (e_sk self)) ks)"
  by (simp add: encrypt_keys_any_schedule [OF assms] encrypt_keys_result [OF assms(2)])

theorem encrypt_keys_any_order_witness:
  "fold_res (encrypt_step (toy_party True True False 3) [''a'', ''b'', ''c'']) [2, 0, 1] [[], [], []] =
     encrypt_keys (toy_party True True False 3) [''a'', ''b'', ''c''] [[], [], []] \<and>
   encrypt_keys (toy_party True True False 3) [''a'', ''b'', ''c''] [[], [], []] =
     Inr (map (enc_key (e_ecc_cipher (toy_party True True False 3)) (e_sk (toy_party True True False 3))) [''a'', ''b'', ''c''])"
  by (rule encrypt_keys_any_order) (simp_all add: upt_rec)

end
