(* ===== verification/Factory.thy ===== *)
theory Factory
  imports Prelude
begin

text \<open>
  \<open>memory_psi_factory.h\<close>: the two factories, each a \<open>std::map\<close> from a scheme to a function
  that creates an object. The map is the list of its entries in key order; \<open>insert\<close> keeps an
  entry that is already there. A creator stands for the object it makes.
\<close>

section \<open>Schemes\<close>

text \<open>The members of the second enumeration carry a prefix, its \<open>VOLE_PSI\<close> being a name of both.\<close>

datatype psi_scheme = ECDH_PSI | KKRT_PSI | VOLE_PSI
datatype pjc_scheme = PJC_DPCA_PSI | PJC_CIRCUIT_PSI | PJC_VOLE_PSI

datatype psi_object = Ecdh_Psi_Object | Kkrt_Psi_Object
datatype pjc_object = Circuit_Psi_Object

text \<open>The underlying integers, which order the keys of the map.\<close>

primrec psi_code :: "psi_scheme \<Rightarrow> nat" where
  "psi_code ECDH_PSI = 0"
| "psi_code KKRT_PSI = 1"
| "psi_code VOLE_PSI = 2"

primrec pjc_code :: "pjc_scheme \<Rightarrow> nat" where
  "pjc_code PJC_DPCA_PSI = 0"
| "pjc_code PJC_CIRCUIT_PSI = 1"
| "pjc_code PJC_VOLE_PSI = 2"

lemma psi_code_inject: "psi_code x = psi_code y \<longleftrightarrow> x = y"
  by (cases x; cases y) simp_all

lemma pjc_code_inject: "pjc_code x = pjc_code y \<longleftrightarrow> x = y"
  by (cases x; cases y) simp_all

instantiation psi_scheme :: linorder
begin

definition less_eq_psi_scheme :: "psi_scheme \<Rightarrow> psi_scheme \<Rightarrow> bool" where
  "less_eq_psi_scheme x y \<longleftrightarrow> psi_code x \<le> psi_code y"

definition less_psi_scheme :: "psi_scheme \<Rightarrow> psi_scheme \<Rightarrow> bool" where
  "less_psi_scheme x y \<longleftrightarrow> psi_code x < psi_code y"

instance
  by standard (auto simp: less_eq_psi_scheme_def less_psi_scheme_def psi_code_inject [symmetric])

end

instantiation pjc_scheme :: linorder
begin

definition less_eq_pjc_scheme :: "pjc_scheme \<Rightarrow> pjc_scheme \<Rightarrow> bool" where
  "less_eq_pjc_scheme x y \<longleftrightarrow> pjc_code x \<le> pjc_code y"

definition less_pjc_scheme :: "pjc_scheme \<Rightarrow> pjc_scheme \<Rightarrow> bool" where
  "less_pjc_scheme x y \<longleftrightarrow> pjc_code x < pjc_code y"

instance
  by standard (auto simp: less_eq_pjc_scheme_def less_pjc_scheme_def pjc_code_inject [symmetric])

end

section \<open>The ordered map\<close>

type_synonym ('k, 'v) creator_map = "('k \<times> 'v) list"

fun map_find :: "('k::linorder, 'v) creator_map \<Rightarrow> 'k \<Rightarrow> 'v option" where
  "map_find [] k = None"
| "map_find ((k', v) # m) k = (if k = k' then Some v else if k < k' then None else map_find m k)"

fun map_insert :: "('k::linorder, 'v) creator_map \<Rightarrow> 'k \<Rightarrow> 'v \<Rightarrow> ('k, 'v) creator_map" where
  "map_insert [] k v = [(k, v)]"
| "map_insert ((k', v') # m) k v =
     (if k = k' then (k', v') # m
      else if k < k' then (k, v) # (k', v') # m else (k', v') # map_insert m k v)"

definition map_ok :: "('k::linorder, 'v) creator_map \<Rightarrow> bool" where
  "map_ok m \<longleftrightarrow> sorted_wrt (<) (map fst m)"

lemma map_insert_keys: "set (map fst (map_insert m k v)) = insert k (set (map fst m))"
  by (induction m k v rule: map_insert.induct) auto

lemma map_insert_ok: "map_ok m \<Longrightarrow> map_ok (map_insert m k v)"
proof (induction m k v rule: map_insert.induct)
  case (2 k' v' m k v)
  have below: "\<forall>l\<in>set (map fst m). k' < l" and rest: "map_ok m"
    using 2(2) by (simp_all add: map_ok_def)
  consider "k = k'" | "k < k'" | "k' < k" by (rule linorder_cases)
  then show ?case
  proof cases
    case 1
    with 2(2) show ?thesis by simp
  next
    case 2
    moreover from this below have "\<forall>l\<in>set (map fst m). k < l" by (meson less_trans)
    ultimately show ?thesis using below rest by (simp add: map_ok_def)
  next
    case 3
    then have "map_ok (map_insert m k v)" using rest "2"(1) by auto
    moreover have "\<forall>l\<in>set (map fst (map_insert m k v)). k' < l"
      using 3 below by (simp only: map_insert_keys) simp
    ultimately show ?thesis using 3 by (auto simp: map_ok_def)
  qed
qed (simp add: map_ok_def)

lemma map_find_insert:
  "map_ok m \<Longrightarrow> map_find (map_insert m k v) l =
     (if l = k then (case map_find m k of None \<Rightarrow> Some v | Some w \<Rightarrow> Some w) else map_find m l)"
proof (induction m k v rule: map_insert.induct)
  case (2 k' v' m k v)
  then show ?case by (auto simp: map_ok_def split: option.splits)
qed auto

section \<open>The contract of a registry\<close>

text \<open>A registry of creators: what is registered first is what is built.\<close>

locale registry =
  fixes ok :: "'m \<Rightarrow> bool"
    and empty :: 'm
    and find :: "'m \<Rightarrow> 'k \<Rightarrow> 'v option"
    and register :: "'m \<Rightarrow> 'k \<Rightarrow> 'v \<Rightarrow> 'm"
  assumes ok_empty: "ok empty" and find_empty: "find empty l = None"
    and ok_register: "ok m \<Longrightarrow> ok (register m k v)"
    and find_register: "ok m \<Longrightarrow> find (register m k v) l =
      (if l = k then (case find m k of None \<Rightarrow> Some v | Some w \<Rightarrow> Some w) else find m l)"
begin

definition register_all :: "('k \<times> 'v) list \<Rightarrow> 'm" where
  "register_all es = foldl (\<lambda>m (k, v). register m k v) empty es"

lemma register_all_find:
  "ok (register_all es) \<and> find (register_all es) l = map_of es l"
proof (induction es rule: rev_induct)
  case Nil
  then show ?case by (simp add: register_all_def ok_empty find_empty)
next
  case (snoc e es)
  obtain k v where e: "e = (k, v)" by (cases e)
  have "register_all (es @ [e]) = register (register_all es) k v" by (simp add: register_all_def e)
  with snoc ok_register find_register show ?case
    by (auto simp: e map_add_def split: option.splits)
qed

end

interpretation psi_registry: registry map_ok "[]" map_find map_insert
proof unfold_locales
  show "map_ok []" by (simp add: map_ok_def)
qed (simp_all add: map_insert_ok map_find_insert)

section \<open>The factories\<close>

definition creator_not_registered :: error where
  "creator_not_registered = Invalid_Argument ''PSI creator not registered.''"

definition build :: "('k::linorder, 'v) creator_map \<Rightarrow> 'k \<Rightarrow> 'v res" where
  "build creator_map scheme =
     (case map_find creator_map scheme of
        None \<Rightarrow> Inl creator_not_registered
      | Some creator \<Rightarrow> Inr creator)"

definition register_psi ::
  "(psi_scheme, psi_object) creator_map \<Rightarrow> psi_scheme \<Rightarrow> psi_object \<Rightarrow>
     (psi_scheme, psi_object) creator_map" where
  "register_psi m scheme creator = map_insert m scheme creator"

definition psi_factory :: "(psi_scheme, psi_object) creator_map" where
  "psi_factory =
     register_psi (register_psi [] ECDH_PSI Ecdh_Psi_Object) KKRT_PSI Kkrt_Psi_Object"

definition build_psi :: "psi_scheme \<Rightarrow> psi_object res" where
  "build_psi scheme = build psi_factory scheme"

definition register_pjc ::
  "(pjc_scheme, pjc_object) creator_map \<Rightarrow> pjc_scheme \<Rightarrow> pjc_object \<Rightarrow>
     (pjc_scheme, pjc_object) creator_map" where
  "register_pjc m scheme creator = map_insert m scheme creator"

definition pjc_factory :: "(pjc_scheme, pjc_object) creator_map" where
  "pjc_factory = register_pjc [] PJC_CIRCUIT_PSI Circuit_Psi_Object"

definition build_pjc :: "pjc_scheme \<Rightarrow> pjc_object res" where
  "build_pjc scheme = build pjc_factory scheme"

text \<open>The PSI factory builds an object for exactly the two registered schemes.\<close>

lemma build_psi_schemes:
  "build_psi ECDH_PSI = Inr Ecdh_Psi_Object \<and> build_psi KKRT_PSI = Inr Kkrt_Psi_Object \<and>
   build_psi VOLE_PSI = Inl creator_not_registered"
proof -
  have "psi_factory =
      psi_registry.register_all [(ECDH_PSI, Ecdh_Psi_Object), (KKRT_PSI, Kkrt_Psi_Object)]"
    by (simp add: psi_factory_def register_psi_def psi_registry.register_all_def)
  then have factory: "map_find psi_factory scheme =
      map_of [(ECDH_PSI, Ecdh_Psi_Object), (KKRT_PSI, Kkrt_Psi_Object)] scheme" for scheme
    using psi_registry.register_all_find [THEN conjunct2] by (metis (no_types))
  show ?thesis by (simp add: build_psi_def build_def factory)
qed

end
