(* ===== verification/Dummy_Data.thy ===== *)
theory Dummy_Data
  imports Prelude
begin

text \<open>
  \<open>util/dummy_data_util.h\<close>: random keys, thirty-two characters that alternate between digits
  and letters and a suffix, and random features. The sampling functions of PETAce-Solo are
  parameters that return a value and the generator after it.
\<close>

definition kIdentifierLen :: nat where "kIdentifierLen = 32"

definition alphabet :: string where
  "alphabet = ''ABCDEFGHIJKLMNOPQRSTUVWXYZabcdefghijklmnopqrstuvwxyz''"

definition digits :: string where "digits = ''0123456789''"

text \<open>One more character, a letter at the odd positions.\<close>

definition next_char :: "('g \<Rightarrow> byte \<times> 'g) \<Rightarrow> nat \<Rightarrow> string \<times> 'g \<Rightarrow> (string \<times> 'g) res" where
  "next_char sample_byte idx s =
     (case s of (identifier, g) \<Rightarrow>
        let (b, g') = sample_byte g; pool = (if odd idx then alphabet else digits) in
        res_bind (vec_at pool (unat b mod length pool)) (\<lambda>c. Inr (identifier @ [c], g')))"

definition generate_random_keys ::
  "('g \<Rightarrow> byte \<times> 'g) \<Rightarrow> nat \<Rightarrow> string \<Rightarrow> string list \<Rightarrow> 'g \<Rightarrow> (string list \<times> 'g) res" where
  "generate_random_keys sample_byte n suffix result g =
     res_bind (vec_reserve ((2 ^ 63 - 1) div 32) n) (\<lambda>_.
     for_upto n (\<lambda>i (result, g).
       res_bind (for_upto kIdentifierLen (next_char sample_byte) ([], g)) (\<lambda>(identifier, g').
         Inr (result @ [identifier @ suffix], g')))
       (result, g))"

definition generate_random_features ::
  "('g \<Rightarrow> 64 word \<times> 'g) \<Rightarrow> nat \<Rightarrow> bool \<Rightarrow> 64 word list \<Rightarrow> 'g \<Rightarrow> (64 word list \<times> 'g) res" where
  "generate_random_features sample_uint64 n is_zero result g =
     res_bind (vec_grow ((2 ^ 63 - 1) div 8) n) (\<lambda>_.
       let resized = take n result @ replicate (n - length result) 0 in
       if is_zero then Inr (resized, g)
       else for_upto n (\<lambda>i (result, g). let (v, g') = sample_uint64 g in
              res_bind (vec_set result i v) (\<lambda>r. Inr (r, g'))) (resized, g))"

section \<open>The shape of the data\<close>

definition key_shape :: "string \<Rightarrow> string \<Rightarrow> bool" where
  "key_shape suffix key \<longleftrightarrow> length key = kIdentifierLen + length suffix \<and>
     drop kIdentifierLen key = suffix \<and>
     list_all (\<lambda>i. key ! i \<in> set (if odd i then alphabet else digits)) [0..<kIdentifierLen]"

lemma next_char_result:
  "\<exists>c g'. next_char sample i (s, g) = Inr (s @ [c], g') \<and>
     c \<in> set (if odd i then alphabet else digits)"
proof -
  let ?pool = "if odd i then alphabet else digits"
  obtain b g' where b: "sample g = (b, g')" by fastforce
  have "0 < length ?pool" by (simp add: alphabet_def digits_def)
  then have l: "unat b mod length ?pool < length ?pool" by simp
  then have "next_char sample i (s, g) = Inr (s @ [?pool ! (unat b mod length ?pool)], g')"
    by (simp add: next_char_def b Let_def del: if_split)
  with nth_mem [OF l] show ?thesis by blast
qed

lemma identifier_result:
  "\<exists>s g'. for_upto n (next_char sample) ([], g) = Inr (s, g') \<and> length s = n \<and>
     (\<forall>i<n. s ! i \<in> set (if odd i then alphabet else digits))"
proof -
  have "\<exists>t. for_upto n (next_char sample) ([], g) = Inr t \<and> (length (fst t) = n \<and>
     (\<forall>i<n. fst t ! i \<in> set (if odd i then alphabet else digits)))"
  proof (rule for_upto_invariant [where P = "\<lambda>k t. length (fst t) = k \<and>
     (\<forall>i<k. fst t ! i \<in> set (if odd i then alphabet else digits))"])
    fix k and t :: "string \<times> 'a"
    assume inv: "length (fst t) = k \<and> (\<forall>i<k. fst t ! i \<in> set (if odd i then alphabet else digits))"
    from next_char_result [of sample k "fst t" "snd t"] obtain c g' where
      "next_char sample k t = Inr (fst t @ [c], g')" "c \<in> set (if odd k then alphabet else digits)"
      by auto
    with inv show "\<exists>t'. next_char sample k t = Inr t' \<and> length (fst t') = Suc k \<and>
        (\<forall>i<Suc k. fst t' ! i \<in> set (if odd i then alphabet else digits))"
      by (auto simp: less_Suc_eq nth_append)
  qed simp
  then show ?thesis by auto
qed

lemma generate_random_keys_shape:
  assumes "n \<le> (2 ^ 63 - 1) div 32"
  shows "\<exists>keys g'. generate_random_keys sample n suffix result g = Inr (result @ keys, g') \<and>
    length keys = n \<and> list_all (key_shape suffix) keys"
proof -
  let ?f = "\<lambda>i (result, g).
       res_bind (for_upto kIdentifierLen (next_char sample) ([], g)) (\<lambda>(identifier, g').
         Inr (result @ [identifier @ suffix], g'))"
  have "\<exists>t. for_upto n ?f (result, g) = Inr t \<and>
      (\<exists>keys. fst t = result @ keys \<and> length keys = n \<and> list_all (key_shape suffix) keys)"
  proof (rule for_upto_invariant [where P = "\<lambda>k t.
      \<exists>keys. fst t = result @ keys \<and> length keys = k \<and> list_all (key_shape suffix) keys"])
    fix k and t :: "string list \<times> 'a"
    assume "\<exists>keys. fst t = result @ keys \<and> length keys = k \<and> list_all (key_shape suffix) keys"
    then obtain keys h where t: "t = (result @ keys, h)" "length keys = k"
        "list_all (key_shape suffix) keys" by (metis prod.collapse)
    from identifier_result [of kIdentifierLen sample h] obtain s h' where
      s: "for_upto kIdentifierLen (next_char sample) ([], h) = Inr (s, h')"
        "length s = kIdentifierLen"
        "\<forall>i<kIdentifierLen. s ! i \<in> set (if odd i then alphabet else digits)" by blast
    then have "key_shape suffix (s @ suffix)"
      by (simp add: key_shape_def list_all_iff nth_append)
    with t s(1) show "\<exists>t'. ?f k t = Inr t' \<and>
        (\<exists>keys. fst t' = result @ keys \<and> length keys = Suc k \<and> list_all (key_shape suffix) keys)"
      by (auto intro!: exI [of _ "keys @ [s @ suffix]"])
  qed simp
  then show ?thesis
    using assms by (auto simp: generate_random_keys_def vec_size_ok)
qed

end
