(* ===== verification/Circuit_Psi.thy ===== *)
theory Circuit_Psi
  imports Kkrt_Psi
begin

text \<open>
  \<open>pjc/circuit_psi.cpp\<close>: private join and compute from cuckoo hashing, an oblivious
  programmable PRF and a two-party computation. Both parties end with additive shares, one
  vector per feature and one entry per bin of the receiver's table, after a first vector of
  shared membership bits. The seed agreement and the base transfers of the initialisation,
  the digests, the stash test and the copying of table values to blocks are the code of
  \<open>psi/kkrt_psi.cpp\<close> again and share its definitions.
\<close>

section \<open>The object and its construction\<close>

record 'r circuit_psi =
  p_is_sender :: bool
  p_verbose :: bool
  p_prng :: 'r
  p_common_prng :: 'r
  p_choices :: "block list"
  p_base_recv :: "block list"
  p_base_send :: "(block \<times> block) list"
  p_epsilon :: double
  p_epsilon_hint :: double
  p_num_of_fun :: nat
  p_num_of_fun_hint :: nat

definition circuit_check_params ::
  "bool \<Rightarrow> double \<Rightarrow> double \<Rightarrow> nat \<Rightarrow> nat \<Rightarrow> net \<Rightarrow> unit verse_proc" where
  "circuit_check_params is_sender epsilon epsilon_hint num_of_fun num_of_fun_hint net =
     bindp (check_consistency u64_bytes u64_of 8 double_ne show_double is_sender net
              ''epsilon'' epsilon) (\<lambda>_.
     bindp (check_consistency u64_bytes u64_of 8 double_ne show_double is_sender net
              ''epsilon_hint'' epsilon_hint) (\<lambda>_.
     bindp (check_consistency size_t_bytes size_t_of 8 (\<noteq>) show_nat is_sender net
              ''number of function'' num_of_fun) (\<lambda>_.
     check_consistency size_t_bytes size_t_of 8 (\<noteq>) show_nat is_sender net
              ''number of hint function'' num_of_fun_hint)))"

definition duet_setup :: "bool \<Rightarrow> unit verse_proc" where
  "duet_setup is_sender =
     Call (Duet_Setup (if is_sender then 0 else 1)) (\<lambda>answer.
       case answer of Duet_Ready \<Rightarrow> Ret () | _ \<Rightarrow> Throw (Runtime_Error ''duet''))"

definition circuit_init ::
  "('j, double) json_lib \<Rightarrow> 'r prng_lib \<Rightarrow> 'r \<Rightarrow> net \<Rightarrow> 'j \<Rightarrow> 'r circuit_psi verse_proc" where
  "circuit_init js pl prng net params =
     bindp (lift_res (get_bool js params ''common'' ''verbose'')) (\<lambda>verb.
     bindp (lift_res (get_bool js params ''common'' ''is_sender'')) (\<lambda>sender.
     bindp (lift_res (get_double js params ''circuit_psi_params'' ''epsilon'')) (\<lambda>epsilon.
     bindp (lift_res (get_double js params ''circuit_psi_params'' ''fun_epsilon'')) (\<lambda>epsilon_hint.
     bindp (lift_res (get_size js params ''circuit_psi_params'' ''fun_num'')) (\<lambda>num_of_fun.
     bindp (lift_res (get_size js params ''circuit_psi_params'' ''hint_fun_num'')) (\<lambda>num_of_fun_hint.
     bindp (circuit_check_params sender epsilon epsilon_hint num_of_fun num_of_fun_hint net) (\<lambda>_.
       let (bs, prng') = prng_generate pl prng 16 in
       bindp (common_seed net (block_of bs)) (\<lambda>seed.
       bindp (kkrt_setup_ots pl sender net prng') (\<lambda>(choices, base_recv, base_send, prng'').
       bindp (duet_setup sender) (\<lambda>_.
         Ret \<lparr>p_is_sender = sender, p_verbose = verb, p_prng = prng'',
              p_common_prng = prng_create pl seed, p_choices = choices, p_base_recv = base_recv,
              p_base_send = base_send, p_epsilon = epsilon, p_epsilon_hint = epsilon_hint,
              p_num_of_fun = num_of_fun, p_num_of_fun_hint = num_of_fun_hint\<rparr>))))))))))"

section \<open>Sizes\<close>

text \<open>Number of keys and number of features of the sender, then of the receiver.\<close>

definition circuit_exchange_sizes ::
  "bool \<Rightarrow> net \<Rightarrow> nat \<Rightarrow> nat \<Rightarrow> ((nat \<times> nat) \<times> nat \<times> nat) verse_proc" where
  "circuit_exchange_sizes is_sender net n f =
     (if is_sender
      then bindp (recv_data net 8) (\<lambda>rn.
           bindp (recv_data net 8) (\<lambda>rf.
           bindp (send_data net (size_t_bytes n)) (\<lambda>_.
           bindp (send_data net (size_t_bytes f)) (\<lambda>_.
             Ret ((n, f), (size_t_of rn, size_t_of rf))))))
      else bindp (send_data net (size_t_bytes n)) (\<lambda>_.
           bindp (send_data net (size_t_bytes f)) (\<lambda>_.
           bindp (recv_data net 8) (\<lambda>sn.
           bindp (recv_data net 8) (\<lambda>sf.
             Ret ((size_t_of sn, size_t_of sf), (n, f)))))))"

definition hint_bins_for :: "nat \<Rightarrow> nat \<Rightarrow> nat \<Rightarrow> double \<Rightarrow> nat res" where
  "hint_bins_for sender_data_size num_of_fun bins epsilon_hint =
     res_bind (bins_for (size_mul sender_data_size num_of_fun) epsilon_hint) (\<lambda>num_of_bins_hint.
       if size_mul sender_data_size num_of_fun < bins then bins_for bins epsilon_hint
       else Inr num_of_bins_hint)"

section \<open>Values from a generator\<close>

primrec draw_u64s :: "'r prng_lib \<Rightarrow> nat \<Rightarrow> 'r \<Rightarrow> 64 word list \<times> 'r" where
  "draw_u64s pl 0 g = ([], g)"
| "draw_u64s pl (Suc n) g =
     (let (bs, g') = prng_generate pl g 8; (vs, g'') = draw_u64s pl n g' in (u64_of bs # vs, g''))"

text \<open>
  The pads of an OPRF mask: the outputs of the generator seeded with the mask, the number of
  the feature column mixed in by \<open>_mm_set_epi64x(0, fid)\<close> (the membership hint mixes in
  nothing).
\<close>

definition pads :: "'r prng_lib \<Rightarrow> block \<Rightarrow> block \<Rightarrow> nat \<Rightarrow> 64 word list" where
  "pads pl b tweak n =
     fst (draw_u64s pl n (prng_create pl (take kRandSeedBytesLen (block_bytes (b XOR tweak)))))"

definition u64s_of :: "nat \<Rightarrow> byte list \<Rightarrow> 64 word list" where
  "u64s_of n bs = map (\<lambda>i. u64_of (take 8 (drop (i * 8) bs))) [0..<n]"

definition max_u64s :: nat where "max_u64s = (2 ^ 63 - 1) div 8"

definition fid_block :: "nat \<Rightarrow> block" where
  "fid_block fid = of_nat (fid mod 2 ^ 64)"

section \<open>Feature tables\<close>

text \<open>\<open>emplace\<close> keeps an entry that is there; \<open>operator[]\<close> of a missing key is the default value.\<close>

definition emplace :: "('k \<Rightarrow> 'v option) \<Rightarrow> 'k \<Rightarrow> 'v \<Rightarrow> 'k \<Rightarrow> 'v option" where
  "emplace t k v = (case t k of None \<Rightarrow> t(k \<mapsto> v) | Some _ \<Rightarrow> t)"

definition lookup :: "'v \<Rightarrow> ('k \<Rightarrow> 'v option) \<Rightarrow> 'k \<Rightarrow> 'v" where
  "lookup d t k = (case t k of None \<Rightarrow> d | Some v \<Rightarrow> v)"

text \<open>The feature row of each key, stored under each of its names.\<close>

definition feature_table ::
  "(item \<Rightarrow> item list) \<Rightarrow> item list \<Rightarrow> 64 word list list \<Rightarrow> nat \<Rightarrow> nat \<Rightarrow>
     (item \<Rightarrow> 64 word list option) res" where
  "feature_table names keys input_features feature_size n =
     for_upto n (\<lambda>i table.
       res_bind (map_res (\<lambda>j. res_bind (vec_at input_features j) (\<lambda>column. vec_at column i))
                   [0..<feature_size]) (\<lambda>feature.
       res_bind (vec_at keys i) (\<lambda>key.
         Inr (fold (\<lambda>name t. emplace t name feature) (names key) table))))
       Map.empty"

definition sender_names :: "nat \<Rightarrow> item \<Rightarrow> item list" where
  "sender_names num_of_fun key = map (\<lambda>j. keys_xor_fun j key) [0..<num_of_fun]"

section \<open>The garbled tables of the sender\<close>

text \<open>The masks of the sender: every bin entry under the encoder of its bin.\<close>

definition encode_masks ::
  "(nat \<Rightarrow> block \<Rightarrow> block) \<Rightarrow> nat \<Rightarrow> block list list \<Rightarrow> block list list res" where
  "encode_masks encode bins table =
     for_upto bins (\<lambda>i masks. res_bind (vec_at table i) (\<lambda>row. vec_set masks i (map (encode i) row)))
       (replicate bins [])"

text \<open>A \<open>std::size_t\<close> stored in an \<open>int\<close> and used as an index again.\<close>

definition int_index :: "nat \<Rightarrow> nat" where
  "int_index i = (let j = i mod 2 ^ 32 in if j < 2 ^ 31 then j else 2 ^ 64 - 2 ^ 32 + j)"

text \<open>Where each table value is, and all table values in order.\<close>

definition locate_items ::
  "nat \<Rightarrow> item list list \<Rightarrow> ((item \<Rightarrow> (nat \<times> nat) option) \<times> item list) res" where
  "locate_items bins table_values =
     for_upto bins (\<lambda>i s. res_bind (vec_at table_values i) (\<lambda>row.
       for_upto (length row) (\<lambda>j (table_loc, filter_inputs).
         res_bind (vec_at row j) (\<lambda>v.
           Inr (table_loc(v \<mapsto> (int_index i, int_index j)), filter_inputs @ [v]))) s))
       (Map.empty, [])"

text \<open>
  One bin of a garbled table: the value \<open>content\<close> gives for the element placed there under the
  pad of its hash function, or a random word when the bin is empty.
\<close>

definition garble_bin ::
  "'r prng_lib \<Rightarrow> bool list \<Rightarrow> item list \<Rightarrow> nat list \<Rightarrow> (item \<Rightarrow> (nat \<times> nat) option) \<Rightarrow>
     block list list \<Rightarrow> block \<Rightarrow> (item \<Rightarrow> nat \<Rightarrow> 64 word res) \<Rightarrow> nat \<Rightarrow> 64 word list \<times> 'r \<Rightarrow>
     (64 word list \<times> 'r) res" where
  "garble_bin pl occupancy source_values function_ids table_loc masks tweak content i s =
     (case s of (garbled, g) \<Rightarrow>
        res_bind (vec_at occupancy i) (\<lambda>occupied.
        if occupied
        then res_bind (vec_at source_values i) (\<lambda>element.
             res_bind (vec_at function_ids i) (\<lambda>function_id.
             let (bin, index) = lookup (0, 0) table_loc element in
             res_bind (vec_at masks bin) (\<lambda>row.
             res_bind (vec_at row index) (\<lambda>mask.
             let pad = last (pads pl mask tweak (Suc function_id)) in
             res_bind (content element bin) (\<lambda>v.
             res_bind (vec_set garbled i (v XOR pad)) (\<lambda>garbled'. Inr (garbled', g)))))))
        else let (bs, g') = prng_generate pl g 8 in
             res_bind (vec_set garbled i (u64_of bs)) (\<lambda>garbled'. Inr (garbled', g'))))"

definition garble ::
  "'r prng_lib \<Rightarrow> nat \<Rightarrow> bool list \<Rightarrow> item list \<Rightarrow> nat list \<Rightarrow> (item \<Rightarrow> (nat \<times> nat) option) \<Rightarrow>
     block list list \<Rightarrow> block \<Rightarrow> (item \<Rightarrow> nat \<Rightarrow> 64 word res) \<Rightarrow> 'r \<Rightarrow> (64 word list \<times> 'r) res" where
  "garble pl n occupancy source_values function_ids table_loc masks tweak content g =
     for_upto n
       (garble_bin pl occupancy source_values function_ids table_loc masks tweak content)
       (replicate n 0, g)"

section \<open>Reading a garbled table\<close>

definition flat :: "nat \<Rightarrow> nat \<Rightarrow> nat \<Rightarrow> nat" where
  "flat num_of_fun_hint i j = (size_mul i num_of_fun_hint + j) mod 2 ^ 64"

definition ungarble ::
  "'r prng_lib \<Rightarrow> nat \<Rightarrow> nat \<Rightarrow> nat list \<Rightarrow> 64 word list \<Rightarrow> block list \<Rightarrow> block \<Rightarrow> 64 word list res" where
  "ungarble pl bins num_of_fun_hint addresses garbled masks tweak =
     for_upto bins (\<lambda>i content. res_bind (vec_at masks i) (\<lambda>mask.
       for_upto num_of_fun_hint (\<lambda>j content.
         res_bind (vec_at addresses (flat num_of_fun_hint i j)) (\<lambda>address.
         res_bind (vec_at garbled address) (\<lambda>v.
           vec_set content (flat num_of_fun_hint i j)
             (v XOR pads pl mask tweak num_of_fun_hint ! j)))) content))
       (replicate (size_mul bins num_of_fun_hint) 0)"

definition content_matrix ::
  "nat \<Rightarrow> nat \<Rightarrow> (64 word \<Rightarrow> 64 word) \<Rightarrow> 64 word list \<Rightarrow> matrix res" where
  "content_matrix bins num_of_fun_hint f content =
     map_res (\<lambda>i. map_res (\<lambda>j. res_bind (vec_at content (flat num_of_fun_hint i j)) (\<lambda>v. Inr (f v)))
                    [0..<num_of_fun_hint]) [0..<bins]"

section \<open>Shares\<close>

definition matrix_at :: "matrix \<Rightarrow> nat \<Rightarrow> nat \<Rightarrow> 64 word res" where
  "matrix_at m i j = res_bind (vec_at m i) (\<lambda>row. vec_at row j)"

text \<open>\<open>output_shares[k][i] = op(output_shares[k][i], v)\<close>.\<close>

definition update_share ::
  "(64 word \<Rightarrow> 64 word \<Rightarrow> 64 word) \<Rightarrow> nat \<Rightarrow> nat \<Rightarrow> 64 word \<Rightarrow> matrix \<Rightarrow> matrix res" where
  "update_share f k i v shares =
     res_bind (vec_at shares k) (\<lambda>row. res_bind (vec_at row i) (\<lambda>w.
     res_bind (vec_set row i (f w v)) (\<lambda>row'. vec_set shares k row')))"

definition init_shares :: "nat \<Rightarrow> nat \<Rightarrow> nat \<Rightarrow> matrix res" where
  "init_shares sender_feature_size receiver_feature_size bins =
     (let rows = (sender_feature_size + receiver_feature_size + 1) mod 2 ^ 64 in
      res_bind (vec_grow max_vectors rows) (\<lambda>_.
      res_bind (vec_grow max_u64s bins) (\<lambda>_. Inr (replicate rows (replicate bins 0)))))"

definition share_bits :: "nat \<Rightarrow> nat \<Rightarrow> matrix \<Rightarrow> matrix \<Rightarrow> matrix res" where
  "share_bits bins num_of_fun_hint result shares =
     for_upto bins (\<lambda>i. for_upto num_of_fun_hint (\<lambda>j shares.
       res_bind (matrix_at result i j) (\<lambda>b. update_share (XOR) 0 i b shares))) shares"

definition equality ::
  "matrix \<Rightarrow> matrix \<Rightarrow> matrix verse_proc" where
  "equality sender_data receiver_data =
     Call (Duet_Equal sender_data receiver_data) (\<lambda>answer.
       case answer of Duet_Shares result \<Rightarrow> Ret result | _ \<Rightarrow> Throw (Runtime_Error ''duet''))"

definition multiplexer :: "matrix \<Rightarrow> matrix \<Rightarrow> matrix verse_proc" where
  "multiplexer result feature_share =
     Call (Duet_Multiplexer result feature_share) (\<lambda>answer.
       case answer of Duet_Shares m \<Rightarrow> Ret m | _ \<Rightarrow> Throw (Runtime_Error ''duet''))"

text \<open>The selected features of one bin, column after column.\<close>

definition add_selected ::
  "nat \<Rightarrow> matrix list \<Rightarrow> nat \<Rightarrow> nat \<Rightarrow> matrix \<Rightarrow> matrix res" where
  "add_selected sender_feature_size feature_result i j =
     for_upto sender_feature_size (\<lambda>k shares. res_bind (vec_at feature_result k) (\<lambda>m.
       res_bind (matrix_at m i j) (\<lambda>v. update_share (+) (k + 1) i v shares)))"

section \<open>The sender\<close>

text \<open>
  The three phases before the computation on shares: OPRF, membership hint, feature hints.
  Each takes and returns the object with its generators advanced.
\<close>

definition circuit_sender_oprf ::
  "hash_lib \<Rightarrow> 'r prng_lib \<Rightarrow> 'r circuit_psi \<Rightarrow> net \<Rightarrow> nat \<Rightarrow> item list \<Rightarrow>
     (item list list \<times> block list list \<times> 'r circuit_psi) verse_proc" where
  "circuit_sender_oprf hl pl self net bins keys =
     (let (seed, common') = prng_generate pl (p_common_prng self) kRandSeedBytesLen;
          values = bin_entry_values hl bins seed (p_num_of_fun self) keys
      in
      bindp (recv_data net 8) (\<lambda>b.
      bindp (lift_res (check_stash (size_t_of b))) (\<lambda>_.
      bindp (lift_res (vec_create max_vectors bins)) (\<lambda>_.
      bindp (lift_res (table_blocks bins values)) (\<lambda>blocks.
      Call (Nco_Ot_Send (p_choices self) (p_base_recv self) bins) (\<lambda>answer.
        case answer of
          Nco_Ot_Encoder encode \<Rightarrow>
            bindp (lift_res (encode_masks encode bins blocks)) (\<lambda>masks.
              Ret (values, masks, self\<lparr>p_common_prng := common'\<rparr>))
        | _ \<Rightarrow> Throw (Runtime_Error ''oprf'')))))))"

text \<open>What the garbled tables of a run are built from.\<close>

record hint_tables =
  h_contents :: "64 word list"
  h_table_loc :: "item \<Rightarrow> (nat \<times> nat) option"
  h_occupancy :: "bool list"
  h_source_values :: "item list"
  h_function_ids :: "nat list"

definition circuit_sender_hint ::
  "hash_lib \<Rightarrow> 'r prng_lib \<Rightarrow> 'r circuit_psi \<Rightarrow> net \<Rightarrow> nat \<Rightarrow> nat \<Rightarrow> item list list \<Rightarrow> block list list \<Rightarrow>
     (hint_tables \<times> 'r circuit_psi) verse_proc" where
  "circuit_sender_hint hl pl self net bins hint_bins values masks =
     (let (contents, prng') = draw_u64s pl bins (p_prng self) in
      bindp (lift_res (locate_items bins values)) (\<lambda>(table_loc, filter_inputs).
        let (seed, common') = prng_generate pl (p_common_prng self) kRandSeedBytesLen;
            h = p_num_of_fun_hint self;
            stash_size = cuckoo_stash_size hl hint_bins seed h filter_inputs
        in
        bindp (send_data net (size_t_bytes stash_size)) (\<lambda>_.
        bindp (lift_res (check_stash stash_size)) (\<lambda>_.
        bindp (lift_res (vec_create max_u64s hint_bins)) (\<lambda>_.
          let tables = \<lparr>h_contents = contents, h_table_loc = table_loc,
                        h_occupancy = cuckoo_occupancy hl hint_bins seed h filter_inputs,
                        h_source_values = cuckoo_source_values hl hint_bins seed h filter_inputs,
                        h_function_ids = cuckoo_function_ids hl hint_bins seed h filter_inputs\<rparr>
          in
          bindp (lift_res (garble pl hint_bins (h_occupancy tables) (h_source_values tables)
                   (h_function_ids tables) table_loc masks 0 (\<lambda>element bin. vec_at contents bin) prng'))
            (\<lambda>(garbled, prng'').
          bindp (send_data net (concat (map u64_bytes garbled))) (\<lambda>_.
            Ret (tables, self\<lparr>p_prng := prng'', p_common_prng := common'\<rparr>))))))))"

definition circuit_sender_feature ::
  "'r prng_lib \<Rightarrow> net \<Rightarrow> nat \<Rightarrow> nat \<Rightarrow> nat \<Rightarrow> hint_tables \<Rightarrow> block list list \<Rightarrow>
     (item \<Rightarrow> 64 word list option) \<Rightarrow> nat \<Rightarrow> matrix list \<times> 'r \<Rightarrow> (matrix list \<times> 'r) verse_proc" where
  "circuit_sender_feature pl net bins hint_bins h tables masks features fid s =
     (case s of (feature_shares, g) \<Rightarrow>
        let (contents, g') = draw_u64s pl bins g in
        bindp (lift_res (vec_create max_u64s hint_bins)) (\<lambda>_.
        bindp (lift_res (garble pl hint_bins (h_occupancy tables) (h_source_values tables)
                 (h_function_ids tables) (h_table_loc tables) masks (fid_block fid)
                 (\<lambda>element bin. res_bind (vec_at (lookup [] features element) fid) (\<lambda>v.
                    res_bind (vec_at contents bin) (\<lambda>c. Inr (v - c)))) g'))
          (\<lambda>(garbled, g'').
        bindp (send_data net (concat (map u64_bytes garbled))) (\<lambda>_.
          Ret (feature_shares @ [map (replicate h) contents], g'')))))"

definition circuit_sender_features ::
  "'r prng_lib \<Rightarrow> 'r circuit_psi \<Rightarrow> net \<Rightarrow> nat \<Rightarrow> nat \<Rightarrow> item list \<Rightarrow> 64 word list list \<Rightarrow> nat \<Rightarrow>
     hint_tables \<Rightarrow> block list list \<Rightarrow> (matrix list \<times> 'r circuit_psi) verse_proc" where
  "circuit_sender_features pl self net bins hint_bins keys input_features feature_size tables masks =
     (if feature_size \<noteq> 0
      then bindp (lift_res (feature_table (sender_names (p_num_of_fun self)) keys input_features
                    feature_size (length keys))) (\<lambda>features.
           bindp (fold_proc (circuit_sender_feature pl net bins hint_bins (p_num_of_fun_hint self)
                    tables masks features) [0..<feature_size] ([], p_prng self))
             (\<lambda>(feature_shares, g). Ret (feature_shares, self\<lparr>p_prng := g\<rparr>)))
      else Ret ([], self))"

definition multiplex_all :: "matrix \<Rightarrow> matrix list \<Rightarrow> nat \<Rightarrow> matrix list verse_proc" where
  "multiplex_all result feature_shares n =
     fold_proc (\<lambda>i out. bindp (lift_res (vec_at feature_shares i)) (\<lambda>share.
       bindp (multiplexer result share) (\<lambda>m. Ret (out @ [m])))) [0..<n] []"

definition circuit_sender_shares ::
  "nat \<Rightarrow> nat \<Rightarrow> nat \<Rightarrow> nat \<Rightarrow> 64 word list \<Rightarrow> matrix list \<Rightarrow> matrix verse_proc" where
  "circuit_sender_shares bins h sf rf contents feature_shares =
     bindp (equality (map (\<lambda>c. replicate h (c AND kReduceBitsLen)) contents)
              (replicate bins (replicate h 0))) (\<lambda>result.
     bindp (lift_res (init_shares sf rf bins)) (\<lambda>shares.
     bindp (lift_res (share_bits bins h result shares)) (\<lambda>shares.
     if sf \<noteq> 0 \<or> rf \<noteq> 0
     then bindp (multiplex_all result feature_shares sf) (\<lambda>feature_result.
          lift_res (for_upto bins (\<lambda>i. for_upto h (\<lambda>j shares.
            res_bind (add_selected sf feature_result i j shares)
              (for_upto rf (\<lambda>k. update_share (+) (sf + k + 1) i 0)))) shares))
     else Ret shares)))"

section \<open>The receiver\<close>

definition circuit_receiver_oprf ::
  "hash_lib \<Rightarrow> 'r prng_lib \<Rightarrow> 'r circuit_psi \<Rightarrow> net \<Rightarrow> nat \<Rightarrow> item list \<Rightarrow>
     (byte list \<times> block list \<times> 'r circuit_psi) verse_proc" where
  "circuit_receiver_oprf hl pl self net bins keys =
     (let (seed, common') = prng_generate pl (p_common_prng self) kRandSeedBytesLen;
          k = p_num_of_fun self;
          stash_size = cuckoo_stash_size hl bins seed k keys
      in
      bindp (send_data net (size_t_bytes stash_size)) (\<lambda>_.
      bindp (lift_res (check_stash stash_size)) (\<lambda>_.
      Call (Nco_Ot_Receive (p_base_send self)
              (map block_of (cuckoo_values hl bins seed k keys))) (\<lambda>answer.
        case answer of
          Nco_Ot_Masks masks \<Rightarrow> Ret (seed, masks, self\<lparr>p_common_prng := common'\<rparr>)
        | _ \<Rightarrow> Throw (Runtime_Error ''oprf'')))))"

definition recv_garbled :: "net \<Rightarrow> nat \<Rightarrow> 64 word list verse_proc" where
  "recv_garbled net n =
     bindp (lift_res (vec_create max_u64s n)) (\<lambda>_.
     bindp (recv_data net (n * 8)) (\<lambda>bs. Ret (u64s_of n bs)))"

definition circuit_receiver_hint ::
  "hash_lib \<Rightarrow> 'r prng_lib \<Rightarrow> 'r circuit_psi \<Rightarrow> net \<Rightarrow> nat \<Rightarrow> nat \<Rightarrow> item list \<Rightarrow> block list \<Rightarrow>
     (64 word list \<times> nat list \<times> 'r circuit_psi) verse_proc" where
  "circuit_receiver_hint hl pl self net bins hint_bins values masks =
     bindp (recv_data net 8) (\<lambda>b.
     bindp (lift_res (check_stash (size_t_of b))) (\<lambda>_.
     bindp (recv_garbled net hint_bins) (\<lambda>garbled.
       let (seed, common') = prng_generate pl (p_common_prng self) kRandSeedBytesLen;
           h = p_num_of_fun_hint self;
           addresses = element_addresses hl hint_bins seed h values
       in
       bindp (lift_res (vec_create max_u64s (size_mul bins h))) (\<lambda>_.
       bindp (lift_res (ungarble pl bins h addresses garbled masks 0)) (\<lambda>contents.
         Ret (contents, addresses, self\<lparr>p_common_prng := common'\<rparr>))))))"

definition circuit_receiver_feature ::
  "'r prng_lib \<Rightarrow> net \<Rightarrow> nat \<Rightarrow> nat \<Rightarrow> nat \<Rightarrow> nat list \<Rightarrow> block list \<Rightarrow> nat \<Rightarrow> 64 word list list \<Rightarrow>
     64 word list list verse_proc" where
  "circuit_receiver_feature pl net bins hint_bins h addresses masks fid contents =
     bindp (recv_garbled net hint_bins) (\<lambda>garbled.
     bindp (lift_res (ungarble pl bins h addresses garbled masks (fid_block fid))) (\<lambda>content.
       Ret (contents @ [content])))"

text \<open>The receiver's own features, and the contents it reads for the sender's.\<close>

definition circuit_receiver_features ::
  "'r prng_lib \<Rightarrow> 'r circuit_psi \<Rightarrow> net \<Rightarrow> nat \<Rightarrow> nat \<Rightarrow> item list \<Rightarrow> 64 word list list \<Rightarrow> nat \<Rightarrow> nat \<Rightarrow>
     nat list \<Rightarrow> block list \<Rightarrow> ((item \<Rightarrow> 64 word list option) \<times> 64 word list list) verse_proc" where
  "circuit_receiver_features pl self net bins hint_bins keys input_features sf rf addresses masks =
     bindp (lift_res (vec_create max_vectors sf)) (\<lambda>_.
     if sf \<noteq> 0 \<or> rf \<noteq> 0
     then bindp (lift_res (feature_table (\<lambda>key. [key]) keys input_features rf (length keys)))
            (\<lambda>features.
          bindp (fold_proc (circuit_receiver_feature pl net bins hint_bins (p_num_of_fun_hint self)
                   addresses masks) [0..<sf] []) (\<lambda>contents. Ret (features, contents)))
     else Ret (Map.empty, []))"

text \<open>The receiver adds its own feature row in every occupied bin, member or not.\<close>

definition add_own ::
  "nat \<Rightarrow> nat \<Rightarrow> bool list \<Rightarrow> item list \<Rightarrow> (item \<Rightarrow> 64 word list option) \<Rightarrow> nat \<Rightarrow> matrix \<Rightarrow> matrix res" where
  "add_own sf rf occupancy source_values features i shares =
     res_bind (vec_at occupancy i) (\<lambda>occupied.
       if occupied
       then for_upto rf (\<lambda>k shares. res_bind (vec_at source_values i) (\<lambda>element.
              res_bind (vec_at (lookup [] features element) k) (\<lambda>v.
                update_share (+) (sf + k + 1) i v shares))) shares
       else Inr shares)"

definition circuit_receiver_shares ::
  "nat \<Rightarrow> nat \<Rightarrow> nat \<Rightarrow> nat \<Rightarrow> 64 word list \<Rightarrow> 64 word list list \<Rightarrow> bool list \<Rightarrow> item list \<Rightarrow>
     (item \<Rightarrow> 64 word list option) \<Rightarrow> matrix verse_proc" where
  "circuit_receiver_shares bins h sf rf content contents occupancy source_values features =
     bindp (lift_res (content_matrix bins h (\<lambda>v. v AND kReduceBitsLen) content)) (\<lambda>receiver_data.
     bindp (equality (replicate bins (replicate h 0)) receiver_data) (\<lambda>result.
     bindp (lift_res (init_shares sf rf bins)) (\<lambda>shares.
     bindp (lift_res (share_bits bins h result shares)) (\<lambda>shares.
     if sf \<noteq> 0 \<or> rf \<noteq> 0
     then bindp (lift_res (map_res (\<lambda>i. res_bind (vec_at contents i)
                   (content_matrix bins h (\<lambda>v. v))) [0..<sf])) (\<lambda>feature_shares.
          bindp (multiplex_all result feature_shares sf) (\<lambda>feature_result.
          lift_res (for_upto bins (\<lambda>i shares.
            res_bind (for_upto h (\<lambda>j. add_selected sf feature_result i j) shares)
              (add_own sf rf occupancy source_values features i)) shares)))
     else Ret shares))))"

section \<open>The protocol\<close>

definition circuit_process ::
  "hash_lib \<Rightarrow> 'r prng_lib \<Rightarrow> 'r circuit_psi \<Rightarrow> net \<Rightarrow> string list \<Rightarrow> 64 word list list \<Rightarrow>
     (matrix \<times> 'r circuit_psi) verse_proc" where
  "circuit_process hl pl self net input_keys input_features =
     bindp (circuit_exchange_sizes (p_is_sender self) net (length input_keys) (length input_features))
       (\<lambda>((sn, sf), (rn, rf)).
     bindp (lift_res (bins_for rn (p_epsilon self))) (\<lambda>bins.
     bindp (lift_res (hint_bins_for sn (p_num_of_fun self) bins (p_epsilon_hint self))) (\<lambda>hint_bins.
       let keys = hash_keys hl input_keys; h = p_num_of_fun_hint self; k = p_num_of_fun self in
       if p_is_sender self
       then bindp (circuit_sender_oprf hl pl self net bins keys) (\<lambda>(values, masks, self1).
            bindp (circuit_sender_hint hl pl self1 net bins hint_bins values masks) (\<lambda>(tables, self2).
            bindp (circuit_sender_features pl self2 net bins hint_bins keys input_features sf
                     tables masks) (\<lambda>(feature_shares, self3).
            bindp (circuit_sender_shares bins h sf rf (h_contents tables) feature_shares) (\<lambda>shares.
              Ret (shares, self3)))))
       else bindp (circuit_receiver_oprf hl pl self net bins keys) (\<lambda>(seed, masks, self1).
            bindp (circuit_receiver_hint hl pl self1 net bins hint_bins
                     (cuckoo_values hl bins seed k keys) masks) (\<lambda>(content, addresses, self2).
            bindp (circuit_receiver_features pl self2 net bins hint_bins keys input_features sf rf
                     addresses masks) (\<lambda>(features, contents).
            bindp (circuit_receiver_shares bins h sf rf content contents
                     (cuckoo_occupancy hl bins seed k keys) (cuckoo_source_values hl bins seed k keys)
                     features) (\<lambda>shares.
              Ret (shares, self2))))))))"

end
