(* ===== verification/Circuit_Correct.thy ===== *)
theory Circuit_Correct
  imports Circuit_Psi Kkrt_Correct
begin

text \<open>
  The parts of the circuit protocol one by one: pads, the sender's masks and item locations,
  garbling a table and reading it, and the sums of the shares.
\<close>

section \<open>Pads\<close>

lemma length_draw_u64s [simp]: "length (fst (draw_u64s pl n g)) = n"
  by (induction n arbitrary: g) (simp_all add: case_prod_beta)

lemma draw_u64s_prefix: "f < n \<Longrightarrow> fst (draw_u64s pl n g) ! f = last (fst (draw_u64s pl (Suc f) g))"
proof (induction f arbitrary: n g)
  case 0
  then show ?case by (cases n) (simp_all add: case_prod_beta)
next
  case (Suc f)
  then obtain m where n: "n = Suc m" "f < m" by (cases n) auto
  let ?g = "snd (prng_generate pl g 8)"
  have "fst (draw_u64s pl (Suc f) ?g) \<noteq> []" by (metis length_draw_u64s length_0_conv nat.distinct(1))
  then have "last (fst (draw_u64s pl (Suc (Suc f)) g)) = last (fst (draw_u64s pl (Suc f) ?g))"
    by (subst draw_u64s.simps) (simp add: case_prod_beta del: draw_u64s.simps)
  with Suc.IH [OF n(2), of ?g] show ?case by (simp add: n(1) case_prod_beta del: draw_u64s.simps(2))
     (simp add: case_prod_beta)
qed

lemma length_pads [simp]: "length (pads pl b t n) = n"
  by (simp add: pads_def)

lemma last_pads: "f < n \<Longrightarrow> last (pads pl b t (Suc f)) = pads pl b t n ! f"
  unfolding pads_def by (rule draw_u64s_prefix [symmetric])

section \<open>Masks and locations of the sender's items\<close>

lemma encode_masks_result:
  assumes "length table = bins"
  shows "encode_masks F bins table = Inr (map (\<lambda>i. map (F i) (table ! i)) [0..<bins])"
  unfolding encode_masks_def using assms by (intro for_upto_update) simp_all

lemma int_index_small: "i < 2 ^ 31 \<Longrightarrow> int_index i = i"
  by (simp add: int_index_def Let_def)

lemma concat_take_nth: "i < length xss \<Longrightarrow> concat (take (Suc i) xss) = concat (take i xss) @ xss ! i"
  by (simp add: take_Suc_conv_app_nth)

lemma nth_in_take: "i < n \<Longrightarrow> i < length xs \<Longrightarrow> xs ! i \<in> set (take n xs)"
  by (auto simp: in_set_conv_nth intro!: exI [of _ i])

lemma distinct_concat_nth:
  assumes "distinct (concat xss)" and "i < length xss" and "j < length (xss ! i)"
    and "i' < length xss" and "j' < length (xss ! i')" and "xss ! i ! j = xss ! i' ! j'"
  shows "i = i' \<and> j = j'"
proof -
  have "i = i'"
  proof (rule ccontr)
    assume ne: "i \<noteq> i'"
    have "set (xss ! i) \<inter> set (xss ! i') = {}" if "i < i'" "i' < length xss" for i i'
    proof -
      have "concat xss = concat (take i' xss) @ xss ! i' @ concat (drop (Suc i') xss)"
        by (metis append.assoc append_take_drop_id concat_append concat_take_nth that(2))
      with assms(1) have "set (concat (take i' xss)) \<inter> set (xss ! i') = {}" by auto
      moreover have "xss ! i \<in> set (take i' xss)"
        using that by (intro nth_in_take) simp_all
      then have "set (xss ! i) \<subseteq> set (concat (take i' xss))" by auto
      ultimately show ?thesis by blast
    qed
    with ne assms(2-) show False by (metis disjoint_iff linorder_neqE_nat nth_mem)
  qed
  moreover have "distinct (xss ! i)" using assms(1,2) by (simp add: distinct_concat_iff)
  ultimately show ?thesis using assms by (simp add: nth_eq_iff_index_eq)
qed

text \<open>Every value of a table without repetitions is found where it is.\<close>

lemma locate_row:
  fixes row :: "item list"
  assumes small: "\<forall>j<length row. int_index j = j" "int_index i = i" and "distinct row"
    and fresh: "\<forall>v\<in>dom loc. v \<notin> set row"
  shows "\<exists>loc'. for_upto (length row) (\<lambda>j (table_loc, filter_inputs).
         res_bind (vec_at row j) (\<lambda>v.
           Inr (table_loc(v \<mapsto> (int_index i, int_index j)), filter_inputs @ [v]))) (loc, inp) =
      Inr (loc', inp @ row) \<and> (\<forall>v. v \<notin> set row \<longrightarrow> loc' v = loc v) \<and>
      (\<forall>j<length row. loc' (row ! j) = Some (i, j))"
proof -
  let ?f = "\<lambda>j (table_loc, filter_inputs). res_bind (vec_at row j) (\<lambda>v.
       Inr (table_loc(v \<mapsto> (int_index i, int_index j)), filter_inputs @ [v]))"
  let ?P = "\<lambda>n t. snd t = inp @ take n row \<and> (\<forall>v. v \<notin> set row \<longrightarrow> fst t v = loc v) \<and>
      (\<forall>j<n. fst t (row ! j) = Some (i, j))"
  have "\<exists>t. for_upto (length row) ?f (loc, inp) = Inr t \<and> ?P (length row) t"
  proof (rule for_upto_invariant [where P = ?P])
    fix n and t :: "(item \<Rightarrow> (nat \<times> nat) option) \<times> item list"
    assume n: "n < length row" and inv: "?P n t"
    have "row ! j \<noteq> row ! n" if "j < n" for j
      using that n assms(3) by (simp add: nth_eq_iff_index_eq)
    then show "\<exists>t'. ?f n t = Inr t' \<and> ?P (Suc n) t'"
      using n inv small by (cases t) (auto simp: take_Suc_conv_app_nth less_Suc_eq)
  qed simp
  then obtain t where "for_upto (length row) ?f (loc, inp) = Inr t" "?P (length row) t" by blast
  then show ?thesis by (cases t) auto
qed

lemma locate_items_result:
  assumes len: "length vals = bins" and small: "bins \<le> 2 ^ 31" "\<forall>row\<in>set vals. length row \<le> 2 ^ 31"
    and dist: "distinct (concat vals)"
  shows "\<exists>loc. locate_items bins vals = Inr (loc, concat vals) \<and>
    (\<forall>i<bins. \<forall>j<length (vals ! i). loc (vals ! i ! j) = Some (i, j))"
proof -
  let ?f = "\<lambda>i s. res_bind (vec_at vals i) (\<lambda>row.
       for_upto (length row) (\<lambda>j (table_loc, filter_inputs).
         res_bind (vec_at row j) (\<lambda>v.
           Inr (table_loc(v \<mapsto> (int_index i, int_index j)), filter_inputs @ [v]))) s)"
  let ?P = "\<lambda>n t. snd t = concat (take n vals) \<and> dom (fst t) \<subseteq> set (concat (take n vals)) \<and>
      (\<forall>i<n. \<forall>j<length (vals ! i). fst t (vals ! i ! j) = Some (i, j))"
  have "\<exists>t. for_upto bins ?f (Map.empty, []) = Inr t \<and> ?P bins t"
  proof (rule for_upto_invariant [where P = ?P])
    fix n and t :: "(item \<Rightarrow> (nat \<times> nat) option) \<times> item list"
    assume n: "n < bins" and inv: "?P n t"
    let ?row = "vals ! n"
    have row: "?row \<in> set vals" using n len by simp
    have "\<forall>j<length ?row. int_index j = j" "int_index n = n"
      using small row n by (auto intro!: int_index_small)
    moreover have "distinct ?row" using dist row by (simp add: distinct_concat_iff)
    moreover have disj: "set (concat (take n vals)) \<inter> set ?row = {}"
    proof -
      have "concat vals = concat (take n vals) @ ?row @ concat (drop (Suc n) vals)"
        using n len by (metis append.assoc append_take_drop_id concat_append concat_take_nth)
      with dist show ?thesis by auto
    qed
    then have "\<forall>v\<in>dom (fst t). v \<notin> set ?row" using inv by blast
    ultimately obtain loc' where l: "for_upto (length ?row) (\<lambda>j (table_loc, filter_inputs).
         res_bind (vec_at ?row j) (\<lambda>v.
           Inr (table_loc(v \<mapsto> (int_index n, int_index j)), filter_inputs @ [v]))) (fst t, snd t) =
        Inr (loc', snd t @ ?row)" "\<forall>v. v \<notin> set ?row \<longrightarrow> loc' v = fst t v"
        "\<forall>j<length ?row. loc' (?row ! j) = Some (n, j)"
      using locate_row [of ?row n "fst t" "snd t"] by blast
    have sub: "dom loc' \<subseteq> set (concat (take (Suc n) vals))"
    proof
      fix v assume v: "v \<in> dom loc'"
      show "v \<in> set (concat (take (Suc n) vals))"
      proof (cases "v \<in> set ?row")
        case False
        with l(2) v have "v \<in> dom (fst t)" by (auto simp: dom_def)
        with inv n len show ?thesis by (auto simp: concat_take_nth)
      qed (use n len in \<open>simp add: concat_take_nth\<close>)
    qed
    have old: "loc' (vals ! i ! j) = Some (i, j)" if "i < n" "j < length (vals ! i)" for i j
    proof -
      have "vals ! i \<in> set (take n vals)"
        using that(1) n len by (intro nth_in_take) simp_all
      with that(2) have "vals ! i ! j \<in> set (concat (take n vals))"
        by (auto intro!: bexI [of _ "vals ! i"])
      with disj l(2) inv that show ?thesis by (metis disjoint_iff)
    qed
    have "?f n t = Inr (loc', snd t @ ?row)" using n len l(1) by simp
    moreover have "?P (Suc n) (loc', snd t @ ?row)"
      using inv sub old l(3) n len by (simp add: concat_take_nth less_Suc_eq)
    ultimately show "\<exists>t'. ?f n t = Inr t' \<and> ?P (Suc n) t'" by blast
  qed simp
  then obtain t where "for_upto bins ?f (Map.empty, []) = Inr t" "?P bins t" by blast
  then show ?thesis using len by (cases t) (auto simp: locate_items_def)
qed

section \<open>Garbling\<close>

text \<open>
  Garbling a table: every occupied bin gets the content of its element under the pad of its
  hash function, whatever the generator fills the empty bins with.
\<close>

lemma garble_result:
  assumes len: "length occ = n" "length src = n" "length fids = n"
    and place: "\<And>b. b < n \<Longrightarrow> occ ! b \<Longrightarrow> \<exists>i j. loc (src ! b) = Some (i, j) \<and> i < length masks \<and>
      j < length (masks ! i) \<and> content (src ! b) i = Inr (c b) \<and> masks ! i ! j = m b"
  shows "\<exists>garbled g'. garble pl n occ src fids loc masks tweak content g = Inr (garbled, g') \<and>
    length garbled = n \<and>
    (\<forall>b<n. occ ! b \<longrightarrow> garbled ! b = c b XOR last (pads pl (m b) tweak (Suc (fids ! b))))"
proof -
  let ?f = "garble_bin pl occ src fids loc masks tweak content"
  let ?v = "\<lambda>b. c b XOR last (pads pl (m b) tweak (Suc (fids ! b)))"
  let ?P = "\<lambda>k t. length (fst t) = n \<and> (\<forall>b<k. occ ! b \<longrightarrow> fst t ! b = ?v b)"
  have "\<exists>t. for_upto n ?f (replicate n 0, g) = Inr t \<and> ?P n t"
  proof (rule for_upto_invariant [where P = ?P])
    fix k and t :: "64 word list \<times> 'a"
    assume k: "k < n" and inv: "?P k t"
    obtain out h where t: "t = (out, h)" by (cases t)
    show "\<exists>t'. ?f k t = Inr t' \<and> ?P (Suc k) t'"
    proof (cases "occ ! k")
      case True
      from place [OF k this] obtain i j where
        "loc (src ! k) = Some (i, j)" "i < length masks" "j < length (masks ! i)"
        "content (src ! k) i = Inr (c k)" "masks ! i ! j = m k" by blast
      with True k t inv len have "?f k t = Inr (out[k := ?v k], h)"
        by (simp add: garble_bin_def lookup_def)
      with inv t k show ?thesis by (auto simp: less_Suc_eq)
    next
      case False
      obtain bs h' where "prng_generate pl h 8 = (bs, h')" by fastforce
      with False k t inv len have "?f k t = Inr (out[k := u64_of bs], h')"
        by (simp add: garble_bin_def)
      with inv t k False show ?thesis by (auto simp: less_Suc_eq)
    qed
  qed simp
  then show ?thesis unfolding garble_def by (metis prod.collapse)
qed

section \<open>Reading a garbled table\<close>

lemma flat_small:
  assumes "i < bins" and "j < h" and "bins * h < 2 ^ 64"
  shows "flat h i j = i * h + j" "i * h + j < bins * h"
proof -
  have "i * h + j < (i + 1) * h" using assms(2) by simp
  also have "\<dots> \<le> bins * h" using assms(1) by (intro mult_le_mono1) simp
  finally show l: "i * h + j < bins * h" .
  then have "i * h < 2 ^ 64" "i * h + j < 2 ^ 64" using assms(3) by linarith+
  then show "flat h i j = i * h + j" by (simp add: flat_def size_mul_def)
qed

lemma ungarble_result:
  assumes "length masks = bins" and "length addresses = bins * h" and "bins * h < 2 ^ 64"
    and adr: "\<forall>a\<in>set addresses. a < length garbled"
  shows "ungarble pl bins h addresses garbled masks tweak =
    Inr (map (\<lambda>t. garbled ! (addresses ! t) XOR pads pl (masks ! (t div h)) tweak h ! (t mod h))
           [0..<bins * h])"
proof -
  let ?v = "\<lambda>t. garbled ! (addresses ! t) XOR pads pl (masks ! (t div h)) tweak h ! (t mod h)"
  let ?g = "\<lambda>k. map (\<lambda>t. if t < k then ?v t else 0) [0..<bins * h]"
  have cell: "res_bind (vec_at addresses (flat h i j)) (\<lambda>address. res_bind (vec_at garbled address)
      (\<lambda>v. vec_set (?g (i * h + j)) (flat h i j) (v XOR pads pl (masks ! i) tweak h ! j))) =
      Inr (?g (i * h + Suc j))" if ij: "i < bins" "j < h" for i j
  proof -
    note f = flat_small [OF ij assms(3)]
    have dm: "(i * h + j) div h = i" "(i * h + j) mod h = j" using ij(2) by simp_all
    have "addresses ! (i * h + j) < length garbled" using adr f(2) assms(2) by simp
    moreover have "(?g (i * h + j))[i * h + j := ?v (i * h + j)] = ?g (i * h + Suc j)"
      using f(2) by (intro nth_equalityI) (auto simp: nth_list_update less_Suc_eq)
    ultimately show ?thesis using f assms(2) ij(2) by (simp add: dm)
  qed
  have row: "for_upto h (\<lambda>j content. res_bind (vec_at addresses (flat h i j)) (\<lambda>address.
      res_bind (vec_at garbled address) (\<lambda>v.
        vec_set content (flat h i j) (v XOR pads pl (masks ! i) tweak h ! j)))) (?g (i * h)) =
      Inr (?g (Suc i * h))" if "i < bins" for i
  proof -
    have "for_upto h (\<lambda>j content. res_bind (vec_at addresses (flat h i j)) (\<lambda>address.
      res_bind (vec_at garbled address) (\<lambda>v.
        vec_set content (flat h i j) (v XOR pads pl (masks ! i) tweak h ! j)))) (?g (i * h + 0)) =
      Inr (?g (i * h + h))"
      by (rule for_upto_trace [where g = "\<lambda>j. ?g (i * h + j)"]) (rule cell [OF that])
    then show ?thesis by (simp add: add.commute)
  qed
  have "for_upto bins (\<lambda>i content. res_bind (vec_at masks i) (\<lambda>b.
      for_upto h (\<lambda>j content. res_bind (vec_at addresses (flat h i j)) (\<lambda>address.
        res_bind (vec_at garbled address) (\<lambda>v.
          vec_set content (flat h i j) (v XOR pads pl b tweak h ! j)))) content)) (?g (0 * h)) =
      Inr (?g (bins * h))"
    by (rule for_upto_trace [where g = "\<lambda>i. ?g (i * h)"]) (simp add: row assms(1))
  moreover have "?g (0 * h) = replicate (size_mul bins h) 0"
    using assms(3) by (auto intro: nth_equalityI simp: size_mul_def)
  moreover have "?g (bins * h) = map ?v [0..<bins * h]" by simp
  ultimately show ?thesis unfolding ungarble_def by metis
qed

lemma content_matrix_result:
  assumes "length content = bins * h" and "bins * h < 2 ^ 64"
  shows "content_matrix bins h f content =
    Inr (map (\<lambda>i. map (\<lambda>j. f (content ! (i * h + j))) [0..<h]) [0..<bins])"
  unfolding content_matrix_def using assms flat_small
  by (intro map_res_Inr) auto

section \<open>Sums of shares\<close>

text \<open>A matrix given by its entries.\<close>

definition mat :: "nat \<Rightarrow> nat \<Rightarrow> (nat \<Rightarrow> nat \<Rightarrow> 64 word) \<Rightarrow> matrix" where
  "mat rows cols f = map (\<lambda>r. map (f r) [0..<cols]) [0..<rows]"

lemma mat_cong: "(\<And>r c. r < rows \<Longrightarrow> c < cols \<Longrightarrow> f r c = g r c) \<Longrightarrow> mat rows cols f = mat rows cols g"
  by (simp add: mat_def)

lemma mat_nth [simp]: "r < rows \<Longrightarrow> c < cols \<Longrightarrow> mat rows cols f ! r ! c = f r c"
  by (simp add: mat_def)

lemma mat_shape [simp]: "length (mat rows cols f) = rows" "r < rows \<Longrightarrow> length (mat rows cols f ! r) = cols"
  by (simp_all add: mat_def)

lemma matrix_at_mat [simp]: "r < rows \<Longrightarrow> c < cols \<Longrightarrow> matrix_at (mat rows cols f) r c = Inr (f r c)"
  by (simp add: matrix_at_def)

lemma matrix_is_mat:
  assumes "length m = rows" and "\<forall>row\<in>set m. length row = cols"
  shows "m = mat rows cols (\<lambda>r c. m ! r ! c)"
  using assms by (intro nth_equalityI) (auto intro!: nth_equalityI simp: mat_def)

lemma update_share_mat:
  "r < rows \<Longrightarrow> c < cols \<Longrightarrow> update_share f r c v (mat rows cols g) =
     Inr (mat rows cols (\<lambda>r' c'. if r' = r \<and> c' = c then f (g r c) v else g r' c'))"
proof -
  assume r: "r < rows" and c: "c < cols"
  let ?row = "map (g r) [0..<cols]"
  have "mat rows cols g ! r = ?row" using r by (simp add: mat_def)
  moreover have "(mat rows cols g)[r := ?row[c := f (g r c) v]] =
      mat rows cols (\<lambda>r' c'. if r' = r \<and> c' = c then f (g r c) v else g r' c')"
    using r c by (intro nth_equalityI) (auto intro!: nth_equalityI simp: mat_def nth_list_update)
  ultimately show ?thesis using r c by (simp add: update_share_def)
qed

text \<open>The exclusive or of the first \<open>n\<close> values of \<open>g\<close>.\<close>

primrec xor_upto :: "nat \<Rightarrow> (nat \<Rightarrow> 64 word) \<Rightarrow> 64 word" where
  "xor_upto 0 g = 0"
| "xor_upto (Suc n) g = xor_upto n g XOR g n"

lemma xor_upto_xor: "xor_upto n f XOR xor_upto n g = xor_upto n (\<lambda>j. f j XOR g j)"
proof (induction n)
  case (Suc n)
  have "(a XOR x) XOR (b XOR y) = (a XOR b) XOR (x XOR y)" for a b x y :: "64 word"
    by (simp add: ac_simps)
  from this [of "xor_upto n f" "f n" "xor_upto n g" "g n"] show ?case by (simp add: Suc)
qed simp

lemma xor_upto_cong: "(\<And>j. j < n \<Longrightarrow> f j = g j) \<Longrightarrow> xor_upto n f = xor_upto n g"
  by (induction n) simp_all

lemma xor_upto_none: "(\<And>j. j < n \<Longrightarrow> f j = 0) \<Longrightarrow> xor_upto n f = 0"
  by (induction n) simp_all

lemma xor_upto_single: "k < n \<Longrightarrow> xor_upto n (\<lambda>j. if j = k then v else 0) = v"
proof (induction n)
  case (Suc n)
  show ?case
  proof (cases "k = n")
    case True
    have "xor_upto n (\<lambda>j. if j = k then v else 0) = 0" by (rule xor_upto_none) (simp add: True)
    with True show ?thesis by simp
  qed (use Suc in simp)
qed simp

lemma share_bits_result:
  assumes "0 < rows"
  shows "share_bits bins h (mat bins h b) (mat rows bins f) =
    Inr (mat rows bins (\<lambda>r c. if r = 0 then f r c XOR xor_upto h (b c) else f r c))"
proof -
  let ?s = "\<lambda>i j. mat rows bins (\<lambda>r c. if r = 0 then f r c XOR
      (if c < i then xor_upto h (b c) else if c = i then xor_upto j (b c) else 0) else f r c)"
  have row: "for_upto h (\<lambda>j shares. res_bind (matrix_at (mat bins h b) i j)
      (\<lambda>v. update_share (XOR) 0 i v shares)) (?s i 0) = Inr (?s (Suc i) 0)" if i: "i < bins" for i
  proof -
    have "for_upto h (\<lambda>j shares. res_bind (matrix_at (mat bins h b) i j)
      (\<lambda>v. update_share (XOR) 0 i v shares)) (?s i 0) = Inr (?s i h)"
      by (rule for_upto_trace [where g = "?s i"])
         (use i assms in \<open>auto simp: update_share_mat xor.assoc intro!: mat_cong\<close>)
    also have "?s i h = ?s (Suc i) 0" by (rule mat_cong) auto
    finally show ?thesis .
  qed
  have "for_upto bins (\<lambda>i. for_upto h (\<lambda>j shares. res_bind (matrix_at (mat bins h b) i j)
      (\<lambda>v. update_share (XOR) 0 i v shares))) (?s 0 0) = Inr (?s bins 0)"
    by (rule for_upto_trace [where g = "\<lambda>i. ?s i 0"]) (rule row)
  moreover have "?s 0 0 = mat rows bins f" by (rule mat_cong) auto
  moreover have "?s bins 0 =
      mat rows bins (\<lambda>r c. if r = 0 then f r c XOR xor_upto h (b c) else f r c)"
    by (rule mat_cong) auto
  ultimately show ?thesis by (simp add: share_bits_def)
qed

text \<open>Adding a run of values to the rows \<open>d + 1, ..., d + n\<close> of one column.\<close>

lemma add_run:
  assumes "i < bins" and "d + n < rows"
    and step: "\<And>k s. k < n \<Longrightarrow> body k s = update_share (+) (d + k + 1) i (v k) s"
  shows "for_upto n body (mat rows bins f) =
    Inr (mat rows bins (\<lambda>r c. f r c + (if d < r \<and> r \<le> d + n \<and> c = i then v (r - d - 1) else 0)))"
proof -
  let ?s = "\<lambda>k. mat rows bins (\<lambda>r c. f r c + (if d < r \<and> r \<le> d + k \<and> c = i then v (r - d - 1) else 0))"
  have "for_upto n body (?s 0) = Inr (?s n)"
  proof (rule for_upto_trace)
    fix k assume k: "k < n"
    then show "body k (?s k) = Inr (?s (Suc k))"
      using assms(1,2) by (auto simp: step update_share_mat intro!: mat_cong)
  qed
  moreover have "?s 0 = mat rows bins f" by (rule mat_cong) auto
  ultimately show ?thesis by simp
qed

lemma add_zeros:
  assumes "i < bins" and "d + n < rows"
  shows "for_upto n (\<lambda>k. update_share (+) (d + k + 1) i 0) (mat rows bins f) = Inr (mat rows bins f)"
proof -
  have "for_upto n (\<lambda>k. update_share (+) (d + k + 1) i 0) (mat rows bins f) =
    Inr (mat rows bins (\<lambda>r c. f r c + (if d < r \<and> r \<le> d + n \<and> c = i then 0 else 0)))"
    by (rule add_run [OF assms]) simp
  then show ?thesis by simp
qed

text \<open>What one bin and one hash function select.\<close>

lemma add_selected_result:
  assumes "i < bins" and "j < h" and "sf < rows" and "length ms = sf"
    and "\<And>k. k < sf \<Longrightarrow> ms ! k = mat bins h (m k)"
  shows "add_selected sf ms i j (mat rows bins f) =
    Inr (mat rows bins (\<lambda>r c. f r c + (if 0 < r \<and> r \<le> sf \<and> c = i then m (r - 1) i j else 0)))"
  using add_run [of i bins 0 sf rows "\<lambda>k shares. res_bind (vec_at ms k) (\<lambda>m.
       res_bind (matrix_at m i j) (\<lambda>v. update_share (+) (k + 1) i v shares))" "\<lambda>k. m k i j" f, unfolded minus_nat.diff_0]
  using assms by (simp add: add_selected_def)

text \<open>The sums over the hash functions, in a bin and in all bins.\<close>

lemma add_functions:
  assumes step: "\<And>j g. j < h \<Longrightarrow> body j (mat rows bins g) =
      Inr (mat rows bins (\<lambda>r c. g r c + (if P r \<and> c = i then v r j else 0)))"
  shows "for_upto h body (mat rows bins f) =
    Inr (mat rows bins (\<lambda>r c. f r c + (if P r \<and> c = i then \<Sum>j<h. v r j else 0)))"
proof -
  let ?s = "\<lambda>n. mat rows bins (\<lambda>r c. f r c + (if P r \<and> c = i then \<Sum>j<n. v r j else 0))"
  have "for_upto h body (?s 0) = Inr (?s h)"
    by (rule for_upto_trace [where g = ?s]) (auto simp: step intro!: mat_cong)
  moreover have "?s 0 = mat rows bins f" by (rule mat_cong) auto
  ultimately show ?thesis by simp
qed

lemma add_bins:
  assumes step: "\<And>i g. i < bins \<Longrightarrow> body i (mat rows bins g) =
      Inr (mat rows bins (\<lambda>r c. g r c + (if c = i then v r i else 0)))"
  shows "for_upto bins body (mat rows bins f) = Inr (mat rows bins (\<lambda>r c. f r c + v r c))"
proof -
  let ?s = "\<lambda>n. mat rows bins (\<lambda>r c. f r c + (if c < n then v r c else 0))"
  have "for_upto bins body (?s 0) = Inr (?s bins)"
    by (rule for_upto_trace [where g = ?s]) (auto simp: step intro!: mat_cong)
  moreover have "?s 0 = mat rows bins f" by (rule mat_cong) auto
  moreover have "?s bins = mat rows bins (\<lambda>r c. f r c + v r c)" by (rule mat_cong) auto
  ultimately show ?thesis by simp
qed

definition selected :: "nat \<Rightarrow> nat \<Rightarrow> (nat \<Rightarrow> nat \<Rightarrow> nat \<Rightarrow> 64 word) \<Rightarrow> nat \<Rightarrow> nat \<Rightarrow> 64 word" where
  "selected sf h m r c = (if 0 < r \<and> r \<le> sf then \<Sum>j<h. m (r - 1) c j else 0)"

lemma sender_sums:
  assumes "sf + rf < rows" and ms: "length ms = sf" "\<And>k. k < sf \<Longrightarrow> ms ! k = mat bins h (m k)"
  shows "for_upto bins (\<lambda>i. for_upto h (\<lambda>j shares. res_bind (add_selected sf ms i j shares)
      (for_upto rf (\<lambda>k. update_share (+) (sf + k + 1) i 0)))) (mat rows bins f) =
    Inr (mat rows bins (\<lambda>r c. f r c + selected sf h m r c))"
proof (rule add_bins)
  fix i g assume i: "i < bins"
  have sel: "add_selected sf ms i j (mat rows bins g) =
      Inr (mat rows bins (\<lambda>r c. g r c + (if (0 < r \<and> r \<le> sf) \<and> c = i then m (r - 1) i j else 0)))"
    if "j < h" for j g
    using add_selected_result [OF i that, of sf rows ms m g] assms by simp
  have "for_upto h (\<lambda>j shares. res_bind (add_selected sf ms i j shares)
      (for_upto rf (\<lambda>k. update_share (+) (sf + k + 1) i 0))) (mat rows bins g) =
    Inr (mat rows bins (\<lambda>r c. g r c + (if (0 < r \<and> r \<le> sf) \<and> c = i then \<Sum>j<h. m (r - 1) i j else 0)))"
    by (rule add_functions) (simp only: sel res_bind_Inr add_zeros [OF i assms(1)])
  also have "\<dots> = Inr (mat rows bins (\<lambda>r c. g r c + (if c = i then selected sf h m r i else 0)))"
    by (simp, rule mat_cong) (simp add: selected_def)
  finally show "for_upto h (\<lambda>j shares. res_bind (add_selected sf ms i j shares)
      (for_upto rf (\<lambda>k. update_share (+) (sf + k + 1) i 0))) (mat rows bins g) =
    Inr (mat rows bins (\<lambda>r c. g r c + (if c = i then selected sf h m r i else 0)))" .
qed

text \<open>The receiver's own features, in its occupied bins.\<close>

definition own_row ::
  "nat \<Rightarrow> nat \<Rightarrow> bool list \<Rightarrow> (nat \<Rightarrow> nat \<Rightarrow> 64 word) \<Rightarrow> nat \<Rightarrow> nat \<Rightarrow> 64 word" where
  "own_row sf rf occ own r c = (if sf < r \<and> r \<le> sf + rf \<and> occ ! c then own (r - sf - 1) c else 0)"

lemma add_own_result:
  assumes "i < bins" and "sf + rf < rows" and "length occ = bins" and "length src = bins"
    and feat: "occ ! i \<Longrightarrow> \<exists>fs. features (src ! i) = Some fs \<and> length fs = rf \<and> (\<forall>k<rf. fs ! k = own k i)"
  shows "add_own sf rf occ src features i (mat rows bins f) =
    Inr (mat rows bins (\<lambda>r c. f r c + (if c = i then own_row sf rf occ own r i else 0)))"
proof (cases "occ ! i")
  case True
  from feat [OF True] obtain fs where fs: "features (src ! i) = Some fs" "length fs = rf"
    "\<forall>k<rf. fs ! k = own k i" by blast
  have "for_upto rf (\<lambda>k shares. res_bind (vec_at src i) (\<lambda>element.
      res_bind (vec_at (lookup [] features element) k) (\<lambda>v.
        update_share (+) (sf + k + 1) i v shares))) (mat rows bins f) =
    Inr (mat rows bins (\<lambda>r c. f r c + (if sf < r \<and> r \<le> sf + rf \<and> c = i then own (r - sf - 1) i else 0)))"
    by (rule add_run [OF assms(1,2)]) (use assms fs in \<open>simp add: lookup_def\<close>)
  also have "\<dots> = Inr (mat rows bins (\<lambda>r c. f r c + (if c = i then own_row sf rf occ own r i else 0)))"
    by (simp, rule mat_cong) (simp add: own_row_def True)
  finally show ?thesis using True assms by (simp add: add_own_def)
next
  case False
  then have "mat rows bins f = mat rows bins (\<lambda>r c. f r c + (if c = i then own_row sf rf occ own r i else 0))"
    by (intro mat_cong) (simp add: own_row_def)
  then show ?thesis using assms False by (simp add: add_own_def)
qed

lemma receiver_sums:
  assumes rows: "sf + rf < rows" and ms: "length ms = sf" "\<And>k. k < sf \<Longrightarrow> ms ! k = mat bins h (m k)"
    and "length occ = bins" and "length src = bins"
    and feat: "\<And>i. i < bins \<Longrightarrow> occ ! i \<Longrightarrow>
      \<exists>fs. features (src ! i) = Some fs \<and> length fs = rf \<and> (\<forall>k<rf. fs ! k = own k i)"
  shows "for_upto bins (\<lambda>i shares. res_bind (for_upto h (\<lambda>j. add_selected sf ms i j) shares)
      (add_own sf rf occ src features i)) (mat rows bins f) =
    Inr (mat rows bins (\<lambda>r c. f r c + (selected sf h m r c + own_row sf rf occ own r c)))"
proof (rule add_bins)
  fix i g assume i: "i < bins"
  have "for_upto h (\<lambda>j. add_selected sf ms i j) (mat rows bins g) =
    Inr (mat rows bins (\<lambda>r c. g r c + (if (0 < r \<and> r \<le> sf) \<and> c = i then \<Sum>j<h. m (r - 1) i j else 0)))"
    by (rule add_functions) (use add_selected_result [OF i, where rows = rows and ms = ms and m = m] assms in simp)
  moreover have "add_own sf rf occ src features i (mat rows bins g') =
    Inr (mat rows bins (\<lambda>r c. g' r c + (if c = i then own_row sf rf occ own r i else 0)))" for g'
    by (rule add_own_result [OF i rows assms(4,5)]) (rule feat [OF i])
  ultimately show "res_bind (for_upto h (\<lambda>j. add_selected sf ms i j) (mat rows bins g))
      (add_own sf rf occ src features i) =
    Inr (mat rows bins (\<lambda>r c. g r c +
      (if c = i then selected sf h m r i + own_row sf rf occ own r i else 0)))"
    by (auto simp: selected_def intro!: mat_cong)
qed

end
