(* ===== verification/Circuit_Opprf.thy ===== *)
theory Circuit_Opprf
  imports Circuit_Correct
begin

text \<open>
  The oblivious programmable PRF of the circuit protocol: under the contract of the hash
  tables, reading the sender's garbled table at a value gives, at the hash function that
  placed the value, what the sender programmed there.
\<close>

section \<open>The tables of a run\<close>

text \<open>The sender's simple table, the receiver's cuckoo table and the cuckoo table of the hints.\<close>

record circuit_tables =
  t_vals :: "item list list"
  t_fids :: "nat list list"
  t_cvals :: "item list"
  t_cids :: "nat list"
  t_cfids :: "nat list"
  t_cocc :: "bool list"
  t_csrc :: "item list"
  t_hocc :: "bool list"
  t_hsrc :: "item list"
  t_hfids :: "nat list"
  t_addresses :: "nat list"

definition hint_table_ok ::
  "(nat \<Rightarrow> item \<Rightarrow> nat) \<Rightarrow> nat \<Rightarrow> nat \<Rightarrow> item list \<Rightarrow> bool list \<Rightarrow> item list \<Rightarrow> nat list \<Rightarrow> bool" where
  "hint_table_ok loc n h inputs occ src fids \<longleftrightarrow>
     length occ = n \<and> length src = n \<and> length fids = n \<and>
     list_all (\<lambda>b. occ ! b \<longrightarrow> fids ! b < h \<and> loc (fids ! b) (src ! b) = b) [0..<n] \<and>
     mset (map ((!) src) (filter ((!) occ) [0..<n])) = mset inputs"

text \<open>
  The contract of the hash tables: \<open>loc\<close> and \<open>hloc\<close> are the bins of a value under the hash
  functions of the protocol and of the hints.
\<close>

definition circuit_tables_ok ::
  "(nat \<Rightarrow> item \<Rightarrow> nat) \<Rightarrow> (nat \<Rightarrow> item \<Rightarrow> nat) \<Rightarrow> nat \<Rightarrow> nat \<Rightarrow> nat \<Rightarrow> nat \<Rightarrow> item list \<Rightarrow> item list \<Rightarrow>
     circuit_tables \<Rightarrow> bool" where
  "circuit_tables_ok loc hloc k h bins hint_bins xs ys T \<longleftrightarrow>
     simple_table_ok loc bins k xs (t_vals T) (t_fids T) \<and>
     cuckoo_table_ok loc bins k ys (t_cvals T) (t_cids T) (t_cfids T) \<and>
     length (t_cocc T) = bins \<and> length (t_csrc T) = bins \<and>
     list_all (\<lambda>b. (t_cocc T ! b \<longleftrightarrow> t_cfids T ! b < k) \<and>
                  (t_cocc T ! b \<longrightarrow> t_csrc T ! b = ys ! (t_cids T ! b))) [0..<bins] \<and>
     hint_table_ok hloc hint_bins h (concat (t_vals T)) (t_hocc T) (t_hsrc T) (t_hfids T) \<and>
     t_addresses T = concat (map (\<lambda>e. map (\<lambda>j. hloc j e) [0..<h]) (t_cvals T)) \<and>
     list_all (\<lambda>a. a < hint_bins) (t_addresses T)"

text \<open>
  Different keys of the two parties have different digests, also after the number of the hash
  function is mixed in, and the filler of an empty bin is no value of the sender.
\<close>

definition circuit_names_ok :: "nat \<Rightarrow> nat \<Rightarrow> item list \<Rightarrow> item list \<Rightarrow> circuit_tables \<Rightarrow> bool" where
  "circuit_names_ok k bins xs ys T \<longleftrightarrow>
     distinct (concat (map (sender_names k) xs)) \<and> distinct ys \<and>
     list_all (\<lambda>y. list_all (\<lambda>x. list_all (\<lambda>j. list_all (\<lambda>j'.
       keys_xor_fun j y = keys_xor_fun j' x \<longrightarrow> y = x) [0..<k]) [0..<k]) xs) ys \<and>
     list_all (\<lambda>b. t_cfids T ! b < k \<or> t_cvals T ! b \<notin> set (t_vals T ! b)) [0..<bins]"

definition slot :: "bool list \<Rightarrow> item list \<Rightarrow> item \<Rightarrow> nat" where
  "slot occ src v = length (takeWhile (\<lambda>b. \<not> (occ ! b \<and> src ! b = v)) [0..<length occ])"

lemma slot_unique:
  assumes ok: "hint_table_ok loc n h inputs occ src fids" and dist: "distinct inputs"
    and b: "b < n" "occ ! b" "src ! b = v"
  shows "slot occ src v = b"
proof -
  have len: "length occ = n" using ok by (simp add: hint_table_ok_def)
  have "mset (map ((!) src) (filter ((!) occ) [0..<n])) = mset inputs"
    using ok by (simp add: hint_table_ok_def)
  then have d: "distinct (map ((!) src) (filter ((!) occ) [0..<n]))"
    using dist mset_eq_imp_distinct_iff by blast
  then have inj: "inj_on ((!) src) (set (filter ((!) occ) [0..<n]))" by (simp add: distinct_map)
  have "\<not> (occ ! b' \<and> src ! b' = v)" if "b' < b" for b'
  proof
    assume "occ ! b' \<and> src ! b' = v"
    moreover have "b' \<in> set (filter ((!) occ) [0..<n])" "b \<in> set (filter ((!) occ) [0..<n])"
      using calculation that b by simp_all
    ultimately have "b' = b" using inj b(3) by (auto dest: inj_onD)
    with that show False by simp
  qed
  moreover have "[0..<n] = [0..<b] @ b # [Suc b..<n]"
    using b(1) by (metis less_imp_le_nat upt_add_eq_append upt_conv_Cons le_add_diff_inverse zero_le)
  ultimately show ?thesis
    using b len by (simp add: slot_def takeWhile_append)
qed

lemma slot_exists:
  assumes ok: "hint_table_ok loc n h inputs occ src fids" and dist: "distinct inputs"
    and v: "v \<in> set inputs"
  shows "slot occ src v < n" "occ ! slot occ src v" "src ! slot occ src v = v"
    "fids ! slot occ src v < h" "loc (fids ! slot occ src v) v = slot occ src v"
proof -
  have "mset (map ((!) src) (filter ((!) occ) [0..<n])) = mset inputs"
    using ok by (simp add: hint_table_ok_def)
  from mset_eq_setD [OF this] have "set inputs = set (map ((!) src) (filter ((!) occ) [0..<n]))" ..
  with v obtain b where b: "b < n" "occ ! b" "src ! b = v" by auto
  moreover have "fids ! b < h \<and> loc (fids ! b) (src ! b) = b"
    using ok b by (auto simp: hint_table_ok_def list_all_iff)
  ultimately show "slot occ src v < n" "occ ! slot occ src v" "src ! slot occ src v = v"
    "fids ! slot occ src v < h" "loc (fids ! slot occ src v) v = slot occ src v"
    using slot_unique [OF ok dist b] by auto
qed

section \<open>The values of the sender's table\<close>

lemma table_values_mset:
  assumes "simple_table_ok loc bins k xs vals fids"
  shows "mset (concat vals) = mset (concat (map (sender_names k) xs))"
proof -
  from assms have len: "length vals = bins" "length fids = bins" "map length fids = map length vals"
    and m: "mset (table_entries vals fids) =
      mset (concat (map (\<lambda>e. map (\<lambda>j. (loc j e, keys_xor_fun j e, j)) [0..<k]) xs))"
    by (simp_all add: simple_table_ok_def)
  have l: "length (fids ! i) = length (vals ! i)" if "i < bins" for i
    using that len by (metis length_map nth_map)
  have "map (\<lambda>(i, v, f). v) (table_entries vals fids) =
      concat (map (\<lambda>i. map fst (zip (vals ! i) (fids ! i))) [0..<length vals])"
    by (simp add: table_entries_def map_concat comp_def case_prod_beta)
  also have "\<dots> = concat (map ((!) vals) [0..<length vals])"
    using l len by (intro arg_cong [of _ _ concat] map_cong) (simp_all add: map_fst_zip_take)
  finally have "map (\<lambda>(i, v, f). v) (table_entries vals fids) = concat vals" by (simp add: map_nth)
  then have "mset (concat vals) = image_mset (\<lambda>(i, v, f). v) (mset (table_entries vals fids))"
    by (metis mset_map)
  also have "\<dots> = mset (concat (map (sender_names k) xs))"
    unfolding m mset_map [symmetric]
    by (simp add: map_concat comp_def sender_names_def [abs_def])
  finally show ?thesis .
qed

lemma table_value_iff:
  assumes "simple_table_ok loc bins k xs vals fids" and "i < bins"
  shows "v \<in> set (vals ! i) \<longleftrightarrow> (\<exists>x\<in>set xs. \<exists>j<k. v = keys_xor_fun j x \<and> loc j x = i)"
proof -
  from assms have len: "length vals = bins" "length fids = bins" "map length fids = map length vals"
    and m: "mset (table_entries vals fids) =
      mset (concat (map (\<lambda>e. map (\<lambda>j. (loc j e, keys_xor_fun j e, j)) [0..<k]) xs))"
    by (simp_all add: simple_table_ok_def)
  have l: "length (fids ! i) = length (vals ! i)"
    using assms(2) len by (metis length_map nth_map)
  have "v \<in> set (vals ! i) \<longleftrightarrow> (\<exists>f. (v, f) \<in> set (zip (vals ! i) (fids ! i)))"
    using l by (metis in_set_impl_in_set_zip1 set_zip_leftD)
  also have "\<dots> \<longleftrightarrow> (\<exists>f. (i, v, f) \<in> set (table_entries vals fids))"
    using assms(2) len by (fastforce simp: table_entries_def)
  also have "\<dots> \<longleftrightarrow> (\<exists>f. (i, v, f) \<in>
      set (concat (map (\<lambda>e. map (\<lambda>j. (loc j e, keys_xor_fun j e, j)) [0..<k]) xs)))"
    unfolding mset_eq_setD [OF m] ..
  also have "\<dots> \<longleftrightarrow> (\<exists>x\<in>set xs. \<exists>j<k. v = keys_xor_fun j x \<and> loc j x = i)"
    by auto (blast, force)
  finally show ?thesis .
qed

section \<open>Programming and reading\<close>

text \<open>The masks of the two parties under the encoder \<open>F\<close>.\<close>

definition sender_masks :: "(nat \<Rightarrow> block \<Rightarrow> block) \<Rightarrow> nat \<Rightarrow> item list list \<Rightarrow> block list list" where
  "sender_masks F bins vals = map (\<lambda>i. map (\<lambda>v. F i (block_of v)) (vals ! i)) [0..<bins]"

definition receiver_masks :: "(nat \<Rightarrow> block \<Rightarrow> block) \<Rightarrow> item list \<Rightarrow> block list" where
  "receiver_masks F cvals = map (\<lambda>i. F i (block_of (cvals ! i))) [0..<length cvals]"

lemma encode_masks_sender:
  "length vals = bins \<Longrightarrow>
     encode_masks F bins (map (map block_of) vals) = Inr (sender_masks F bins vals)"
  by (simp add: encode_masks_result sender_masks_def comp_def)

text \<open>What an occupied bin of the hint table holds is where the sender located it.\<close>

lemma hint_placed:
  assumes hint: "hint_table_ok hloc n h (concat vals) occ src fids" and len: "length vals = bins"
    and find: "\<forall>i<bins. \<forall>j<length (vals ! i). tloc (vals ! i ! j) = Some (i, j)"
    and b: "b < n" "occ ! b"
  shows "\<exists>i j. tloc (src ! b) = Some (i, j) \<and> i < bins \<and> j < length (vals ! i) \<and> vals ! i ! j = src ! b"
proof -
  have "src ! b \<in> set (map ((!) src) (filter ((!) occ) [0..<n]))" using b by auto
  also have "\<dots> = set (concat vals)"
    using hint by (intro mset_eq_setD) (simp add: hint_table_ok_def)
  finally obtain i j where ij: "i < bins" "j < length (vals ! i)" "vals ! i ! j = src ! b"
    using len by (auto simp: in_set_conv_nth)
  then have "tloc (src ! b) = Some (i, j)" using find by metis
  with ij show ?thesis by blast
qed

lemma program_result:
  assumes ok: "circuit_tables_ok loc hloc k h bins hint_bins xs ys T"
    and dist: "distinct (concat (t_vals T))"
    and find: "\<forall>i<bins. \<forall>j<length (t_vals T ! i). tloc (t_vals T ! i ! j) = Some (i, j)"
    and content: "\<And>i v. i < bins \<Longrightarrow> v \<in> set (t_vals T ! i) \<Longrightarrow> content v i = Inr (c v)"
  shows "\<exists>garbled g'. garble pl hint_bins (t_hocc T) (t_hsrc T) (t_hfids T) tloc
      (sender_masks F bins (t_vals T)) tweak content g = Inr (garbled, g') \<and>
    length garbled = hint_bins \<and>
    (\<forall>i<bins. \<forall>v\<in>set (t_vals T ! i). \<forall>b. b = slot (t_hocc T) (t_hsrc T) v \<longrightarrow>
       garbled ! b XOR pads pl (F i (block_of v)) tweak h ! (t_hfids T ! b) = c v)"
proof -
  let ?occ = "t_hocc T" and ?src = "t_hsrc T" and ?fids = "t_hfids T" and ?vals = "t_vals T"
  let ?masks = "sender_masks F bins ?vals"
  have hint: "hint_table_ok hloc hint_bins h (concat ?vals) ?occ ?src ?fids"
    and len: "length ?vals = bins"
    using ok by (simp_all add: circuit_tables_ok_def simple_table_ok_def)
  let ?m = "\<lambda>b. F (fst (the (tloc (?src ! b)))) (block_of (?src ! b))"
  have place: "\<exists>i j. tloc (?src ! b) = Some (i, j) \<and> i < length ?masks \<and> j < length (?masks ! i) \<and>
      content (?src ! b) i = Inr (c (?src ! b)) \<and> ?masks ! i ! j = ?m b"
    if b: "b < hint_bins" "?occ ! b" for b
  proof -
    from hint_placed [OF hint len find b] obtain i j where ij: "tloc (?src ! b) = Some (i, j)" "i < bins"
        "j < length (?vals ! i)" "?vals ! i ! j = ?src ! b" by blast
    then have "?src ! b \<in> set (?vals ! i)" by (metis nth_mem)
    then show ?thesis using ij content by (auto simp: sender_masks_def)
  qed
  from garble_result [of ?occ hint_bins ?src ?fids tloc ?masks content "\<lambda>b. c (?src ! b)" ?m pl tweak g]
    hint place
  obtain garbled g' where
    g: "garble pl hint_bins ?occ ?src ?fids tloc ?masks tweak content g = Inr (garbled, g')"
      "length garbled = hint_bins"
      "\<forall>b<hint_bins. ?occ ! b \<longrightarrow>
         garbled ! b = c (?src ! b) XOR last (pads pl (?m b) tweak (Suc (?fids ! b)))"
    by (auto simp: hint_table_ok_def)
  have "garbled ! b XOR pads pl (F i (block_of v)) tweak h ! (?fids ! b) = c v"
    if i: "i < bins" and v: "v \<in> set (?vals ! i)" and b: "b = slot ?occ ?src v" for i v b
  proof -
    from v obtain j where j: "j < length (?vals ! i)" "?vals ! i ! j = v" by (auto simp: in_set_conv_nth)
    have "v \<in> set (concat ?vals)" using i v len by (auto intro!: bexI [of _ "?vals ! i"])
    note s = slot_exists [OF hint dist this, folded b]
    have "tloc v = Some (i, j)" using find i j by metis
    then show ?thesis
      using g(3) s by (simp add: last_pads xor.assoc)
  qed
  with g(1,2) show ?thesis by blast
qed

text \<open>What the receiver reads in bin \<open>i\<close> under hash function \<open>j\<close>.\<close>

definition reading ::
  "'r prng_lib \<Rightarrow> (nat \<Rightarrow> block \<Rightarrow> block) \<Rightarrow> nat \<Rightarrow> (nat \<Rightarrow> item \<Rightarrow> nat) \<Rightarrow> item list \<Rightarrow> block \<Rightarrow>
     64 word list \<Rightarrow> nat \<Rightarrow> nat \<Rightarrow> 64 word" where
  "reading pl F h hloc cvals tweak garbled i j =
     garbled ! hloc j (cvals ! i) XOR pads pl (F i (block_of (cvals ! i))) tweak h ! j"

lemma reading_result:
  assumes ok: "circuit_tables_ok loc hloc k h bins hint_bins xs ys T"
    and "length garbled = hint_bins" and "bins * h < 2 ^ 64"
  shows "ungarble pl bins h (t_addresses T) garbled (receiver_masks F (t_cvals T)) tweak =
    Inr (map (\<lambda>t. reading pl F h hloc (t_cvals T) tweak garbled (t div h) (t mod h)) [0..<bins * h])"
proof -
  let ?c = "t_cvals T"
  have c: "length ?c = bins" and adr: "t_addresses T = concat (map (\<lambda>e. map (\<lambda>j. hloc j e) [0..<h]) ?c)"
    "list_all (\<lambda>a. a < hint_bins) (t_addresses T)"
    using ok unfolding circuit_tables_ok_def cuckoo_table_ok_def by blast+
  have runs: "\<forall>r\<in>set (map (\<lambda>e. map (\<lambda>j. hloc j e) [0..<h]) ?c). length r = h" by simp
  have la: "length (t_addresses T) = bins * h" using length_runs [OF runs] by (simp add: adr c)
  have at: "t_addresses T ! t = hloc (t mod h) (?c ! (t div h))" if "t < bins * h" for t
  proof -
    from that have h: "0 < h" by (cases h) auto
    have d: "t div h < bins" using that h by (simp add: less_mult_imp_div_less)
    have "t_addresses T ! t = take h (drop (t div h * h) (t_addresses T)) ! (t mod h)"
    proof -
      have "t div h * h \<le> length (t_addresses T)"
        unfolding la by (rule order_trans [OF div_times_less_eq_dividend less_imp_le [OF that]])
      then have "drop (t div h * h) (t_addresses T) ! (t mod h) =
          t_addresses T ! (t div h * h + t mod h)" by (rule nth_drop)
      then show ?thesis using h by (simp only: nth_take mod_less_divisor div_mult_mod_eq)
    qed
    also have "take h (drop (t div h * h) (t_addresses T)) = map (\<lambda>j. hloc j (?c ! (t div h))) [0..<h]"
      using nth_run [OF runs, of "t div h"] d c by (simp add: adr)
    finally show ?thesis using h by simp
  qed
  have "ungarble pl bins h (t_addresses T) garbled (receiver_masks F ?c) tweak =
    Inr (map (\<lambda>t. garbled ! (t_addresses T ! t) XOR
      pads pl (receiver_masks F ?c ! (t div h)) tweak h ! (t mod h)) [0..<bins * h])"
    using adr(2) assms(2,3) la by (intro ungarble_result) (simp_all add: receiver_masks_def c list_all_iff)
  also have "\<dots> = Inr (map (\<lambda>t. reading pl F h hloc ?c tweak garbled (t div h) (t mod h)) [0..<bins * h])"
  proof -
    have "receiver_masks F ?c ! (t div h) = F (t div h) (block_of (?c ! (t div h)))" if "t < bins * h" for t
      using that by (simp add: receiver_masks_def c less_mult_imp_div_less)
    then show ?thesis by (simp add: at reading_def)
  qed
  finally show ?thesis .
qed

lemma content_matrix_reading:
  assumes "bins * h < 2 ^ 64"
  shows "content_matrix bins h f (map (\<lambda>t. g (t div h) (t mod h)) [0..<bins * h]) =
    Inr (mat bins h (\<lambda>i j. f (g i j)))"
proof -
  have "map (\<lambda>t. g (t div h) (t mod h)) [0..<bins * h] ! (i * h + j) = g i j"
    if "i < bins" "j < h" for i j
    using flat_small(2) [OF that assms] that by simp
  then show ?thesis
    using assms by (simp add: content_matrix_result mat_def)
qed

text \<open>The receiver reads the programmed value at the slot of its bin's value.\<close>

lemma reading_programmed:
  assumes ok: "circuit_tables_ok loc hloc k h bins hint_bins xs ys T"
    and dist: "distinct (concat (t_vals T))"
    and i: "i < bins" and v: "t_cvals T ! i \<in> set (t_vals T ! i)"
    and j: "j = t_hfids T ! slot (t_hocc T) (t_hsrc T) (t_cvals T ! i)"
    and programmed: "\<forall>i<bins. \<forall>v\<in>set (t_vals T ! i). \<forall>b. b = slot (t_hocc T) (t_hsrc T) v \<longrightarrow>
       garbled ! b XOR pads pl (F i (block_of v)) tweak h ! (t_hfids T ! b) = c i v"
  shows "j < h" "reading pl F h hloc (t_cvals T) tweak garbled i j = c i (t_cvals T ! i)"
proof -
  let ?v = "t_cvals T ! i"
  have hint: "hint_table_ok hloc hint_bins h (concat (t_vals T)) (t_hocc T) (t_hsrc T) (t_hfids T)"
    and len: "length (t_vals T) = bins"
    using ok by (simp_all add: circuit_tables_ok_def simple_table_ok_def)
  have "?v \<in> set (concat (t_vals T))" using i v len by (auto intro!: bexI [of _ "t_vals T ! i"])
  note s = slot_exists [OF hint dist this]
  show "j < h" using s(4) j by simp
  show "reading pl F h hloc (t_cvals T) tweak garbled i j = c i ?v"
    using programmed i v s(5) j by (simp add: reading_def)
qed

end
