(* ===== verification/Examples.thy ===== *)
theory Examples
  imports Ecdh_Psi Circuit_Psi Csv_Provider Dummy_Data
begin

text \<open>
  The programs under \<open>example/\<close>: how the parts are put together. A session reads its keys from
  a CSV file or makes them up, initialises the protocol object, runs it, stores the result and
  compares the bytes sent with the peer. The file system is a map from paths to contents, the
  number of bytes sent a parameter (the network library counts them); flags, logging and the
  clock are left out.
\<close>

section \<open>Keys\<close>

definition kBatchSize :: nat where "kBatchSize = 2 ^ 20"

text \<open>
  Made-up keys: the common ones from a generator with a fixed seed, the others from a generator
  of the party's own.
\<close>

definition example_random_keys ::
  "('g \<Rightarrow> byte \<times> 'g) \<Rightarrow> (byte list \<Rightarrow> 'g) \<Rightarrow> 'g \<Rightarrow> nat \<Rightarrow> nat \<Rightarrow> (string list \<times> 'g) res" where
  "example_random_keys sample create unique_prng intersection_size intersection_ratio =
     (let data_size = size_mul intersection_ratio intersection_size;
          common_prng = create (replicate 16 0)
      in res_bind (generate_random_keys sample intersection_size ''0'' [] common_prng)
           (\<lambda>(common_keys, _).
         res_bind (generate_random_keys sample (size_sub data_size intersection_size) ''0'' []
                     unique_prng) (\<lambda>(keys, unique_prng').
           Inr (common_keys @ keys, unique_prng'))))"

definition example_file_keys ::
  "('j, 'd) json_lib \<Rightarrow> (string \<Rightarrow> string option) \<Rightarrow> 'j \<Rightarrow> string list res" where
  "example_file_keys js fs params =
     res_bind (get_string js params ''data'' ''input_file'') (\<lambda>input_path.
     res_bind (get_bool js params ''data'' ''has_header'') (\<lambda>has_header.
     res_bind (get_size js params ''common'' ''ids_num'') (\<lambda>ids_num.
     res_bind (csv_open fs input_path has_header ids_num) (\<lambda>csv.
     res_bind (get_next_batch kBatchSize csv []) (\<lambda>(csv', keys). Inr keys)))))"

section \<open>Around the protocol\<close>

text \<open>The entries that the network is built from; building it is the library's.\<close>

definition example_network :: "('j, 'd) json_lib \<Rightarrow> 'j \<Rightarrow> unit res" where
  "example_network js params =
     res_bind (get_string js params ''network'' ''address'') (\<lambda>_.
     res_bind (get_size js params ''network'' ''remote_port'') (\<lambda>_.
     res_bind (get_size js params ''network'' ''local_port'') (\<lambda>_. Inr ())))"

definition store_result ::
  "('j, 'd) json_lib \<Rightarrow> (string \<Rightarrow> bool) \<Rightarrow> (string \<Rightarrow> string option) \<Rightarrow> 'j \<Rightarrow> string \<Rightarrow> string \<Rightarrow>
     string list \<Rightarrow> (string \<Rightarrow> string option) res" where
  "store_result js writable fs params part name output_keys =
     res_bind (get_bool js params part name) (\<lambda>flag.
       if flag
       then res_bind (get_string js params ''data'' ''output_file'') (\<lambda>output_path.
              write_data_to_file writable fs [output_keys] [] output_path False [])
       else Inr fs)"

definition exchange_statistics :: "bool \<Rightarrow> net \<Rightarrow> nat \<Rightarrow> ('c, 'e, nat) proc" where
  "exchange_statistics is_sender net communication =
     (if is_sender
      then bindp (send_data net (size_t_bytes communication)) (\<lambda>_.
           bindp (recv_data net 8) (\<lambda>b. Ret (size_t_of b)))
      else bindp (recv_data net 8) (\<lambda>b.
           bindp (send_data net (size_t_bytes communication)) (\<lambda>_. Ret (size_t_of b))))"

section \<open>The three sessions\<close>

text \<open>
  \<open>source\<close> is what the session gets its keys from: the file of the configuration, or the
  generators and the two sizes of the command line. A session returns its result, the file
  system, and the bytes both parties sent.
\<close>

datatype 'g source = From_File | Random "'g \<Rightarrow> byte \<times> 'g" "byte list \<Rightarrow> 'g" 'g nat nat

definition example_keys ::
  "('j, 'd) json_lib \<Rightarrow> (string \<Rightarrow> string option) \<Rightarrow> 'j \<Rightarrow> 'g source \<Rightarrow> string list res" where
  "example_keys js fs params source =
     (case source of
        From_File \<Rightarrow> example_file_keys js fs params
      | Random sample create unique_prng n ratio \<Rightarrow>
          res_bind (example_random_keys sample create unique_prng n ratio) (\<lambda>(keys, _). Inr keys))"

definition ecdh_psi_example ::
  "('j, 'd) json_lib \<Rightarrow> (int \<Rightarrow> ('pt, 'sk, 'k) ec_openssl) \<Rightarrow> 'k \<Rightarrow> nat \<Rightarrow> 'r uniform \<Rightarrow> 'r \<Rightarrow>
     (string \<Rightarrow> bool) \<Rightarrow> (string \<Rightarrow> string option) \<Rightarrow> net \<Rightarrow> 'j \<Rightarrow> 'g source \<Rightarrow> nat \<Rightarrow>
     ('c, 'e, string list \<times> (string \<Rightarrow> string option) \<times> nat) proc" where
  "ecdh_psi_example js new_cipher key_prng threads draw g writable fs net params source communication =
     bindp (lift_res (get_bool js params ''common'' ''is_sender'')) (\<lambda>is_sender.
     bindp (lift_res (example_network js params)) (\<lambda>_.
     bindp (lift_res (example_keys js fs params source)) (\<lambda>keys.
     bindp (ecdh_init js new_cipher key_prng threads net params) (\<lambda>psi.
       let keys = ecdh_preprocess_data psi net keys keys in
     bindp (ecdh_process draw g psi net keys) (\<lambda>output_keys.
     bindp (lift_res (case source of
              From_File \<Rightarrow> store_result js writable fs params ''ecdh_params'' ''obtain_result'' output_keys
            | _ \<Rightarrow> Inr fs)) (\<lambda>fs'.
     bindp (exchange_statistics is_sender net communication) (\<lambda>remote_communication.
       Ret (output_keys, fs', (communication + remote_communication) mod 2 ^ 64))))))))"

definition kkrt_psi_example ::
  "('j, double) json_lib \<Rightarrow> hash_lib \<Rightarrow> 'r prng_lib \<Rightarrow> 'r \<Rightarrow>
     (string \<Rightarrow> bool) \<Rightarrow> (string \<Rightarrow> string option) \<Rightarrow> net \<Rightarrow> 'j \<Rightarrow> 'g source \<Rightarrow> nat \<Rightarrow>
     (string list \<times> (string \<Rightarrow> string option) \<times> nat) verse_proc" where
  "kkrt_psi_example js hl pl g writable fs net params source communication =
     bindp (lift_res (get_bool js params ''common'' ''is_sender'')) (\<lambda>is_sender.
     bindp (lift_res (example_network js params)) (\<lambda>_.
     bindp (lift_res (example_keys js fs params source)) (\<lambda>keys.
     bindp (kkrt_init js pl g net params) (\<lambda>psi.
       let keys = kkrt_preprocess_data psi net keys keys in
     bindp (kkrt_process hl pl psi net keys []) (\<lambda>(output_keys, psi').
     bindp (lift_res (case source of
              From_File \<Rightarrow> store_result js writable fs params ''kkrt_params'' ''sender_obtain_result'' output_keys
            | _ \<Rightarrow> Inr fs)) (\<lambda>fs'.
     bindp (exchange_statistics is_sender net communication) (\<lambda>remote_communication.
       Ret (output_keys, fs', (communication + remote_communication) mod 2 ^ 64))))))))"

section \<open>Revealing the shares\<close>

text \<open>
  The circuit session joins the shares: the parties send each other all their rows, then add
  the two, the first row by exclusive or. The received rows have the size of the first one.
\<close>

definition swap_shares :: "net \<Rightarrow> matrix \<Rightarrow> matrix verse_proc" where
  "swap_shares net output_shares =
     bindp (lift_res (vec_at output_shares 0)) (\<lambda>first.
     bindp (fold_proc (\<lambda>row _. send_data net (concat (map u64_bytes row))) output_shares ()) (\<lambda>_.
       fold_proc (\<lambda>row recv_shares.
         bindp (recv_data net (length row * 8)) (\<lambda>bs.
           if length first < length row then Throw (Undefined_Behaviour ''buffer overflow'')
           else Ret (recv_shares @ [u64s_of (length row) bs @ replicate (length first - length row) 0])))
         output_shares []))"

definition join_entry :: "nat \<Rightarrow> 64 word \<Rightarrow> 64 word \<Rightarrow> 64 word" where
  "join_entry r a b = (if r = 0 then a XOR b else a + b)"

definition join_shares :: "matrix \<Rightarrow> matrix \<Rightarrow> matrix res" where
  "join_shares output_shares recv_shares =
     for_upto (length output_shares) (\<lambda>i recv_shares.
       res_bind (vec_at output_shares i) (\<lambda>row.
         for_upto (length row) (\<lambda>j recv_shares.
           res_bind (vec_at row j) (\<lambda>v. update_share (join_entry i) i j v recv_shares)) recv_shares))
       recv_shares"

definition circuit_reveal :: "net \<Rightarrow> matrix \<Rightarrow> matrix verse_proc" where
  "circuit_reveal net output_shares =
     bindp (swap_shares net output_shares) (\<lambda>recv_shares.
       lift_res (join_shares output_shares recv_shares))"

text \<open>Keys and one column of features, made up; reading them from a file is not supported.\<close>

definition circuit_inputs ::
  "('g \<Rightarrow> 64 word \<times> 'g) \<Rightarrow> 'g source \<Rightarrow> (string list \<times> 64 word list list) res" where
  "circuit_inputs sample_uint64 source =
     (case source of
        From_File \<Rightarrow> Inr ([], [])
      | Random sample create unique_prng n ratio \<Rightarrow>
          res_bind (example_random_keys sample create unique_prng n ratio) (\<lambda>(keys, unique_prng').
          res_bind (generate_random_features sample_uint64 (size_mul ratio n) False [] unique_prng')
            (\<lambda>(col_features, _). Inr (keys, [col_features]))))"

definition circuit_psi_example ::
  "('j, double) json_lib \<Rightarrow> hash_lib \<Rightarrow> 'r prng_lib \<Rightarrow> 'r \<Rightarrow> ('g \<Rightarrow> 64 word \<times> 'g) \<Rightarrow> net \<Rightarrow> 'j \<Rightarrow>
     'g source \<Rightarrow> nat \<Rightarrow> (matrix \<times> nat) verse_proc" where
  "circuit_psi_example js hl pl g sample_uint64 net params source communication =
     bindp (lift_res (get_bool js params ''common'' ''is_sender'')) (\<lambda>is_sender.
     bindp (lift_res (example_network js params)) (\<lambda>_.
     bindp (lift_res (circuit_inputs sample_uint64 source)) (\<lambda>(keys, features).
     bindp (circuit_init js pl g net params) (\<lambda>psi.
     bindp (circuit_process hl pl psi net keys features) (\<lambda>(output_shares, psi').
     bindp (circuit_reveal net output_shares) (\<lambda>recv_shares.
     bindp (exchange_statistics is_sender net communication) (\<lambda>remote_communication.
       Ret (recv_shares, (communication + remote_communication) mod 2 ^ 64))))))))"

section \<open>The command line\<close>

text \<open>The \<open>switch\<close> on the scheme flag.\<close>

datatype session = Ecdh_Session | Kkrt_Session | Circuit_Session

definition example_main :: "nat \<Rightarrow> session option" where
  "example_main scheme =
     (if scheme = 1 then Some Ecdh_Session
      else if scheme = 2 then Some Kkrt_Session
      else if scheme = 3 then Some Circuit_Session
      else None)"

end
