(* ===== verification/Circuit_Shares.thy ===== *)
theory Circuit_Shares
  imports Circuit_Opprf Examples
begin

text \<open>
  The second half of the circuit protocol: feature tables, and the computation on shares under
  the contract of the two-party library.
\<close>

section \<open>Feature tables\<close>

lemma fold_emplace:
  "fold (\<lambda>name t. emplace t name f) names t x =
     (case t x of Some v \<Rightarrow> Some v | None \<Rightarrow> if x \<in> set names then Some f else None)"
  by (induction names arbitrary: t) (auto simp: emplace_def split: option.splits)

definition features_ok :: "nat \<Rightarrow> 64 word list list \<Rightarrow> bool" where
  "features_ok n features \<longleftrightarrow> list_all (\<lambda>column. length column = n) features"

lemma feature_row:
  assumes "features_ok n features" and "i < n"
  shows "map_res (\<lambda>j. res_bind (vec_at features j) (\<lambda>column. vec_at column i)) [0..<length features] =
    Inr (map (\<lambda>column. column ! i) features)"
proof -
  have "map_res (\<lambda>j. res_bind (vec_at features j) (\<lambda>column. vec_at column i)) [0..<length features] =
      Inr (map (\<lambda>j. features ! j ! i) [0..<length features])"
    using assms by (intro map_res_Inr) (auto simp: features_ok_def list_all_length)
  also have "map (\<lambda>j. features ! j ! i) [0..<length features] = map (\<lambda>column. column ! i) features"
    by (rule map_nth_upt)
  finally show ?thesis .
qed

text \<open>Every name of a key leads to the features of that key.\<close>

lemma feature_table_result:
  assumes dist: "distinct (concat (map names keys))" and ok: "features_ok (length keys) features"
  shows "\<exists>t. feature_table names keys features (length features) (length keys) = Inr t \<and>
    (\<forall>p<length keys. \<forall>name\<in>set (names (keys ! p)). t name = Some (map (\<lambda>column. column ! p) features))"
proof -
  let ?row = "\<lambda>p. map (\<lambda>column. column ! p) features"
  let ?f = "\<lambda>i table. res_bind (map_res (\<lambda>j. res_bind (vec_at features j) (\<lambda>column. vec_at column i))
       [0..<length features]) (\<lambda>feature. res_bind (vec_at keys i) (\<lambda>key.
         Inr (fold (\<lambda>name t. emplace t name feature) (names key) table)))"
  let ?P = "\<lambda>n t. dom t \<subseteq> set (concat (map names (take n keys))) \<and>
      (\<forall>p<n. \<forall>name\<in>set (names (keys ! p)). t name = Some (?row p))"
  have "\<exists>t. for_upto (length keys) ?f Map.empty = Inr t \<and> ?P (length keys) t"
  proof (rule for_upto_invariant [where P = ?P])
    fix n and t :: "item \<Rightarrow> 64 word list option"
    assume n: "n < length keys" and inv: "?P n t"
    let ?t = "fold (\<lambda>name t. emplace t name (?row n)) (names (keys ! n)) t"
    have split: "concat (map names keys) = concat (map names (take n keys)) @ names (keys ! n) @
        concat (map names (drop (Suc n) keys))"
      using id_take_nth_drop [OF n] by (metis concat.simps(2) concat_append list.simps(9) map_append)
    with dist have "set (concat (map names (take n keys))) \<inter> set (names (keys ! n)) = {}"
      by (metis Int_Un_distrib Un_empty distinct_append set_append)
    then have fresh: "t name = None" if "name \<in> set (names (keys ! n))" for name
      using inv that by (cases "t name") (blast intro: domI)+
    have "?f n t = Inr ?t" using feature_row [OF ok n] n by simp
    moreover have "?P (Suc n) ?t"
    proof (intro conjI allI impI ballI)
      show "dom ?t \<subseteq> set (concat (map names (take (Suc n) keys)))"
        using inv n by (auto simp: fold_emplace take_Suc_conv_app_nth dom_def split: option.splits if_splits)
      fix p name assume p: "p < Suc n" "name \<in> set (names (keys ! p))"
      show "?t name = Some (?row p)"
        using p inv fresh by (cases "p = n") (auto simp: fold_emplace less_Suc_eq)
    qed
    ultimately show "\<exists>t'. ?f n t = Inr t' \<and> ?P (Suc n) t'" by blast
  qed simp
  then show ?thesis by (auto simp: feature_table_def)
qed

section \<open>The contract of the computation on shares\<close>

definition shaped :: "nat \<Rightarrow> nat \<Rightarrow> matrix \<Rightarrow> bool" where
  "shaped rows cols m \<longleftrightarrow> length m = rows \<and> list_all (\<lambda>row. length row = cols) m"

lemma shaped_mat [simp]: "shaped rows cols (mat rows cols f)"
  by (simp add: shaped_def mat_def list_all_iff)

lemma shaped_is_mat: "shaped rows cols m \<Longrightarrow> m = mat rows cols (\<lambda>r c. m ! r ! c)"
  by (rule matrix_is_mat) (simp_all add: shaped_def list_all_iff)

text \<open>
  Equality of two additively shared matrices gives shared bits; the multiplexer selects the
  shared value where the shared bit is set.
\<close>

definition duet_equal_ok :: "(verse_request, verse_answer) ideal \<Rightarrow> bool" where
  "duet_equal_ok ideal \<longleftrightarrow>
     (\<forall>rows cols x0 y0 x1 y1. shaped rows cols x0 \<and> shaped rows cols y0 \<and> shaped rows cols x1 \<and>
        shaped rows cols y1 \<longrightarrow>
        (\<exists>r0 r1. ideal (Duet_Equal x0 y0) (Duet_Equal x1 y1) = Some (Duet_Shares r0, Duet_Shares r1) \<and>
           shaped rows cols r0 \<and> shaped rows cols r1 \<and>
           (\<forall>i<rows. \<forall>j<cols. r0 ! i ! j XOR r1 ! i ! j =
              (if x0 ! i ! j + x1 ! i ! j = y0 ! i ! j + y1 ! i ! j then 1 else 0))))"

definition duet_multiplexer_ok :: "(verse_request, verse_answer) ideal \<Rightarrow> bool" where
  "duet_multiplexer_ok ideal \<longleftrightarrow>
     (\<forall>rows cols b0 s0 b1 s1. shaped rows cols b0 \<and> shaped rows cols s0 \<and> shaped rows cols b1 \<and>
        shaped rows cols s1 \<and> (\<forall>i<rows. \<forall>j<cols. b0 ! i ! j XOR b1 ! i ! j \<in> {0, 1}) \<longrightarrow>
        (\<exists>m0 m1. ideal (Duet_Multiplexer b0 s0) (Duet_Multiplexer b1 s1) =
             Some (Duet_Shares m0, Duet_Shares m1) \<and> shaped rows cols m0 \<and> shaped rows cols m1 \<and>
           (\<forall>i<rows. \<forall>j<cols. m0 ! i ! j + m1 ! i ! j =
              (if b0 ! i ! j XOR b1 ! i ! j = 1 then s0 ! i ! j + s1 ! i ! j else 0))))"

definition duet_ok :: "(verse_request, verse_answer) ideal \<Rightarrow> bool" where
  "duet_ok ideal \<longleftrightarrow> duet_equal_ok ideal \<and> duet_multiplexer_ok ideal"

lemma duet_equalD:
  "duet_ok ideal \<Longrightarrow> shaped n h x0 \<Longrightarrow> shaped n h y0 \<Longrightarrow> shaped n h x1 \<Longrightarrow> shaped n h y1 \<Longrightarrow>
     \<exists>r0 r1. ideal (Duet_Equal x0 y0) (Duet_Equal x1 y1) = Some (Duet_Shares r0, Duet_Shares r1) \<and>
       shaped n h r0 \<and> shaped n h r1 \<and>
       (\<forall>i<n. \<forall>j<h. r0 ! i ! j XOR r1 ! i ! j =
          (if x0 ! i ! j + x1 ! i ! j = y0 ! i ! j + y1 ! i ! j then 1 else 0))"
  by (simp add: duet_ok_def duet_equal_ok_def)

lemma duet_multiplexerD:
  "duet_ok ideal \<Longrightarrow> shaped n h b0 \<Longrightarrow> shaped n h s0 \<Longrightarrow> shaped n h b1 \<Longrightarrow> shaped n h s1 \<Longrightarrow>
     (\<forall>i<n. \<forall>j<h. b0 ! i ! j XOR b1 ! i ! j \<in> {0, 1}) \<Longrightarrow>
     \<exists>m0 m1. ideal (Duet_Multiplexer b0 s0) (Duet_Multiplexer b1 s1) =
         Some (Duet_Shares m0, Duet_Shares m1) \<and> shaped n h m0 \<and> shaped n h m1 \<and>
       (\<forall>i<n. \<forall>j<h. m0 ! i ! j + m1 ! i ! j =
          (if b0 ! i ! j XOR b1 ! i ! j = 1 then s0 ! i ! j + s1 ! i ! j else 0))"
  unfolding duet_ok_def duet_multiplexer_ok_def
  by (elim conjE, drule spec [of _ n], drule spec [of _ h], drule spec [of _ b0], drule spec [of _ s0],
      drule spec [of _ b1], drule spec [of _ s1], erule mp) (intro conjI; assumption)

lemma equality_joint:
  assumes "duet_ok ideal"
  shows "\<exists>ra rb. joint ideal (equality (mat n h x0) (mat n h y0)) (equality (mat n h x1) (mat n h y1))
      (mat n h ra) (mat n h rb) \<and>
    (\<forall>i<n. \<forall>j<h. ra i j XOR rb i j = (if x0 i j + x1 i j = y0 i j + y1 i j then 1 else 0))"
proof -
  from duet_equalD [OF assms shaped_mat shaped_mat shaped_mat shaped_mat] obtain r0 r1 where
    r: "ideal (Duet_Equal (mat n h x0) (mat n h y0))
      (Duet_Equal (mat n h x1) (mat n h y1)) = Some (Duet_Shares r0, Duet_Shares r1)"
    "shaped n h r0" "shaped n h r1"
    "\<forall>i<n. \<forall>j<h. r0 ! i ! j XOR r1 ! i ! j = (if mat n h x0 ! i ! j + mat n h x1 ! i ! j =
        mat n h y0 ! i ! j + mat n h y1 ! i ! j then 1 else 0)" by blast
  have "joint ideal (equality (mat n h x0) (mat n h y0)) (equality (mat n h x1) (mat n h y1)) r0 r1"
    unfolding equality_def by (rule joint_call, rule r(1)) (simp add: joint_Ret)
  with r(4) shaped_is_mat [OF r(2)] shaped_is_mat [OF r(3)] show ?thesis
    by (intro exI [of _ "\<lambda>i j. r0 ! i ! j"] exI [of _ "\<lambda>i j. r1 ! i ! j"]) simp
qed

lemma multiplexer_joint:
  assumes "duet_ok ideal" and "\<forall>i<n. \<forall>j<h. ra i j XOR rb i j \<in> {0, 1}"
  shows "\<exists>ma mb. joint ideal (multiplexer (mat n h ra) (mat n h s0)) (multiplexer (mat n h rb) (mat n h s1))
      (mat n h ma) (mat n h mb) \<and>
    (\<forall>i<n. \<forall>j<h. ma i j + mb i j = (if ra i j XOR rb i j = 1 then s0 i j + s1 i j else 0))"
proof -
  have "\<forall>i<n. \<forall>j<h. mat n h ra ! i ! j XOR mat n h rb ! i ! j \<in> {0, 1}"
    using assms(2) by simp
  from duet_multiplexerD [OF assms(1) shaped_mat shaped_mat shaped_mat shaped_mat this] obtain m0 m1 where
    m: "ideal (Duet_Multiplexer (mat n h ra) (mat n h s0))
      (Duet_Multiplexer (mat n h rb) (mat n h s1)) = Some (Duet_Shares m0, Duet_Shares m1)"
    "shaped n h m0" "shaped n h m1"
    "\<forall>i<n. \<forall>j<h. m0 ! i ! j + m1 ! i ! j = (if mat n h ra ! i ! j XOR mat n h rb ! i ! j = 1
        then mat n h s0 ! i ! j + mat n h s1 ! i ! j else 0)" by blast
  have "joint ideal (multiplexer (mat n h ra) (mat n h s0)) (multiplexer (mat n h rb) (mat n h s1)) m0 m1"
    unfolding multiplexer_def by (rule joint_call, rule m(1)) (simp add: joint_Ret)
  with m(4) shaped_is_mat [OF m(2)] shaped_is_mat [OF m(3)] show ?thesis
    by (intro exI [of _ "\<lambda>i j. m0 ! i ! j"] exI [of _ "\<lambda>i j. m1 ! i ! j"]) simp
qed

lemma multiplex_all_joint:
  assumes "duet_ok ideal" and bits: "\<forall>i<n. \<forall>j<h. ra i j XOR rb i j \<in> {0, 1}"
    and fa: "fa = map (\<lambda>k. mat n h (sa k)) [0..<sf]" and fb: "fb = map (\<lambda>k. mat n h (sb k)) [0..<sf]"
  shows "\<exists>ma mb. joint ideal (multiplex_all (mat n h ra) fa sf) (multiplex_all (mat n h rb) fb sf)
      (map (\<lambda>k. mat n h (ma k)) [0..<sf]) (map (\<lambda>k. mat n h (mb k)) [0..<sf]) \<and>
    (\<forall>k < sf. \<forall>i<n. \<forall>j<h. ma k i j + mb k i j =
       (if ra i j XOR rb i j = 1 then sa k i j + sb k i j else 0))"
proof -
  have "\<forall>k. \<exists>ma mb. joint ideal (multiplexer (mat n h ra) (mat n h (sa k)))
      (multiplexer (mat n h rb) (mat n h (sb k))) (mat n h ma) (mat n h mb) \<and>
    (\<forall>i<n. \<forall>j<h. ma i j + mb i j = (if ra i j XOR rb i j = 1 then sa k i j + sb k i j else 0))"
    using multiplexer_joint [OF assms(1) bits] by blast
  then obtain ma mb where m: "\<forall>k. joint ideal (multiplexer (mat n h ra) (mat n h (sa k)))
      (multiplexer (mat n h rb) (mat n h (sb k))) (mat n h (ma k)) (mat n h (mb k)) \<and>
    (\<forall>i<n. \<forall>j<h. ma k i j + mb k i j = (if ra i j XOR rb i j = 1 then sa k i j + sb k i j else 0))"
    by metis
  let ?s = "\<lambda>m i. map (\<lambda>k. mat n h (m k)) [0..<i]"
  have "joint ideal (multiplex_all (mat n h ra) fa sf) (multiplex_all (mat n h rb) fb sf)
      (?s ma sf) (?s mb sf)"
  proof -
    have "joint ideal
      (fold_proc (\<lambda>i out. bindp (lift_res (vec_at fa i)) (\<lambda>share.
         bindp (multiplexer (mat n h ra) share) (\<lambda>m. Ret (out @ [m])))) [0..<sf] (?s ma 0))
      (fold_proc (\<lambda>i out. bindp (lift_res (vec_at fb i)) (\<lambda>share.
         bindp (multiplexer (mat n h rb) share) (\<lambda>m. Ret (out @ [m])))) [0..<sf] (?s mb 0))
      (?s ma sf) (?s mb sf)"
    proof (rule joint_loop)
      fix i assume "i < sf"
      then show "joint ideal
          (bindp (lift_res (vec_at fa i)) (\<lambda>share. bindp (multiplexer (mat n h ra) share) (\<lambda>m. Ret (?s ma i @ [m]))))
          (bindp (lift_res (vec_at fb i)) (\<lambda>share. bindp (multiplexer (mat n h rb) share) (\<lambda>m. Ret (?s mb i @ [m]))))
          (?s ma (Suc i)) (?s mb (Suc i))"
        using m by (simp add: fa fb) (rule joint_bindp, blast, simp add: joint_Ret)
    qed
    then show ?thesis by (simp add: multiplex_all_def)
  qed
  with m show ?thesis by blast
qed

section \<open>The computation on shares\<close>

lemma init_shares_mat:
  "sf + rf + 1 \<le> max_vectors \<Longrightarrow> bins \<le> max_u64s \<Longrightarrow>
     init_shares sf rf bins = Inr (mat (sf + rf + 1) bins (\<lambda>r c. 0))"
proof -
  assume a: "sf + rf + 1 \<le> max_vectors" and b: "bins \<le> max_u64s"
  have "max_vectors < 2 ^ 64" by (simp add: max_vectors_def)
  with a have "(sf + rf + 1) mod 2 ^ 64 = sf + rf + 1" by (intro mod_less) linarith
  then show ?thesis
    using a b by (simp add: init_shares_def vec_size_ok mat_def map_replicate_const del: replicate_Suc)
qed

lemma constant_mat:
  "replicate n (replicate h 0) = mat n h (\<lambda>i j. 0)"
  "length cs = n \<Longrightarrow> map (replicate h) cs = mat n h (\<lambda>i j. cs ! i)"
  "length cs = n \<Longrightarrow> map (\<lambda>c. replicate h (f c)) cs = mat n h (\<lambda>i j. f (cs ! i))"
  by (auto simp: mat_def map_replicate_const intro: nth_equalityI)

text \<open>The masked values of bin \<open>i\<close> agree under hash function \<open>j\<close>.\<close>

definition share_hit ::
  "64 word list \<Rightarrow> (nat \<Rightarrow> nat \<Rightarrow> 64 word) \<Rightarrow> nat \<Rightarrow> nat \<Rightarrow> bool" where
  "share_hit contents rd i j \<longleftrightarrow> contents ! i AND kReduceBitsLen = rd i j AND kReduceBitsLen"

text \<open>The share joined over both parties, in row \<open>r\<close> and bin \<open>i\<close>.\<close>

definition joined_share ::
  "nat \<Rightarrow> nat \<Rightarrow> nat \<Rightarrow> (nat \<Rightarrow> nat \<Rightarrow> bool) \<Rightarrow> (nat \<Rightarrow> nat \<Rightarrow> nat \<Rightarrow> 64 word) \<Rightarrow>
     (nat \<Rightarrow> nat \<Rightarrow> 64 word) \<Rightarrow> nat \<Rightarrow> nat \<Rightarrow> 64 word" where
  "joined_share sf rf h hit value own r i =
     (if r = 0 then xor_upto h (\<lambda>j. if hit i j then 1 else 0)
      else if r \<le> sf then \<Sum>j<h. if hit i j then value (r - 1) i j else 0
      else own (r - sf - 1) i)"

lemma shares_join:
  assumes "r < sf + rf + 1"
    and bits: "\<And>j. j < h \<Longrightarrow> ra i j XOR rb i j = (if hit i j then 1 else 0)"
    and feats: "\<And>k j. k < sf \<Longrightarrow> j < h \<Longrightarrow> ma k i j + mb k i j =
      (if ra i j XOR rb i j = 1 then va k i j + vb k i j else (0::64 word))"
  shows "join_entry r
      ((if r = 0 then xor_upto h (ra i) else 0) + selected sf h ma r i)
      ((if r = 0 then xor_upto h (rb i) else 0) + (selected sf h mb r i + own_row sf rf occ own r i)) =
    joined_share sf rf h hit (\<lambda>k i j. va k i j + vb k i j)
      (\<lambda>k i. if occ ! i then own k i else 0) r i"
proof -
  consider "r = 0" | "0 < r" "r \<le> sf" | "sf < r" "r \<le> sf + rf" using assms(1) by linarith
  then show ?thesis
  proof cases
    case 1
    have "xor_upto h (ra i) XOR xor_upto h (rb i) = xor_upto h (\<lambda>j. if hit i j then 1 else 0)"
      unfolding xor_upto_xor by (rule xor_upto_cong) (rule bits)
    with 1 show ?thesis by (simp add: join_entry_def joined_share_def selected_def own_row_def)
  next
    case 2
    have "(\<Sum>j<h. ma (r - 1) i j) + (\<Sum>j<h. mb (r - 1) i j) =
        (\<Sum>j<h. if hit i j then va (r - 1) i j + vb (r - 1) i j else 0)"
      unfolding sum.distrib [symmetric]
      by (rule sum.cong) (use 2 in \<open>auto simp: feats bits\<close>)
    with 2 show ?thesis by (simp add: join_entry_def joined_share_def selected_def own_row_def)
  next
    case 3
    then show ?thesis by (simp add: join_entry_def joined_share_def selected_def own_row_def)
  qed
qed

text \<open>
  The last phase of both parties: the sender with its random contents, the receiver with what
  it read.
\<close>

lemma shares_joint:
  assumes duet: "duet_ok ideal" and small: "sf + rf + 1 \<le> max_vectors" "bins \<le> max_u64s" "bins * h < 2 ^ 64"
    and c: "length contents = bins"
    and fa: "fa = map (\<lambda>k. mat bins h (va k)) [0..<sf]"
    and fb: "fb = map (\<lambda>k. map (\<lambda>t. vb k (t div h) (t mod h)) [0..<bins * h]) [0..<sf]"
    and occ: "length occ = bins" "length src = bins"
    and feat: "\<And>i. i < bins \<Longrightarrow> occ ! i \<Longrightarrow> rf \<noteq> 0 \<Longrightarrow>
      \<exists>fs. features (src ! i) = Some fs \<and> length fs = rf \<and> (\<forall>k<rf. fs ! k = own k i)"
    and empty: "\<And>i. i < bins \<Longrightarrow> occ ! i \<Longrightarrow> rf = 0 \<Longrightarrow> sf \<noteq> 0 \<Longrightarrow> features (src ! i) = Some []"
  shows "\<exists>Sa Sb. joint ideal
      (circuit_sender_shares bins h sf rf contents fa)
      (circuit_receiver_shares bins h sf rf (map (\<lambda>t. rd (t div h) (t mod h)) [0..<bins * h]) fb
         occ src features) (mat (sf + rf + 1) bins Sa) (mat (sf + rf + 1) bins Sb) \<and>
    (\<forall>r < sf + rf + 1. \<forall>i<bins. join_entry r (Sa r i) (Sb r i) =
       joined_share sf rf h (share_hit contents rd) (\<lambda>k i j. va k i j + vb k i j)
         (\<lambda>k i. if occ ! i then own k i else 0) r i)"
proof -
  let ?rows = "sf + rf + 1"
  let ?c = "\<lambda>i j. contents ! i AND kReduceBitsLen" and ?d = "\<lambda>i j. rd i j AND kReduceBitsLen"
  from equality_joint [OF duet, of bins h ?c "\<lambda>i j. 0" "\<lambda>i j. 0" ?d] obtain ra rb where
    eq: "joint ideal (equality (mat bins h ?c) (mat bins h (\<lambda>i j. 0)))
        (equality (mat bins h (\<lambda>i j. 0)) (mat bins h ?d)) (mat bins h ra) (mat bins h rb)"
    and bits: "\<forall>i<bins. \<forall>j<h. ra i j XOR rb i j = (if share_hit contents rd i j then 1 else 0)"
    by (auto simp: share_hit_def)
  from bits have bit: "\<forall>i<bins. \<forall>j<h. ra i j XOR rb i j \<in> {0, 1}" by simp
  from multiplex_all_joint [OF duet bit fa refl, of vb] obtain ma mb where
    mux: "joint ideal (multiplex_all (mat bins h ra) fa sf)
        (multiplex_all (mat bins h rb) (map (\<lambda>k. mat bins h (vb k)) [0..<sf]) sf)
        (map (\<lambda>k. mat bins h (ma k)) [0..<sf]) (map (\<lambda>k. mat bins h (mb k)) [0..<sf])"
    and sel: "\<forall>k < sf. \<forall>i<bins. \<forall>j<h. ma k i j + mb k i j =
       (if ra i j XOR rb i j = 1 then va k i j + vb k i j else 0)" by blast
  let ?Sa = "\<lambda>r i. (if r = 0 then xor_upto h (ra i) else 0) + selected sf h ma r i"
  let ?Sb = "\<lambda>r i. (if r = 0 then xor_upto h (rb i) else 0) +
      (selected sf h mb r i + own_row sf rf occ own r i)"
  have bits_a: "share_bits bins h (mat bins h ra) (mat ?rows bins (\<lambda>r c. 0)) =
      Inr (mat ?rows bins (\<lambda>r i. if r = 0 then xor_upto h (ra i) else 0))"
    and bits_b: "share_bits bins h (mat bins h rb) (mat ?rows bins (\<lambda>r c. 0)) =
      Inr (mat ?rows bins (\<lambda>r i. if r = 0 then xor_upto h (rb i) else 0))"
    by (subst share_bits_result, simp, simp, rule mat_cong, simp)+
  have read: "map_res (\<lambda>i. res_bind (vec_at fb i) (content_matrix bins h (\<lambda>v. v))) [0..<sf] =
      Inr (map (\<lambda>k. mat bins h (vb k)) [0..<sf])"
    using small(3) by (intro map_res_Inr) (simp add: fb content_matrix_reading)
  have sums_a: "for_upto bins (\<lambda>i. for_upto h (\<lambda>j shares.
      res_bind (add_selected sf (map (\<lambda>k. mat bins h (ma k)) [0..<sf]) i j shares)
        (for_upto rf (\<lambda>k. update_share (+) (sf + k + 1) i 0))))
      (mat ?rows bins (\<lambda>r i. if r = 0 then xor_upto h (ra i) else 0)) = Inr (mat ?rows bins ?Sa)"
    by (rule sender_sums) simp_all
  have sums_b: "for_upto bins (\<lambda>i shares. res_bind
      (for_upto h (\<lambda>j. add_selected sf (map (\<lambda>k. mat bins h (mb k)) [0..<sf]) i j) shares)
        (add_own sf rf occ src features i))
      (mat ?rows bins (\<lambda>r i. if r = 0 then xor_upto h (rb i) else 0)) = Inr (mat ?rows bins ?Sb)"
    if "sf \<noteq> 0 \<or> rf \<noteq> 0"
    by (rule receiver_sums) (use occ feat empty that in \<open>simp_all, fastforce\<close>)
  have none: "mat ?rows bins (\<lambda>r i. if r = 0 then xor_upto h (ra i) else 0) = mat ?rows bins ?Sa"
    "mat ?rows bins (\<lambda>r i. if r = 0 then xor_upto h (rb i) else 0) = mat ?rows bins ?Sb"
    if "\<not> (sf \<noteq> 0 \<or> rf \<noteq> 0)"
    using that by (auto intro!: mat_cong simp: selected_def own_row_def)
  note init = init_shares_mat [OF small(1,2)]
  have "joint ideal (circuit_sender_shares bins h sf rf contents fa)
      (circuit_receiver_shares bins h sf rf (map (\<lambda>t. rd (t div h) (t mod h)) [0..<bins * h]) fb
         occ src features) (mat ?rows bins ?Sa) (mat ?rows bins ?Sb)"
  proof (cases "sf \<noteq> 0 \<or> rf \<noteq> 0")
    case True
    then show ?thesis
      unfolding circuit_sender_shares_def circuit_receiver_shares_def constant_mat
        content_matrix_reading [OF small(3)] constant_mat(3) [OF c] lift_res_simps bindp.simps
      by (intro joint_bindp [OF eq])
         (simp only: init bits_a bits_b read lift_res_simps bindp.simps if_True,
          intro joint_bindp [OF mux], simp only: sums_a sums_b [OF True] lift_res_simps joint_Ret)
  next
    case False
    then show ?thesis
      unfolding circuit_sender_shares_def circuit_receiver_shares_def constant_mat
        content_matrix_reading [OF small(3)] constant_mat(3) [OF c] lift_res_simps bindp.simps
      by (intro joint_bindp [OF eq])
         (simp only: init bits_a bits_b lift_res_simps bindp.simps if_False none [OF False] joint_Ret)
  qed
  moreover have "join_entry r (?Sa r i) (?Sb r i) =
      joined_share sf rf h (share_hit contents rd) (\<lambda>k i j. va k i j + vb k i j)
        (\<lambda>k i. if occ ! i then own k i else 0) r i" if "r < ?rows" "i < bins" for r i
    by (rule shares_join) (use that bits sel in auto)
  ultimately show ?thesis by blast
qed

end
