(* ===== verification/Circuit_Run.thy ===== *)
theory Circuit_Run
  imports Circuit_Shares
begin

text \<open>
  The joint run of the circuit protocol, phase by phase: sizes, OPRF, membership hint and
  feature hints of a matched pair of parties under the contracts of the libraries.
\<close>

section \<open>What a run relies on\<close>

definition circuit_paired :: "'r circuit_psi \<Rightarrow> 'r circuit_psi \<Rightarrow> bool" where
  "circuit_paired a b \<longleftrightarrow> p_is_sender a \<and> \<not> p_is_sender b \<and>
     p_num_of_fun a = p_num_of_fun b \<and> p_num_of_fun_hint a = p_num_of_fun_hint b \<and>
     p_epsilon a = p_epsilon b \<and> p_epsilon_hint a = p_epsilon_hint b \<and>
     p_common_prng a = p_common_prng b"

definition circuit_oprf_ok ::
  "(verse_request, verse_answer) ideal \<Rightarrow> (nat \<Rightarrow> block \<Rightarrow> block) \<Rightarrow> 'r circuit_psi \<Rightarrow>
     'r circuit_psi \<Rightarrow> bool" where
  "circuit_oprf_ok ideal F a b \<longleftrightarrow>
     (\<forall>inputs. ideal (Nco_Ot_Send (p_choices a) (p_base_recv a) (length inputs))
                (Nco_Ot_Receive (p_base_send b) inputs) =
        Some (Nco_Ot_Encoder F,
              Nco_Ot_Masks (map (\<lambda>i. F i (inputs ! i)) [0..<length inputs])))"

text \<open>The common generator after \<open>n\<close> seeds, and the seed drawn next.\<close>

primrec advanced :: "'r prng_lib \<Rightarrow> nat \<Rightarrow> 'r \<Rightarrow> 'r" where
  "advanced pl 0 g = g"
| "advanced pl (Suc n) g = snd (prng_generate pl (advanced pl n g) kRandSeedBytesLen)"

definition seed_at :: "'r prng_lib \<Rightarrow> nat \<Rightarrow> 'r \<Rightarrow> byte list" where
  "seed_at pl n g = fst (prng_generate pl (advanced pl n g) kRandSeedBytesLen)"

lemma draw_seed:
  "prng_generate pl g kRandSeedBytesLen = (seed_at pl 0 g, advanced pl 1 g)"
  "prng_generate pl (advanced pl 1 g) kRandSeedBytesLen = (seed_at pl 1 g, advanced pl 2 g)"
  by (simp_all add: seed_at_def numeral_2_eq_2)

text \<open>The tables of a run with digests \<open>xs\<close> and \<open>ys\<close>.\<close>

definition run_tables ::
  "hash_lib \<Rightarrow> 'r prng_lib \<Rightarrow> 'r circuit_psi \<Rightarrow> nat \<Rightarrow> nat \<Rightarrow> item list \<Rightarrow> item list \<Rightarrow>
     circuit_tables" where
  "run_tables hl pl a bins hint_bins xs ys =
     (let k = p_num_of_fun a; h = p_num_of_fun_hint a; seed = seed_at pl 0 (p_common_prng a);
          hint_seed = seed_at pl 1 (p_common_prng a);
          vals = bin_entry_values hl bins seed k xs; cvals = cuckoo_values hl bins seed k ys
      in \<lparr>t_vals = vals, t_fids = bin_entry_function_ids hl bins seed k xs, t_cvals = cvals,
          t_cids = cuckoo_ids hl bins seed k ys, t_cfids = cuckoo_function_ids hl bins seed k ys,
          t_cocc = cuckoo_occupancy hl bins seed k ys,
          t_csrc = cuckoo_source_values hl bins seed k ys,
          t_hocc = cuckoo_occupancy hl hint_bins hint_seed h (concat vals),
          t_hsrc = cuckoo_source_values hl hint_bins hint_seed h (concat vals),
          t_hfids = cuckoo_function_ids hl hint_bins hint_seed h (concat vals),
          t_addresses = element_addresses hl hint_bins hint_seed h cvals\<rparr>)"

text \<open>Neither cuckoo table needs a stash.\<close>

definition circuit_no_stash ::
  "hash_lib \<Rightarrow> 'r prng_lib \<Rightarrow> 'r circuit_psi \<Rightarrow> nat \<Rightarrow> nat \<Rightarrow> item list \<Rightarrow> item list \<Rightarrow> bool" where
  "circuit_no_stash hl pl a bins hint_bins xs ys \<longleftrightarrow>
     cuckoo_stash_size hl bins (seed_at pl 0 (p_common_prng a)) (p_num_of_fun a) ys = 0 \<and>
     cuckoo_stash_size hl hint_bins (seed_at pl 1 (p_common_prng a)) (p_num_of_fun_hint a)
       (concat (bin_entry_values hl bins (seed_at pl 0 (p_common_prng a)) (p_num_of_fun a) xs)) = 0"

text \<open>The sizes of a run stay within the vectors and the \<open>int\<close> indices of the code.\<close>

definition circuit_sizes_ok :: "nat \<Rightarrow> nat \<Rightarrow> nat \<Rightarrow> nat \<Rightarrow> nat \<Rightarrow> nat \<Rightarrow> nat \<Rightarrow> nat \<Rightarrow> bool" where
  "circuit_sizes_ok bins hint_bins k h n m sf rf \<longleftrightarrow>
     bins \<le> 2 ^ 31 \<and> k * n \<le> 2 ^ 31 \<and> hint_bins \<le> max_u64s \<and> bins * h \<le> max_u64s \<and>
     sf + rf + 1 \<le> max_vectors \<and> n < 2 ^ 64 \<and> m < 2 ^ 64"

lemma circuit_sizesD:
  assumes "circuit_sizes_ok bins hint_bins k h n m sf rf"
  shows "bins \<le> max_vectors" "bins \<le> max_u64s" "bins * h < 2 ^ 64" "sf \<le> max_vectors"
    "sf < 2 ^ 64" "rf < 2 ^ 64" "size_mul bins h = bins * h"
  using assms by (auto simp: circuit_sizes_ok_def max_vectors_def max_u64s_def size_mul_def)

section \<open>Sizes\<close>

lemma circuit_sizes_joint:
  assumes "n < 2 ^ 64" and "m < 2 ^ 64" and "sf < 2 ^ 64" and "rf < 2 ^ 64"
  shows "joint ideal (circuit_exchange_sizes True Net n sf) (circuit_exchange_sizes False Net m rf)
     ((n, sf), (m, rf)) ((n, sf), (m, rf))"
proof -
  note w = size_codec.enc_width [OF assms(1)] size_codec.enc_width [OF assms(2)]
    size_codec.enc_width [OF assms(3)] size_codec.enc_width [OF assms(4)]
  note d = size_codec.dec_enc [OF assms(1)] size_codec.dec_enc [OF assms(2)]
    size_codec.dec_enc [OF assms(3)] size_codec.dec_enc [OF assms(4)]
  show ?thesis
    unfolding joint_def circuit_exchange_sizes_def
    by (simp, rule reaches_send_b, rule reaches_send_b, simp, rule reaches_recv_a, rule w(2),
        rule reaches_recv_a_all, rule w(4), rule reaches_send_a, rule reaches_send_a, simp,
        rule reaches_recv_b, rule w(1), rule reaches_recv_b_all, rule w(3)) (simp add: d)
qed

section \<open>The OPRF\<close>

lemma circuit_oprf_joint:
  assumes pair: "circuit_paired a b" and oprf: "circuit_oprf_ok ideal F a b"
    and T: "T = run_tables hl pl a bins hint_bins xs ys"
    and len: "length (t_vals T) = bins" "length (t_cvals T) = bins" and "bins \<le> max_vectors"
    and stash: "cuckoo_stash_size hl bins (seed_at pl 0 (p_common_prng a)) (p_num_of_fun a) ys = 0"
  shows "joint ideal (circuit_sender_oprf hl pl a Net bins xs) (circuit_receiver_oprf hl pl b Net bins ys)
    (t_vals T, sender_masks F bins (t_vals T), a\<lparr>p_common_prng := advanced pl 1 (p_common_prng a)\<rparr>)
    (seed_at pl 0 (p_common_prng a), receiver_masks F (t_cvals T),
     b\<lparr>p_common_prng := advanced pl 1 (p_common_prng a)\<rparr>)"
proof -
  let ?g = "p_common_prng a"
  have eq: "p_common_prng b = ?g" "p_num_of_fun b = p_num_of_fun a"
    using pair by (simp_all add: circuit_paired_def)
  have vals: "bin_entry_values hl bins (seed_at pl 0 ?g) (p_num_of_fun a) xs = t_vals T"
    "cuckoo_values hl bins (seed_at pl 0 ?g) (p_num_of_fun a) ys = t_cvals T"
    by (simp_all add: T run_tables_def Let_def)
  have ot: "ideal (Nco_Ot_Send (p_choices a) (p_base_recv a) bins)
      (Nco_Ot_Receive (p_base_send b) (map block_of (t_cvals T))) =
    Some (Nco_Ot_Encoder F, Nco_Ot_Masks (receiver_masks F (t_cvals T)))"
    using oprf [unfolded circuit_oprf_ok_def, rule_format, of "map block_of (t_cvals T)"] len
    by (simp add: receiver_masks_def cong: map_cong)
  show ?thesis
    unfolding circuit_sender_oprf_def circuit_receiver_oprf_def draw_seed eq Let_def prod.case vals stash
    by (rule joint_bindp [OF joint_recv_send], simp add: size_codec.enc_width)
       (simp add: size_codec.dec_enc check_stash_def vec_size_ok assms(6) table_blocks_result len,
        rule joint_call, rule ot, simp add: encode_masks_sender len joint_Ret)
qed

section \<open>The membership hint\<close>

lemma u64s_of_bytes: "length ws = n \<Longrightarrow> u64s_of n (concat (map u64_bytes ws)) = ws"
proof (intro nth_equalityI)
  fix i assume n: "length ws = n" and i: "i < length (u64s_of n (concat (map u64_bytes ws)))"
  then have "i < length ws" by (simp add: u64s_of_def)
  then show "u64s_of n (concat (map u64_bytes ws)) ! i = ws ! i"
    using nth_run [of "map u64_bytes ws" 8 i] n
    by (simp add: u64s_of_def u64_codec.enc_width u64_codec.dec_enc)
qed (simp add: u64s_of_def)

lemma length_u64s_bytes [simp]: "length (concat (map u64_bytes ws)) = length ws * 8"
  by (induction ws) (simp_all add: u64_codec.enc_width)

text \<open>A garbled table on its way to the receiver.\<close>

lemma garbled_joint:
  assumes "length garbled = n" and "n \<le> max_u64s"
    and "joint ideal p (q garbled) x y"
  shows "joint ideal (bindp (send_data Net (concat (map u64_bytes garbled))) (\<lambda>_. p))
    (bindp (recv_garbled Net n) q) x y"
  unfolding recv_garbled_def bindp_assoc
  by (simp only: vec_size_ok(1) [OF assms(2)] lift_res_simps bindp.simps,
      rule joint_bindp [OF joint_send_recv], simp add: assms(1))
     (simp add: u64s_of_bytes assms)

lemma table_rows_small:
  assumes "simple_table_ok loc bins k xs vals fids" and "k * length xs \<le> 2 ^ 31"
  shows "\<forall>row\<in>set vals. length row \<le> 2 ^ 31"
proof
  fix row assume "row \<in> set vals"
  then have "length row \<le> length (concat vals)"
    by (simp add: length_concat member_le_sum_list)
  also have "\<dots> = length (concat (map (sender_names k) xs))"
    using table_values_mset [OF assms(1)] by (rule mset_eq_length)
  also have "\<dots> = k * length xs"
    using length_runs [of "map (sender_names k) xs" k] by (simp add: sender_names_def)
  finally show "length row \<le> 2 ^ 31" using assms(2) by simp
qed

lemma table_values_distinct:
  assumes "circuit_tables_ok loc hloc k h bins hint_bins xs ys T" and "circuit_names_ok k bins xs ys T"
  shows "distinct (concat (t_vals T))"
proof -
  have "mset (concat (t_vals T)) = mset (concat (map (sender_names k) xs))"
    using assms(1) unfolding circuit_tables_ok_def by (elim conjE) (rule table_values_mset)
  then show ?thesis using assms(2) mset_eq_imp_distinct_iff by (fastforce simp: circuit_names_ok_def)
qed

text \<open>
  What the sender draws and sends for the membership hint: the contents of the bins and the
  garbled table.
\<close>

definition sent_hint ::
  "'r prng_lib \<Rightarrow> (nat \<Rightarrow> block \<Rightarrow> block) \<Rightarrow> nat \<Rightarrow> nat \<Rightarrow> 'r \<Rightarrow> circuit_tables \<Rightarrow>
     (64 word list \<times> 64 word list \<times> 'r) res" where
  "sent_hint pl F bins hint_bins g T =
     (let (contents, g') = draw_u64s pl bins g in
      res_bind (locate_items bins (t_vals T)) (\<lambda>(tloc, _).
      res_bind (garble pl hint_bins (t_hocc T) (t_hsrc T) (t_hfids T) tloc
                  (sender_masks F bins (t_vals T)) 0 (\<lambda>_ bin. vec_at contents bin) g')
        (\<lambda>(garbled, g''). Inr (contents, garbled, g''))))"

definition located :: "nat \<Rightarrow> circuit_tables \<Rightarrow> (item \<Rightarrow> (nat \<times> nat) option) \<Rightarrow> bool" where
  "located bins T tloc \<longleftrightarrow>
     (\<forall>i<bins. \<forall>j<length (t_vals T ! i). tloc (t_vals T ! i ! j) = Some (i, j))"

definition programmed ::
  "'r prng_lib \<Rightarrow> (nat \<Rightarrow> block \<Rightarrow> block) \<Rightarrow> nat \<Rightarrow> nat \<Rightarrow> circuit_tables \<Rightarrow> block \<Rightarrow> 64 word list \<Rightarrow>
     (nat \<Rightarrow> item \<Rightarrow> 64 word) \<Rightarrow> bool" where
  "programmed pl F h bins T tweak garbled c \<longleftrightarrow>
     (\<forall>i<bins. \<forall>v\<in>set (t_vals T ! i). \<forall>b. b = slot (t_hocc T) (t_hsrc T) v \<longrightarrow>
        garbled ! b XOR pads pl (F i (block_of v)) tweak h ! (t_hfids T ! b) = c i v)"

lemma programmed_result:
  assumes ok: "circuit_tables_ok loc hloc k h bins hint_bins xs ys T"
    and dist: "distinct (concat (t_vals T))" and find: "located bins T tloc"
    and content: "\<And>i v. i < bins \<Longrightarrow> v \<in> set (t_vals T ! i) \<Longrightarrow> content v i = Inr (c i v)"
  shows "\<exists>garbled g'. garble pl hint_bins (t_hocc T) (t_hsrc T) (t_hfids T) tloc
      (sender_masks F bins (t_vals T)) tweak content g = Inr (garbled, g') \<and>
    length garbled = hint_bins \<and> programmed pl F h bins T tweak garbled c"
proof -
  let ?c = "\<lambda>v. c (fst (the (tloc v))) v"
  have loc: "c i v = ?c v" if "i < bins" "v \<in> set (t_vals T ! i)" for i v
    using that find by (auto simp: located_def in_set_conv_nth)
  have content': "content v i = Inr (?c v)" if "i < bins" "v \<in> set (t_vals T ! i)" for i v
    using content [OF that] loc [OF that] by simp
  from program_result [where content = content and c = ?c and pl = pl and F = F and tweak = tweak and g = g,
      OF ok dist find [unfolded located_def] content'] obtain garbled g' where
    "garble pl hint_bins (t_hocc T) (t_hsrc T) (t_hfids T) tloc
      (sender_masks F bins (t_vals T)) tweak content g = Inr (garbled, g')"
    "length garbled = hint_bins" "\<forall>i<bins. \<forall>v\<in>set (t_vals T ! i).
      \<forall>b. b = slot (t_hocc T) (t_hsrc T) v \<longrightarrow>
        garbled ! b XOR pads pl (F i (block_of v)) tweak h ! (t_hfids T ! b) = ?c v"
    by blast
  with loc show ?thesis unfolding programmed_def by auto
qed

lemma circuit_hint_joint:
  assumes pair: "circuit_paired a b" and T: "T = run_tables hl pl a bins hint_bins xs ys"
    and ok: "circuit_tables_ok loc hloc (p_num_of_fun a) h bins hint_bins xs ys T"
    and names: "circuit_names_ok (p_num_of_fun a) bins xs ys T" and h: "h = p_num_of_fun_hint a"
    and sizes: "circuit_sizes_ok bins hint_bins (p_num_of_fun a) h (length xs) m sf rf"
    and stash: "circuit_no_stash hl pl a bins hint_bins xs ys"
  shows "\<exists>tloc contents garbled g. located bins T tloc \<and>
    sent_hint pl F bins hint_bins (p_prng a) T = Inr (contents, garbled, g) \<and>
    length contents = bins \<and> length garbled = hint_bins \<and>
    programmed pl F h bins T 0 garbled (\<lambda>i v. contents ! i) \<and>
    joint ideal
      (circuit_sender_hint hl pl (a\<lparr>p_common_prng := advanced pl 1 (p_common_prng a)\<rparr>) Net bins
         hint_bins (t_vals T) (sender_masks F bins (t_vals T)))
      (circuit_receiver_hint hl pl (b\<lparr>p_common_prng := advanced pl 1 (p_common_prng a)\<rparr>) Net bins
         hint_bins (t_cvals T) (receiver_masks F (t_cvals T)))
      (\<lparr>h_contents = contents, h_table_loc = tloc, h_occupancy = t_hocc T,
        h_source_values = t_hsrc T, h_function_ids = t_hfids T\<rparr>,
       a\<lparr>p_prng := g, p_common_prng := advanced pl 2 (p_common_prng a)\<rparr>)
      (map (\<lambda>t. reading pl F h hloc (t_cvals T) 0 garbled (t div h) (t mod h)) [0..<bins * h],
       t_addresses T, b\<lparr>p_common_prng := advanced pl 2 (p_common_prng a)\<rparr>)"
proof -
  note sz = circuit_sizesD [OF sizes]
  have simple: "simple_table_ok loc bins (p_num_of_fun a) xs (t_vals T) (t_fids T)"
    using ok by (simp add: circuit_tables_ok_def)
  then have len: "length (t_vals T) = bins" by (simp add: simple_table_ok_def)
  note dist = table_values_distinct [OF ok names]
  have "bins \<le> 2 ^ 31" "p_num_of_fun a * length xs \<le> 2 ^ 31" "hint_bins \<le> max_u64s" "bins * h \<le> max_u64s"
    using sizes by (simp_all add: circuit_sizes_ok_def)
  note small = this
  from locate_items_result [OF len small(1) table_rows_small [OF simple small(2)] dist] obtain tloc where
    tloc: "locate_items bins (t_vals T) = Inr (tloc, concat (t_vals T))" "located bins T tloc"
    by (auto simp: located_def)
  obtain contents g1 where draw: "draw_u64s pl bins (p_prng a) = (contents, g1)" by (metis surj_pair)
  then have lc: "length contents = bins" using length_draw_u64s [of pl bins "p_prng a"] by simp
  have "vec_at contents i = Inr (contents ! i)" if "i < bins" for i using that lc by simp
  from programmed_result [OF ok dist tloc(2), of "\<lambda>_. vec_at contents" "\<lambda>i v. contents ! i" pl F 0 g1, OF this]
  obtain garbled g where gb: "garble pl hint_bins (t_hocc T) (t_hsrc T) (t_hfids T) tloc
      (sender_masks F bins (t_vals T)) 0 (\<lambda>_. vec_at contents) g1 = Inr (garbled, g)"
    "length garbled = hint_bins" "programmed pl F h bins T 0 garbled (\<lambda>i v. contents ! i)" by blast
  let ?g = "p_common_prng a"
  have eq: "p_num_of_fun_hint b = h" using pair h by (simp add: circuit_paired_def)
  have tabs: "cuckoo_occupancy hl hint_bins (seed_at pl 1 ?g) h (concat (t_vals T)) = t_hocc T"
    "cuckoo_source_values hl hint_bins (seed_at pl 1 ?g) h (concat (t_vals T)) = t_hsrc T"
    "cuckoo_function_ids hl hint_bins (seed_at pl 1 ?g) h (concat (t_vals T)) = t_hfids T"
    "element_addresses hl hint_bins (seed_at pl 1 ?g) h (t_cvals T) = t_addresses T"
    "cuckoo_stash_size hl hint_bins (seed_at pl 1 ?g) h (concat (t_vals T)) = 0"
    using stash by (simp_all add: T run_tables_def Let_def h circuit_no_stash_def del: One_nat_def)
  have "joint ideal
      (circuit_sender_hint hl pl (a\<lparr>p_common_prng := advanced pl 1 ?g\<rparr>) Net bins
         hint_bins (t_vals T) (sender_masks F bins (t_vals T)))
      (circuit_receiver_hint hl pl (b\<lparr>p_common_prng := advanced pl 1 ?g\<rparr>) Net bins
         hint_bins (t_cvals T) (receiver_masks F (t_cvals T)))
      (\<lparr>h_contents = contents, h_table_loc = tloc, h_occupancy = t_hocc T,
        h_source_values = t_hsrc T, h_function_ids = t_hfids T\<rparr>,
       a\<lparr>p_prng := g, p_common_prng := advanced pl 2 ?g\<rparr>)
      (map (\<lambda>t. reading pl F h hloc (t_cvals T) 0 garbled (t div h) (t mod h)) [0..<bins * h],
       t_addresses T, b\<lparr>p_common_prng := advanced pl 2 ?g\<rparr>)"
    unfolding circuit_sender_hint_def circuit_receiver_hint_def
    by (simp add: draw draw_seed(2) tloc(1) h [symmetric] eq tabs Let_def
          check_stash_def vec_size_ok small(3) gb(1) sz(7) small(4) del: advanced.simps net_ops_simps One_nat_def,
        rule joint_bindp [OF joint_send_recv], simp add: size_codec.enc_width)
       (simp add: size_codec.dec_enc del: net_ops_simps, rule garbled_joint [OF gb(2) small(3)],
        simp add: reading_result [OF ok gb(2) sz(3)] joint_Ret)
  moreover have "sent_hint pl F bins hint_bins (p_prng a) T = Inr (contents, garbled, g)"
    by (simp add: sent_hint_def draw tloc(1) gb(1))
  ultimately show ?thesis using tloc(2) lc gb(2,3) by blast
qed

section \<open>The feature hints\<close>

text \<open>
  Column \<open>k\<close>: the sender's share is a content per bin, and the receiver reads, for a value of
  the sender in its bin, the feature minus that content.
\<close>

definition column_shared ::
  "'r prng_lib \<Rightarrow> (nat \<Rightarrow> block \<Rightarrow> block) \<Rightarrow> nat \<Rightarrow> (nat \<Rightarrow> item \<Rightarrow> nat) \<Rightarrow> nat \<Rightarrow> circuit_tables \<Rightarrow>
     (item \<Rightarrow> 64 word list option) \<Rightarrow> nat \<Rightarrow> matrix \<Rightarrow> 64 word list \<Rightarrow> bool" where
  "column_shared pl F h hloc bins T features k share content \<longleftrightarrow>
     (\<exists>cs garbled. length cs = bins \<and> share = mat bins h (\<lambda>i j. cs ! i) \<and>
        content = map (\<lambda>t. reading pl F h hloc (t_cvals T) (fid_block k) garbled (t div h) (t mod h))
          [0..<bins * h] \<and>
        programmed pl F h bins T (fid_block k) garbled (\<lambda>i v. the (features v) ! k - cs ! i))"

definition columns_shared ::
  "'r prng_lib \<Rightarrow> (nat \<Rightarrow> block \<Rightarrow> block) \<Rightarrow> nat \<Rightarrow> (nat \<Rightarrow> item \<Rightarrow> nat) \<Rightarrow> nat \<Rightarrow> circuit_tables \<Rightarrow>
     (item \<Rightarrow> 64 word list option) \<Rightarrow> nat \<Rightarrow> matrix list \<Rightarrow> 64 word list list \<Rightarrow> bool" where
  "columns_shared pl F h hloc bins T features n shares contents \<longleftrightarrow>
     length shares = n \<and> length contents = n \<and>
     (\<forall>k < n. column_shared pl F h hloc bins T features k (shares ! k) (contents ! k))"

lemma columns_shared_append:
  "columns_shared pl F h hloc bins T features n shares contents \<Longrightarrow>
     column_shared pl F h hloc bins T features n share content \<Longrightarrow>
     columns_shared pl F h hloc bins T features (Suc n) (shares @ [share]) (contents @ [content])"
  by (auto simp: columns_shared_def nth_append less_Suc_eq)

lemma circuit_feature_joint:
  assumes ok: "circuit_tables_ok loc hloc k h bins hint_bins xs ys T"
    and dist: "distinct (concat (t_vals T))" and find: "located bins T tloc"
    and small: "hint_bins \<le> max_u64s" "bins * h < 2 ^ 64"
    and rows: "\<forall>i<bins. \<forall>v\<in>set (t_vals T ! i). \<exists>row. features v = Some row \<and> length row = sf"
    and tables: "h_table_loc tables = tloc" "h_occupancy tables = t_hocc T"
      "h_source_values tables = t_hsrc T" "h_function_ids tables = t_hfids T"
    and fid: "fid < sf"
  shows "\<exists>share g' content. joint ideal
      (circuit_sender_feature pl Net bins hint_bins h tables (sender_masks F bins (t_vals T)) features
         fid (shares, g))
      (circuit_receiver_feature pl Net bins hint_bins h (t_addresses T) (receiver_masks F (t_cvals T))
         fid contents)
      (shares @ [share], g') (contents @ [content]) \<and>
    column_shared pl F h hloc bins T features fid share content"
proof -
  obtain cs g1 where draw: "draw_u64s pl bins g = (cs, g1)" by (metis surj_pair)
  then have lc: "length cs = bins" using length_draw_u64s [of pl bins g] by simp
  let ?c = "\<lambda>i v. the (features v) ! fid - cs ! i"
  let ?content = "\<lambda>element bin. res_bind (vec_at (lookup [] features element) fid) (\<lambda>v.
      res_bind (vec_at cs bin) (\<lambda>c. Inr (v - c)))"
  have content: "?content v i = Inr (?c i v)" if iv: "i < bins" "v \<in> set (t_vals T ! i)" for i v
  proof -
    from rows iv obtain row where "features v = Some row" "length row = sf" by blast
    with fid iv lc show ?thesis by (simp add: lookup_def)
  qed
  from programmed_result [where content = ?content and c = ?c and pl = pl and F = F and g = g1
      and tweak = "fid_block fid", OF ok dist find content]
  obtain garbled g' where gb: "garble pl hint_bins (t_hocc T) (t_hsrc T) (t_hfids T) tloc
      (sender_masks F bins (t_vals T)) (fid_block fid) ?content g1 = Inr (garbled, g')"
    "length garbled = hint_bins" "programmed pl F h bins T (fid_block fid) garbled ?c" by blast
  let ?share = "mat bins h (\<lambda>i j. cs ! i)"
  let ?read = "map (\<lambda>t. reading pl F h hloc (t_cvals T) (fid_block fid) garbled (t div h) (t mod h))
      [0..<bins * h]"
  have "joint ideal
      (circuit_sender_feature pl Net bins hint_bins h tables (sender_masks F bins (t_vals T)) features
         fid (shares, g))
      (circuit_receiver_feature pl Net bins hint_bins h (t_addresses T) (receiver_masks F (t_cvals T))
         fid contents)
      (shares @ [?share], g') (contents @ [?read])"
    unfolding circuit_sender_feature_def circuit_receiver_feature_def
    by (simp add: draw tables vec_size_ok small(1) gb(1) constant_mat(2) [OF lc] del: net_ops_simps,
        rule garbled_joint [OF gb(2) small(1)])
       (simp add: reading_result [OF ok gb(2) small(2)] joint_Ret)
  moreover have "column_shared pl F h hloc bins T features fid ?share ?read"
    using lc gb(3) unfolding column_shared_def by blast
  ultimately show ?thesis by blast
qed

lemma table_values_named:
  assumes ok: "circuit_tables_ok loc hloc k h bins hint_bins xs ys T" and "i < bins"
    and "v \<in> set (t_vals T ! i)"
  shows "\<exists>p<length xs. v \<in> set (sender_names k (xs ! p))"
proof -
  have "simple_table_ok loc bins k xs (t_vals T) (t_fids T)"
    using ok by (simp add: circuit_tables_ok_def)
  from table_value_iff [OF this assms(2)] assms(3) obtain x j where
    "x \<in> set xs" "j < k" "v = keys_xor_fun j x" by blast
  then show ?thesis by (auto simp: in_set_conv_nth sender_names_def)
qed

lemma circuit_features_joint:
  assumes ok: "circuit_tables_ok loc hloc k h bins hint_bins xs ys T"
    and names: "circuit_names_ok k bins xs ys T" and find: "located bins T tloc"
    and sizes: "circuit_sizes_ok bins hint_bins k h (length xs) (length ys) sf rf"
    and feat: "features_ok (length xs) xf" "length xf = sf" "features_ok (length ys) yf" "length yf = rf"
    and tables: "h_table_loc tables = tloc" "h_occupancy tables = t_hocc T"
      "h_source_values tables = t_hsrc T" "h_function_ids tables = t_hfids T"
    and obj: "p_num_of_fun a = k" "p_num_of_fun_hint a = h" "p_num_of_fun_hint b = h"
  shows "\<exists>fa shares g fb contents. joint ideal
      (circuit_sender_features pl a Net bins hint_bins xs xf sf tables (sender_masks F bins (t_vals T)))
      (circuit_receiver_features pl b Net bins hint_bins ys yf sf rf (t_addresses T)
         (receiver_masks F (t_cvals T)))
      (shares, a\<lparr>p_prng := g\<rparr>) (fb, contents) \<and>
    columns_shared pl F h hloc bins T fa sf shares contents \<and>
    (\<forall>p<length xs. \<forall>name\<in>set (sender_names k (xs ! p)).
       fa name = Some (map (\<lambda>column. column ! p) xf)) \<and>
    (sf \<noteq> 0 \<or> rf \<noteq> 0 \<longrightarrow> (\<forall>p<length ys. fb (ys ! p) = Some (map (\<lambda>column. column ! p) yf)))"
proof -
  note sz = circuit_sizesD [OF sizes]
  have hb: "hint_bins \<le> max_u64s" using sizes by (simp add: circuit_sizes_ok_def)
  have "distinct (concat (map (sender_names k) xs))" "distinct (concat (map (\<lambda>y. [y]) ys))"
    using names by (simp_all add: circuit_names_ok_def)
  note dist = this
  from feature_table_result [OF dist(1) feat(1)] feat(2) obtain fa where
    fa: "feature_table (sender_names k) xs xf sf (length xs) = Inr fa"
      "\<forall>p<length xs. \<forall>name\<in>set (sender_names k (xs ! p)). fa name = Some (map (\<lambda>column. column ! p) xf)"
    by blast
  from feature_table_result [OF dist(2) feat(3)] feat(4) obtain fb where
    fb: "feature_table (\<lambda>y. [y]) ys yf rf (length ys) = Inr fb"
      "\<forall>p<length ys. fb (ys ! p) = Some (map (\<lambda>column. column ! p) yf)"
    by auto
  have rows: "\<forall>i<bins. \<forall>v\<in>set (t_vals T ! i). \<exists>row. fa v = Some row \<and> length row = sf"
    using table_values_named [OF ok] fa(2) feat(2) by fastforce
  let ?f = "circuit_sender_feature pl Net bins hint_bins h tables (sender_masks F bins (t_vals T)) fa"
  let ?r = "circuit_receiver_feature pl Net bins hint_bins h (t_addresses T) (receiver_masks F (t_cvals T))"
  let ?P = "\<lambda>n s t. columns_shared pl F h hloc bins T fa n (fst s) t"
  have "\<exists>s t. joint ideal (fold_proc ?f [0..<sf] ([], p_prng a)) (fold_proc ?r [0..<sf] []) s t \<and> ?P sf s t"
  proof (rule joint_loop_invariant [where P = ?P])
    fix i t and s :: "matrix list \<times> 'a"
    assume i: "i < sf" and inv: "?P i s t"
    from circuit_feature_joint [OF ok table_values_distinct [OF ok names] find hb sz(3) rows tables i,
        of ideal pl F "fst s" "snd s" t] columns_shared_append [OF inv]
    show "\<exists>s' t'. joint ideal (?f i s) (?r i t) s' t' \<and> ?P (Suc i) s' t'"
      by (metis fst_conv prod.collapse)
  qed (simp add: columns_shared_def)
  then obtain s t where st: "joint ideal (fold_proc ?f [0..<sf] ([], p_prng a)) (fold_proc ?r [0..<sf] []) s t"
    "?P sf s t" by blast
  obtain shares g where s: "s = (shares, g)" by (cases s)
  note loop = st(1) [unfolded s]
  consider "sf \<noteq> 0" | "sf = 0" "rf \<noteq> 0" | "sf = 0" "rf = 0" by blast
  then show ?thesis
  proof cases
    case 1
    have "joint ideal
      (circuit_sender_features pl a Net bins hint_bins xs xf sf tables (sender_masks F bins (t_vals T)))
      (circuit_receiver_features pl b Net bins hint_bins ys yf sf rf (t_addresses T)
         (receiver_masks F (t_cvals T)))
      (shares, a\<lparr>p_prng := g\<rparr>) (fb, t)"
      unfolding circuit_sender_features_def circuit_receiver_features_def
      using 1 by (simp add: obj fa(1) fb(1) vec_size_ok sz(4), intro joint_bindp [OF loop]) (simp add: joint_Ret)
    then show ?thesis using st(2) s fa(2) fb(2) by (intro exI conjI) auto
  next
    case 2
    have "joint ideal
      (circuit_sender_features pl a Net bins hint_bins xs xf sf tables (sender_masks F bins (t_vals T)))
      (circuit_receiver_features pl b Net bins hint_bins ys yf sf rf (t_addresses T)
         (receiver_masks F (t_cvals T)))
      ([], a\<lparr>p_prng := p_prng a\<rparr>) (fb, [])"
      unfolding circuit_sender_features_def circuit_receiver_features_def
      using 2 fb(1) by (simp add: vec_size_ok joint_Ret)
    moreover have "columns_shared pl F h hloc bins T fa sf [] []" by (simp add: columns_shared_def 2)
    ultimately show ?thesis using fa(2) fb(2) by blast
  next
    case 3
    have "joint ideal
      (circuit_sender_features pl a Net bins hint_bins xs xf sf tables (sender_masks F bins (t_vals T)))
      (circuit_receiver_features pl b Net bins hint_bins ys yf sf rf (t_addresses T)
         (receiver_masks F (t_cvals T)))
      ([], a\<lparr>p_prng := p_prng a\<rparr>) (Map.empty, [])"
      unfolding circuit_sender_features_def circuit_receiver_features_def
      using 3 by (simp add: vec_size_ok joint_Ret)
    moreover have "columns_shared pl F h hloc bins T fa sf [] []" by (simp add: columns_shared_def 3)
    ultimately show ?thesis using fa(2) 3 by blast
  qed
qed

end
