(* ===== verification/Circuit_Properties.thy ===== *)
theory Circuit_Properties
  imports Circuit_Run Kkrt_Properties
begin

text \<open>
  The properties of the circuit protocol: what the shares of the two parties join to, on every
  bin of the receiver's table, the failures of the two hash tables, and initialisation.
\<close>

section \<open>Members and bins\<close>

text \<open>The key in a bin of the receiver's table, and the value a column gives a key.\<close>

definition bin_key :: "circuit_tables \<Rightarrow> string list \<Rightarrow> nat \<Rightarrow> string option" where
  "bin_key T ys i = (if t_cocc T ! i then Some (ys ! (t_cids T ! i)) else None)"

definition value_of :: "string list \<Rightarrow> 64 word list \<Rightarrow> string \<Rightarrow> 64 word" where
  "value_of keys column key = (case map_of (zip keys column) key of None \<Rightarrow> 0 | Some v \<Rightarrow> v)"

text \<open>
  What row \<open>r\<close> of the joined shares says of a bin: membership, then the sender's features of
  its key, then the receiver's.
\<close>

definition joined_spec ::
  "string list \<Rightarrow> 64 word list list \<Rightarrow> string list \<Rightarrow> 64 word list list \<Rightarrow> string option \<Rightarrow> nat \<Rightarrow>
     64 word" where
  "joined_spec xs xf ys yf key r =
     (case key of
        None \<Rightarrow> 0
      | Some y \<Rightarrow>
          if r = 0 then (if y \<in> set xs then 1 else 0)
          else if r \<le> length xf then value_of xs (xf ! (r - 1)) y
          else value_of ys (yf ! (r - length xf - 1)) y)"

lemma value_of_nth:
  "distinct keys \<Longrightarrow> length column = length keys \<Longrightarrow> p < length keys \<Longrightarrow>
     value_of keys column (keys ! p) = column ! p"
  by (simp add: value_of_def map_of_zip_nth)

lemma value_of_other: "key \<notin> set keys \<Longrightarrow> value_of keys column key = 0"
  by (auto simp: value_of_def split: option.splits dest!: map_of_SomeD set_zip_leftD)

abbreviation digest :: "hash_lib \<Rightarrow> string \<Rightarrow> item" where
  "digest hl key \<equiv> sha_256 hl (string_bytes key) kItemBytesLen"

definition member_bin :: "circuit_tables \<Rightarrow> nat \<Rightarrow> bool" where
  "member_bin T i \<longleftrightarrow> t_cvals T ! i \<in> set (t_vals T ! i)"

lemma occupied_bin:
  assumes ok: "circuit_tables_ok loc hloc k h bins hint_bins xs (hash_keys hl ys) T"
    and i: "i < bins" "t_cocc T ! i"
  shows "t_cids T ! i < length ys" "t_csrc T ! i = digest hl (ys ! (t_cids T ! i))"
    "t_cfids T ! i < k" "t_cvals T ! i = keys_xor_fun (t_cfids T ! i) (digest hl (ys ! (t_cids T ! i)))"
    "loc (t_cfids T ! i) (digest hl (ys ! (t_cids T ! i))) = i"
proof -
  have f: "t_cfids T ! i < k" and s: "t_csrc T ! i = hash_keys hl ys ! (t_cids T ! i)"
    using ok i unfolding circuit_tables_ok_def list_all_iff by auto
  have "cuckoo_table_ok loc bins k (hash_keys hl ys) (t_cvals T) (t_cids T) (t_cfids T)"
    using ok unfolding circuit_tables_ok_def by (elim conjE)
  then have "t_cids T ! i < length ys \<and>
      t_cvals T ! i = keys_xor_fun (t_cfids T ! i) (hash_keys hl ys ! (t_cids T ! i)) \<and>
      loc (t_cfids T ! i) (hash_keys hl ys ! (t_cids T ! i)) = i"
    using f i(1) unfolding cuckoo_table_ok_def list_all_iff by auto
  moreover from this have "hash_keys hl ys ! (t_cids T ! i) = digest hl (ys ! (t_cids T ! i))"
    by (simp add: hash_keys_def)
  ultimately show "t_cids T ! i < length ys" "t_csrc T ! i = digest hl (ys ! (t_cids T ! i))"
    "t_cfids T ! i < k" "t_cvals T ! i = keys_xor_fun (t_cfids T ! i) (digest hl (ys ! (t_cids T ! i)))"
    "loc (t_cfids T ! i) (digest hl (ys ! (t_cids T ! i))) = i"
    using f s by simp_all
qed

lemma circuit_namesD:
  assumes "circuit_names_ok k bins xs ys T" and "y \<in> set ys" and "x \<in> set xs"
    and "j < k" and "j' < k" and "keys_xor_fun j y = keys_xor_fun j' x"
  shows "y = x"
proof -
  have "\<forall>y\<in>set ys. \<forall>x\<in>set xs. \<forall>j\<in>{0..<k}. \<forall>j'\<in>{0..<k}. keys_xor_fun j y = keys_xor_fun j' x \<longrightarrow> y = x"
    using assms(1) unfolding circuit_names_ok_def list_all_iff set_upt by (elim conjE)
  from bspec [OF bspec [OF bspec [OF bspec [OF this assms(2)] assms(3)], of j], of j'] assms(4-6)
  show ?thesis by simp
qed

text \<open>A bin is a member bin exactly if its key is the sender's too.\<close>

lemma member_bin_iff:
  assumes ok: "circuit_tables_ok loc hloc k h bins hint_bins (hash_keys hl xs) (hash_keys hl ys) T"
    and names: "circuit_names_ok k bins (hash_keys hl xs) (hash_keys hl ys) T"
    and inj: "inj_on (digest hl) (set xs \<union> set ys)" and i: "i < bins"
  shows "member_bin T i \<longleftrightarrow> t_cocc T ! i \<and> ys ! (t_cids T ! i) \<in> set xs"
proof (cases "t_cocc T ! i")
  case False
  have "\<not> t_cfids T ! i < k"
    using ok i False unfolding circuit_tables_ok_def list_all_iff by auto
  moreover have "t_cfids T ! i < k \<or> t_cvals T ! i \<notin> set (t_vals T ! i)"
    using names i unfolding circuit_names_ok_def list_all_iff by auto
  ultimately show ?thesis using False by (simp add: member_bin_def)
next
  case True
  note o = occupied_bin [OF ok i True]
  let ?y = "ys ! (t_cids T ! i)"
  have y: "?y \<in> set ys" using o(1) by simp
  have simple: "simple_table_ok loc bins k (hash_keys hl xs) (t_vals T) (t_fids T)"
    using ok unfolding circuit_tables_ok_def by (elim conjE)
  have "member_bin T i \<longleftrightarrow> (\<exists>x\<in>set xs. \<exists>j<k. t_cvals T ! i = keys_xor_fun j (digest hl x) \<and>
      loc j (digest hl x) = i)"
    unfolding member_bin_def table_value_iff [OF simple i] by (simp add: hash_keys_def)
  also have "\<dots> \<longleftrightarrow> ?y \<in> set xs"
  proof
    assume "\<exists>x\<in>set xs. \<exists>j<k. t_cvals T ! i = keys_xor_fun j (digest hl x) \<and> loc j (digest hl x) = i"
    then obtain x j where x: "x \<in> set xs" "j < k" "t_cvals T ! i = keys_xor_fun j (digest hl x)" by blast
    have "digest hl ?y = digest hl x"
      by (rule circuit_namesD [OF names _ _ o(3) x(2)]) (use x y o(4) in \<open>simp_all add: hash_keys_def\<close>)
    then have "?y = x" using inj x(1) y by (auto dest: inj_onD)
    with x(1) show "?y \<in> set xs" by simp
  next
    assume "?y \<in> set xs"
    with o show "\<exists>x\<in>set xs. \<exists>j<k. t_cvals T ! i = keys_xor_fun j (digest hl x) \<and> loc j (digest hl x) = i"
      by blast
  qed
  finally show ?thesis using True by simp
qed

section \<open>What the shares join to\<close>

text \<open>The hash function of the hints that holds the value of a bin.\<close>

definition hint_fun :: "circuit_tables \<Rightarrow> nat \<Rightarrow> nat" where
  "hint_fun T i = t_hfids T ! slot (t_hocc T) (t_hsrc T) (t_cvals T ! i)"

lemma joined_share_spec:
  assumes hits: "\<And>j. j < h \<Longrightarrow> hit i j \<longleftrightarrow> mem \<and> j = j0" and "mem \<Longrightarrow> j0 < h"
    and mem: "mem \<longleftrightarrow> (\<exists>y. key = Some y \<and> y \<in> set xs)" and r: "r < length xf + rf + 1"
    and val: "\<And>k y. k < length xf \<Longrightarrow> key = Some y \<Longrightarrow> y \<in> set xs \<Longrightarrow> value k i j0 = value_of xs (xf ! k) y"
    and own: "\<And>k. k < rf \<Longrightarrow> own k i = (case key of None \<Rightarrow> 0 | Some y \<Rightarrow> value_of ys (yf ! k) y)"
  shows "joined_share (length xf) rf h hit value own r i = joined_spec xs xf ys yf key r"
proof -
  have bit: "xor_upto h (\<lambda>j. if hit i j then 1 else 0) = (if mem then 1 else 0)"
  proof -
    have "xor_upto h (\<lambda>j. if hit i j then 1 else 0) = xor_upto h (\<lambda>j. if j = j0 then (if mem then 1 else 0) else 0)"
      by (rule xor_upto_cong) (simp add: hits)
    then show ?thesis using assms(2) by (cases mem) (simp_all add: xor_upto_single xor_upto_none)
  qed
  have sum: "(\<Sum>j<h. if hit i j then value (r - 1) i j else 0) = (if mem then value (r - 1) i j0 else 0)"
  proof -
    have "(\<Sum>j<h. if hit i j then value (r - 1) i j else 0) =
        (\<Sum>j<h. if j = j0 then (if mem then value (r - 1) i j0 else 0) else 0)"
      by (rule sum.cong) (simp_all add: hits)
    then show ?thesis using assms(2) by (cases mem) simp_all
  qed
  consider "r = 0" | "0 < r" "r \<le> length xf" | "length xf < r" by linarith
  then show ?thesis
  proof cases
    case 1
    then show ?thesis
      using mem by (auto simp: joined_share_def joined_spec_def bit split: option.splits)
  next
    case 2
    then show ?thesis
      using mem val [of "r - 1"] value_of_other
      by (cases key) (auto simp: joined_share_def joined_spec_def sum)
  next
    case 3
    with r own [of "r - length xf - 1"] show ?thesis
      by (auto simp: joined_share_def joined_spec_def split: option.splits)
  qed
qed

text \<open>
  The masked contents of a bin agree only where the sender programmed them: the event the
  statistical parameter of the code bounds does not happen.
\<close>

definition circuit_no_false_hit ::
  "'r prng_lib \<Rightarrow> (nat \<Rightarrow> block \<Rightarrow> block) \<Rightarrow> nat \<Rightarrow> (nat \<Rightarrow> item \<Rightarrow> nat) \<Rightarrow> nat \<Rightarrow> nat \<Rightarrow> 'r \<Rightarrow>
     circuit_tables \<Rightarrow> bool" where
  "circuit_no_false_hit pl F h hloc bins hint_bins g T =
     (case sent_hint pl F bins hint_bins g T of
        Inl _ \<Rightarrow> True
      | Inr (contents, garbled, _) \<Rightarrow>
          list_all (\<lambda>i. list_all (\<lambda>j.
            share_hit contents (reading pl F h hloc (t_cvals T) 0 garbled) i j \<longrightarrow>
              member_bin T i \<and> j = hint_fun T i) [0..<h]) [0..<bins])"

lemma hint_hits:
  assumes ok: "circuit_tables_ok loc hloc k h bins hint_bins xs ys T"
    and dist: "distinct (concat (t_vals T))"
    and sent: "sent_hint pl F bins hint_bins g T = Inr (contents, garbled, g')"
    and prog: "programmed pl F h bins T 0 garbled (\<lambda>i v. contents ! i)"
    and none: "circuit_no_false_hit pl F h hloc bins hint_bins g T" and i: "i < bins" and j: "j < h"
  shows "share_hit contents (reading pl F h hloc (t_cvals T) 0 garbled) i j \<longleftrightarrow>
    member_bin T i \<and> j = hint_fun T i"
proof
  assume "share_hit contents (reading pl F h hloc (t_cvals T) 0 garbled) i j"
  with none i j show "member_bin T i \<and> j = hint_fun T i"
    unfolding circuit_no_false_hit_def sent by (simp add: list_all_iff)
next
  assume "member_bin T i \<and> j = hint_fun T i"
  with reading_programmed(2) [OF ok dist i _ _ prog [unfolded programmed_def]]
  show "share_hit contents (reading pl F h hloc (t_cvals T) 0 garbled) i j"
    by (simp add: share_hit_def member_bin_def hint_fun_def)
qed

lemma hint_fun_bound:
  assumes ok: "circuit_tables_ok loc hloc k h bins hint_bins xs ys T"
    and dist: "distinct (concat (t_vals T))" and "i < bins" and "member_bin T i"
  shows "hint_fun T i < h"
proof -
  have "hint_table_ok hloc hint_bins h (concat (t_vals T)) (t_hocc T) (t_hsrc T) (t_hfids T)"
    and len: "length (t_vals T) = bins"
    using ok by (simp_all add: circuit_tables_ok_def simple_table_ok_def)
  moreover have "t_cvals T ! i \<in> set (concat (t_vals T))"
    using assms(3,4) len by (auto simp: member_bin_def intro!: bexI [of _ "t_vals T ! i"])
  ultimately show ?thesis unfolding hint_fun_def by (intro slot_exists(4) [OF _ dist])
qed

text \<open>A shared column joins, in a member bin, to the feature of its value.\<close>

lemma columns_split:
  assumes "columns_shared pl F h hloc bins T features n shares contents"
    and ok: "circuit_tables_ok loc hloc k h bins hint_bins xs ys T"
    and dist: "distinct (concat (t_vals T))"
  shows "\<exists>va vb. shares = map (\<lambda>k. mat bins h (va k)) [0..<n] \<and>
    contents = map (\<lambda>k. map (\<lambda>t. vb k (t div h) (t mod h)) [0..<bins * h]) [0..<n] \<and>
    (\<forall>k < n. \<forall>i<bins. member_bin T i \<longrightarrow>
       va k i (hint_fun T i) + vb k i (hint_fun T i) = the (features (t_cvals T ! i)) ! k)"
proof -
  let ?Q = "\<lambda>k va vb. shares ! k = mat bins h va \<and>
      contents ! k = map (\<lambda>t. vb (t div h) (t mod h)) [0..<bins * h] \<and>
      (\<forall>i<bins. member_bin T i \<longrightarrow>
         va i (hint_fun T i) + vb i (hint_fun T i) = the (features (t_cvals T ! i)) ! k)"
  have "\<exists>va vb. ?Q k va vb" if "k < n" for k
  proof -
    from assms(1) that have "column_shared pl F h hloc bins T features k (shares ! k) (contents ! k)"
      by (simp add: columns_shared_def)
    then obtain cs garbled where c: "shares ! k = mat bins h (\<lambda>i j. cs ! i)"
      "contents ! k = map (\<lambda>t. reading pl F h hloc (t_cvals T) (fid_block k) garbled (t div h) (t mod h))
          [0..<bins * h]"
      "programmed pl F h bins T (fid_block k) garbled (\<lambda>i v. the (features v) ! k - cs ! i)"
      unfolding column_shared_def by blast
    have "cs ! i + reading pl F h hloc (t_cvals T) (fid_block k) garbled i (hint_fun T i) =
        the (features (t_cvals T ! i)) ! k" if "i < bins" "member_bin T i" for i
      using reading_programmed(2) [OF ok dist that(1) _ _ c(3) [unfolded programmed_def]] that(2)
      by (simp add: member_bin_def hint_fun_def)
    with c(1,2) show ?thesis
      by (intro exI [of _ "\<lambda>i j. cs ! i"]
            exI [of _ "reading pl F h hloc (t_cvals T) (fid_block k) garbled"]) simp
  qed
  then have "\<forall>k. \<exists>va vb. k < n \<longrightarrow> ?Q k va vb" by blast
  from choice [OF this] obtain va where "\<forall>k. \<exists>vb. k < n \<longrightarrow> ?Q k (va k) vb" ..
  from choice [OF this] obtain vb where v: "\<forall>k. k < n \<longrightarrow> ?Q k (va k) (vb k)" ..
  moreover have "length shares = n" "length contents = n"
    using assms(1) by (simp_all add: columns_shared_def)
  ultimately have "shares = map (\<lambda>k. mat bins h (va k)) [0..<n]"
    "contents = map (\<lambda>k. map (\<lambda>t. vb k (t div h) (t mod h)) [0..<bins * h]) [0..<n]"
    by (simp_all add: list_eq_iff_nth_eq)
  with v show ?thesis by blast
qed

section \<open>The run of two parties\<close>

text \<open>Everything a run relies on.\<close>

definition circuit_run_ok ::
  "hash_lib \<Rightarrow> 'r prng_lib \<Rightarrow> (verse_request, verse_answer) ideal \<Rightarrow> (nat \<Rightarrow> item \<Rightarrow> nat) \<Rightarrow>
     (nat \<Rightarrow> item \<Rightarrow> nat) \<Rightarrow> (nat \<Rightarrow> block \<Rightarrow> block) \<Rightarrow> nat \<Rightarrow> nat \<Rightarrow> circuit_tables \<Rightarrow>
     'r circuit_psi \<Rightarrow> 'r circuit_psi \<Rightarrow> string list \<Rightarrow> 64 word list list \<Rightarrow> string list \<Rightarrow>
     64 word list list \<Rightarrow> bool" where
  "circuit_run_ok hl pl ideal loc hloc F bins hint_bins T a b xs xf ys yf \<longleftrightarrow>
     circuit_paired a b \<and> circuit_oprf_ok ideal F a b \<and> duet_ok ideal \<and>
     bins_for (length ys) (p_epsilon a) = Inr bins \<and>
     hint_bins_for (length xs) (p_num_of_fun a) bins (p_epsilon_hint a) = Inr hint_bins \<and>
     circuit_sizes_ok bins hint_bins (p_num_of_fun a) (p_num_of_fun_hint a) (length xs) (length ys)
       (length xf) (length yf) \<and>
     T = run_tables hl pl a bins hint_bins (hash_keys hl xs) (hash_keys hl ys) \<and>
     circuit_tables_ok loc hloc (p_num_of_fun a) (p_num_of_fun_hint a) bins hint_bins
       (hash_keys hl xs) (hash_keys hl ys) T \<and>
     circuit_names_ok (p_num_of_fun a) bins (hash_keys hl xs) (hash_keys hl ys) T \<and>
     circuit_no_stash hl pl a bins hint_bins (hash_keys hl xs) (hash_keys hl ys) \<and>
     circuit_no_false_hit pl F (p_num_of_fun_hint a) hloc bins hint_bins (p_prng a) T \<and>
     distinct xs \<and> inj_on (digest hl) (set xs \<union> set ys) \<and>
     features_ok (length xs) xf \<and> features_ok (length ys) yf"

lemma circuit_runD:
  assumes "circuit_run_ok hl pl ideal loc hloc F bins hint_bins T a b xs xf ys yf"
  shows "circuit_paired a b" "circuit_oprf_ok ideal F a b" "duet_ok ideal"
    "bins_for (length ys) (p_epsilon a) = Inr bins"
    "hint_bins_for (length xs) (p_num_of_fun a) bins (p_epsilon_hint a) = Inr hint_bins"
    "circuit_sizes_ok bins hint_bins (p_num_of_fun a) (p_num_of_fun_hint a)
       (length (hash_keys hl xs)) (length (hash_keys hl ys)) (length xf) (length yf)"
    "T = run_tables hl pl a bins hint_bins (hash_keys hl xs) (hash_keys hl ys)"
    "circuit_tables_ok loc hloc (p_num_of_fun a) (p_num_of_fun_hint a) bins hint_bins
       (hash_keys hl xs) (hash_keys hl ys) T"
    "circuit_names_ok (p_num_of_fun a) bins (hash_keys hl xs) (hash_keys hl ys) T"
    "circuit_no_stash hl pl a bins hint_bins (hash_keys hl xs) (hash_keys hl ys)"
    "circuit_no_false_hit pl F (p_num_of_fun_hint a) hloc bins hint_bins (p_prng a) T"
    "distinct xs" "inj_on (digest hl) (set xs \<union> set ys)"
    "features_ok (length (hash_keys hl xs)) xf" "features_ok (length (hash_keys hl ys)) yf"
  using assms unfolding circuit_run_ok_def length_hash_keys by blast+

text \<open>The features of a bin: the sender's of a member, the receiver's of an occupied bin.\<close>

lemma sender_feature_value:
  assumes run: "circuit_run_ok hl pl ideal loc hloc F bins hint_bins T a b xs xf ys yf"
    and fa: "\<forall>p<length (hash_keys hl xs). \<forall>name\<in>set (sender_names (p_num_of_fun a) (hash_keys hl xs ! p)).
       fa name = Some (map (\<lambda>column. column ! p) xf)"
    and i: "i < bins" "member_bin T i" and k: "k < length xf"
  shows "the (fa (t_cvals T ! i)) ! k = value_of xs (xf ! k) (ys ! (t_cids T ! i))"
proof -
  note r = circuit_runD [OF run]
  from member_bin_iff [OF r(8,9,13) i(1)] i(2) have occ: "t_cocc T ! i"
    and mem: "ys ! (t_cids T ! i) \<in> set xs" by simp_all
  note o = occupied_bin [OF r(8) i(1) occ]
  from mem obtain p where p: "p < length xs" "xs ! p = ys ! (t_cids T ! i)" by (auto simp: in_set_conv_nth)
  have "t_cvals T ! i \<in> set (sender_names (p_num_of_fun a) (hash_keys hl xs ! p))"
    using o(3,4) p by (simp add: sender_names_def hash_keys_def)
  with fa p(1) have "fa (t_cvals T ! i) = Some (map (\<lambda>column. column ! p) xf)" by simp
  moreover have "length (xf ! k) = length xs"
    using r(14) k by (simp add: features_ok_def list_all_length)
  from value_of_nth [OF r(12) this p(1)] p(2) have "value_of xs (xf ! k) (ys ! (t_cids T ! i)) = xf ! k ! p"
    by simp
  ultimately show ?thesis using k by simp
qed

lemma receiver_feature_value:
  assumes run: "circuit_run_ok hl pl ideal loc hloc F bins hint_bins T a b xs xf ys yf"
    and i: "i < bins" and k: "k < length yf"
  shows "(if t_cocc T ! i then yf ! k ! (t_cids T ! i) else 0) =
    (case bin_key T ys i of None \<Rightarrow> 0 | Some y \<Rightarrow> value_of ys (yf ! k) y)"
proof (cases "t_cocc T ! i")
  case True
  note r = circuit_runD [OF run]
  have "distinct ys" using r(9) by (simp add: circuit_names_ok_def hash_keys_def distinct_map)
  moreover have "length (yf ! k) = length ys"
    using r(15) k by (simp add: features_ok_def list_all_length)
  ultimately show ?thesis
    using occupied_bin(1) [OF r(8) i True] True by (simp add: bin_key_def value_of_nth)
qed (simp add: bin_key_def)

text \<open>Every bin of the joined shares, from the hits of the hint and the shared columns.\<close>

lemma circuit_joined:
  assumes run: "circuit_run_ok hl pl ideal loc hloc F bins hint_bins T a b xs xf ys yf"
    and h: "h = p_num_of_fun_hint a"
    and sent: "sent_hint pl F bins hint_bins (p_prng a) T = Inr (contents, garbled, g1)"
    and prog: "programmed pl F h bins T 0 garbled (\<lambda>i v. contents ! i)"
    and fa: "\<forall>p<length (hash_keys hl xs). \<forall>name\<in>set (sender_names (p_num_of_fun a) (hash_keys hl xs ! p)).
       fa name = Some (map (\<lambda>column. column ! p) xf)"
    and v: "\<forall>k<length xf. \<forall>i<bins. member_bin T i \<longrightarrow>
       va k i (hint_fun T i) + vb k i (hint_fun T i) = the (fa (t_cvals T ! i)) ! k"
    and ri: "r < length xf + length yf + 1" "i < bins"
  shows "joined_share (length xf) (length yf) h
      (share_hit contents (reading pl F h hloc (t_cvals T) 0 garbled)) (\<lambda>k i j. va k i j + vb k i j)
      (\<lambda>k i. if t_cocc T ! i then yf ! k ! (t_cids T ! i) else 0) r i =
    joined_spec xs xf ys yf (bin_key T ys i) r"
proof (rule joined_share_spec [where mem = "member_bin T i" and ?j0.0 = "hint_fun T i"])
  note r = circuit_runD [OF run, folded h]
  note dist = table_values_distinct [OF r(8,9)]
  show "share_hit contents (reading pl F h hloc (t_cvals T) 0 garbled) i j \<longleftrightarrow>
      member_bin T i \<and> j = hint_fun T i" if "j < h" for j
    by (rule hint_hits [OF r(8) dist sent prog r(11) ri(2) that])
  show "hint_fun T i < h" if "member_bin T i"
    by (rule hint_fun_bound [OF r(8) dist ri(2) that])
  show mem: "member_bin T i \<longleftrightarrow> (\<exists>y. bin_key T ys i = Some y \<and> y \<in> set xs)"
    using member_bin_iff [OF r(8,9,13) ri(2)] by (simp add: bin_key_def)
  show "va k i (hint_fun T i) + vb k i (hint_fun T i) = value_of xs (xf ! k) y"
    if "k < length xf" "bin_key T ys i = Some y" "y \<in> set xs" for k y
  proof -
    have m: "member_bin T i" using mem that(2,3) by blast
    from that(2) have "y = ys ! (t_cids T ! i)" by (simp add: bin_key_def split: if_splits)
    with v that(1) ri(2) m sender_feature_value [OF run fa ri(2) m that(1)] show ?thesis by simp
  qed
  show "(if t_cocc T ! i then yf ! k ! (t_cids T ! i) else 0) =
      (case bin_key T ys i of None \<Rightarrow> 0 | Some y \<Rightarrow> value_of ys (yf ! k) y)" if "k < length yf" for k
    by (rule receiver_feature_value [OF run ri(2) that])
qed (use ri in simp)

text \<open>The four phases one after the other.\<close>

lemma circuit_process_phases:
  assumes pair: "circuit_paired a b" and "h = p_num_of_fun_hint a"
    and bins: "bins_for (length ys) (p_epsilon a) = Inr bins"
      "hint_bins_for (length xs) (p_num_of_fun a) bins (p_epsilon_hint a) = Inr hint_bins"
    and len: "length xs < 2 ^ 64" "length ys < 2 ^ 64" "length xf < 2 ^ 64" "length yf < 2 ^ 64"
    and oprf: "joint ideal (circuit_sender_oprf hl pl a Net bins (hash_keys hl xs))
      (circuit_receiver_oprf hl pl b Net bins (hash_keys hl ys)) (vals, masks, a1) (seed, rmasks, b1)"
    and hint: "joint ideal (circuit_sender_hint hl pl a1 Net bins hint_bins vals masks)
      (circuit_receiver_hint hl pl b1 Net bins hint_bins
         (cuckoo_values hl bins seed (p_num_of_fun a) (hash_keys hl ys)) rmasks)
      (tables, a2) (content, addresses, b2)"
    and feats: "joint ideal
      (circuit_sender_features pl a2 Net bins hint_bins (hash_keys hl xs) xf (length xf) tables masks)
      (circuit_receiver_features pl b2 Net bins hint_bins (hash_keys hl ys) yf (length xf) (length yf)
         addresses rmasks) (shares, a3) (fb, cts)"
    and phase: "joint ideal
      (circuit_sender_shares bins h (length xf) (length yf) (h_contents tables) shares)
      (circuit_receiver_shares bins h (length xf) (length yf) content cts
         (cuckoo_occupancy hl bins seed (p_num_of_fun a) (hash_keys hl ys))
         (cuckoo_source_values hl bins seed (p_num_of_fun a) (hash_keys hl ys)) fb) Sa Sb"
  shows "joint ideal (circuit_process hl pl a Net xs xf) (circuit_process hl pl b Net ys yf)
    (Sa, a3) (Sb, b2)"
proof -
  have pair: "p_is_sender a = True" "p_is_sender b = False" "p_num_of_fun b = p_num_of_fun a"
    "p_num_of_fun_hint b = h" "p_num_of_fun_hint a = h" "p_epsilon b = p_epsilon a"
    "p_epsilon_hint b = p_epsilon_hint a"
    using assms(1,2) by (simp_all add: circuit_paired_def)
  show ?thesis
    unfolding circuit_process_def pair
    by (rule joint_bindp [OF circuit_sizes_joint [OF len]],
        simp only: prod.case bins lift_res_simps bindp.simps Let_def if_True if_False,
        rule joint_bindp [OF oprf], simp only: prod.case, rule joint_bindp [OF hint],
        simp only: prod.case, rule joint_bindp [OF feats], simp only: prod.case,
        rule joint_bindp [OF phase], rule joint_Ret)
qed

lemma circuit_process_joint:
  assumes run: "circuit_run_ok hl pl ideal loc hloc F bins hint_bins T a b xs xf ys yf"
  shows "\<exists>Sa Sb g. joint ideal (circuit_process hl pl a Net xs xf) (circuit_process hl pl b Net ys yf)
      (mat (length xf + length yf + 1) bins Sa,
       a\<lparr>p_common_prng := advanced pl 2 (p_common_prng a), p_prng := g\<rparr>)
      (mat (length xf + length yf + 1) bins Sb,
       b\<lparr>p_common_prng := advanced pl 2 (p_common_prng a)\<rparr>) \<and>
    (\<forall>r<length xf + length yf + 1. \<forall>i<bins.
       join_entry r (Sa r i) (Sb r i) = joined_spec xs xf ys yf (bin_key T ys i) r)"
proof -
  note r = circuit_runD [OF run]
  let ?h = "p_num_of_fun_hint a" and ?sf = "length xf" and ?rf = "length yf"
  let ?X = "hash_keys hl xs" and ?Y = "hash_keys hl ys" and ?rows = "length xf + length yf + 1"
  note sz = circuit_sizesD [OF r(6)]
  have n: "length xs < 2 ^ 64" "length ys < 2 ^ 64" and rows: "?rows \<le> max_vectors"
    using r(6) by (simp_all add: circuit_sizes_ok_def)
  have len: "length (t_vals T) = bins" "length (t_cvals T) = bins" "length (t_cocc T) = bins"
    "length (t_csrc T) = bins"
    using r(8) by (simp_all add: circuit_tables_ok_def simple_table_ok_def cuckoo_table_ok_def)
  note oprf = circuit_oprf_joint [OF r(1,2,7) len(1,2) sz(1) r(10) [unfolded circuit_no_stash_def, THEN conjunct1]]
  from circuit_hint_joint [where ideal = ideal and F = F, OF r(1,7,8,9) refl r(6,10)]
  obtain tloc contents garbled g1 where
    tloc: "located bins T tloc"
    and sent: "sent_hint pl F bins hint_bins (p_prng a) T = Inr (contents, garbled, g1)"
    and lc: "length contents = bins"
    and prog: "programmed pl F ?h bins T 0 garbled (\<lambda>i v. contents ! i)"
    and hint: "joint ideal
      (circuit_sender_hint hl pl (a\<lparr>p_common_prng := advanced pl 1 (p_common_prng a)\<rparr>) Net bins
         hint_bins (t_vals T) (sender_masks F bins (t_vals T)))
      (circuit_receiver_hint hl pl (b\<lparr>p_common_prng := advanced pl 1 (p_common_prng a)\<rparr>) Net bins
         hint_bins (t_cvals T) (receiver_masks F (t_cvals T)))
      (\<lparr>h_contents = contents, h_table_loc = tloc, h_occupancy = t_hocc T,
        h_source_values = t_hsrc T, h_function_ids = t_hfids T\<rparr>,
       a\<lparr>p_prng := g1, p_common_prng := advanced pl 2 (p_common_prng a)\<rparr>)
      (map (\<lambda>t. reading pl F ?h hloc (t_cvals T) 0 garbled (t div ?h) (t mod ?h)) [0..<bins * ?h],
       t_addresses T, b\<lparr>p_common_prng := advanced pl 2 (p_common_prng a)\<rparr>)"
    by blast
  let ?tables = "\<lparr>h_contents = contents, h_table_loc = tloc, h_occupancy = t_hocc T,
        h_source_values = t_hsrc T, h_function_ids = t_hfids T\<rparr>"
  let ?a = "a\<lparr>p_prng := g1, p_common_prng := advanced pl 2 (p_common_prng a)\<rparr>"
  let ?b = "b\<lparr>p_common_prng := advanced pl 2 (p_common_prng a)\<rparr>"
  from circuit_features_joint [OF r(8,9) tloc r(6,14) refl r(15) refl, where tables = ?tables and a = ?a
      and b = ?b and ideal = ideal and pl = pl and F = F] r(1) [unfolded circuit_paired_def]
  obtain fa shares g fb cts where
    feats: "joint ideal
      (circuit_sender_features pl ?a Net bins hint_bins ?X xf ?sf ?tables (sender_masks F bins (t_vals T)))
      (circuit_receiver_features pl ?b Net bins hint_bins ?Y yf ?sf ?rf (t_addresses T)
         (receiver_masks F (t_cvals T)))
      (shares, ?a\<lparr>p_prng := g\<rparr>) (fb, cts)"
    and cols: "columns_shared pl F ?h hloc bins T fa ?sf shares cts"
    and fa: "\<forall>p<length ?X. \<forall>name\<in>set (sender_names (p_num_of_fun a) (?X ! p)).
       fa name = Some (map (\<lambda>column. column ! p) xf)"
    and fb: "?sf \<noteq> 0 \<or> ?rf \<noteq> 0 \<longrightarrow> (\<forall>p<length ?Y. fb (?Y ! p) = Some (map (\<lambda>column. column ! p) yf))"
    by auto
  from columns_split [OF cols r(8) table_values_distinct [OF r(8,9)]] obtain va vb where
    v: "shares = map (\<lambda>k. mat bins ?h (va k)) [0..<?sf]"
       "cts = map (\<lambda>k. map (\<lambda>t. vb k (t div ?h) (t mod ?h)) [0..<bins * ?h]) [0..<?sf]"
       "\<forall>k < ?sf. \<forall>i<bins. member_bin T i \<longrightarrow>
          va k i (hint_fun T i) + vb k i (hint_fun T i) = the (fa (t_cvals T ! i)) ! k" by blast
  let ?own = "\<lambda>k i. yf ! k ! (t_cids T ! i)"
  let ?rd = "reading pl F ?h hloc (t_cvals T) 0 garbled"
  have own: "fb (t_csrc T ! i) = Some (map (\<lambda>column. column ! (t_cids T ! i)) yf)"
    if "i < bins" "t_cocc T ! i" "?sf \<noteq> 0 \<or> ?rf \<noteq> 0" for i
    using occupied_bin(1,2) [OF r(8) that(1,2)] fb that(3) by (simp add: hash_keys_def)
  have "\<exists>Sa Sb. joint ideal (circuit_sender_shares bins ?h ?sf ?rf contents shares)
      (circuit_receiver_shares bins ?h ?sf ?rf (map (\<lambda>t. ?rd (t div ?h) (t mod ?h)) [0..<bins * ?h]) cts
         (t_cocc T) (t_csrc T) fb) (mat ?rows bins Sa) (mat ?rows bins Sb) \<and>
    (\<forall>r<?rows. \<forall>i<bins. join_entry r (Sa r i) (Sb r i) =
       joined_share ?sf ?rf ?h (share_hit contents ?rd) (\<lambda>k i j. va k i j + vb k i j)
         (\<lambda>k i. if t_cocc T ! i then ?own k i else 0) r i)"
    by (rule shares_joint [OF r(3) rows sz(2,3) lc v(1,2) len(3,4)]) (simp_all add: own)
  then obtain Sa Sb where
    phase: "joint ideal (circuit_sender_shares bins ?h ?sf ?rf contents shares)
      (circuit_receiver_shares bins ?h ?sf ?rf (map (\<lambda>t. ?rd (t div ?h) (t mod ?h)) [0..<bins * ?h]) cts
         (t_cocc T) (t_csrc T) fb) (mat ?rows bins Sa) (mat ?rows bins Sb)"
    and join: "\<forall>r<?rows. \<forall>i<bins. join_entry r (Sa r i) (Sb r i) =
       joined_share ?sf ?rf ?h (share_hit contents ?rd) (\<lambda>k i j. va k i j + vb k i j)
         (\<lambda>k i. if t_cocc T ! i then ?own k i else 0) r i" by blast
  have tabs: "t_cvals T = cuckoo_values hl bins (seed_at pl 0 (p_common_prng a)) (p_num_of_fun a) ?Y"
    "t_cocc T = cuckoo_occupancy hl bins (seed_at pl 0 (p_common_prng a)) (p_num_of_fun a) ?Y"
    "t_csrc T = cuckoo_source_values hl bins (seed_at pl 0 (p_common_prng a)) (p_num_of_fun a) ?Y"
    by (simp_all add: r(7) run_tables_def Let_def)
  have "joint ideal (circuit_process hl pl a Net xs xf) (circuit_process hl pl b Net ys yf)
      (mat ?rows bins Sa, ?a\<lparr>p_prng := g\<rparr>) (mat ?rows bins Sb, ?b)"
    by (rule circuit_process_phases [OF r(1) refl r(4,5) n sz(5,6) oprf _ feats])
       (use hint phase tabs in simp_all)
  moreover have "join_entry r (Sa r i) (Sb r i) = joined_spec xs xf ys yf (bin_key T ys i) r"
    if "r < ?rows" "i < bins" for r i
    using join that circuit_joined [where va = va and vb = vb and fa = fa, OF run refl sent prog fa v(3) that] by simp
  moreover have "?a\<lparr>p_prng := g\<rparr> = a\<lparr>p_common_prng := advanced pl 2 (p_common_prng a), p_prng := g\<rparr>"
    by simp
  ultimately show ?thesis by metis
qed

end
