(* ===== verification/Reveal.thy ===== *)
theory Reveal
  imports Circuit_Properties
begin

text \<open>
  Revealing the shares: the two parties swap their matrices row by row and join them. Every
  send of a party may precede every receive of the other, so the streams fill up with whole
  matrices before they are read.
\<close>

section \<open>Whole matrices on the wire\<close>

abbreviation row_bytes :: "64 word list \<Rightarrow> byte list" where
  "row_bytes row \<equiv> concat (map u64_bytes row)"

definition send_row :: "64 word list \<Rightarrow> unit \<Rightarrow> unit verse_proc" where
  "send_row row u = send_data Net (row_bytes row)"

definition recv_row :: "nat \<Rightarrow> 64 word list \<Rightarrow> matrix \<Rightarrow> matrix verse_proc" where
  "recv_row w row recv_shares =
     bindp (recv_data Net (length row * 8)) (\<lambda>bs.
       if w < length row then Throw (Undefined_Behaviour ''buffer overflow'')
       else Ret (recv_shares @ [u64s_of (length row) bs @ replicate (w - length row) 0]))"

lemma row_steps:
  "bindp (send_row row u) k = Send (row_bytes row) (k ())"
  "length row = w \<Longrightarrow> bindp (recv_row w row acc) k' =
     Recv (w * 8) (\<lambda>bs. k' (acc @ [u64s_of w bs]))"
  by (auto simp: send_row_def recv_row_def)

lemma reaches_send_rows:
  "reaches ideal (Conf (f ()) q (ab @ concat (map row_bytes rows)) ba) d \<Longrightarrow>
     reaches ideal (Conf (bindp (fold_proc send_row rows ()) f) q ab ba) d"
  "reaches ideal (Conf p (g ()) ab (ba @ concat (map row_bytes rows))) d \<Longrightarrow>
     reaches ideal (Conf p (bindp (fold_proc send_row rows ()) g) ab ba) d"
proof (induction rows arbitrary: ab ba)
  case (Cons row rows)
  {
    case 1
    then show ?case by (simp add: bindp_assoc row_steps del: length_u64s_bytes) (rule reaches_send_a, rule Cons.IH(1), simp)
  next
    case 2
    then show ?case by (simp add: bindp_assoc row_steps del: length_u64s_bytes) (rule reaches_send_b, rule Cons.IH(2), simp)
  }
qed simp_all

lemma reaches_recv_rows:
  assumes "\<forall>row\<in>set rows. length row = w"
  shows "length rows' = length rows \<Longrightarrow> \<forall>row\<in>set rows'. length row = w \<Longrightarrow>
      reaches ideal (Conf (f (acc @ rows')) q ab []) d \<Longrightarrow>
      reaches ideal (Conf (bindp (fold_proc (recv_row w) rows acc) f) q ab (concat (map row_bytes rows'))) d"
    and "length rows' = length rows \<Longrightarrow> \<forall>row\<in>set rows'. length row = w \<Longrightarrow>
      reaches ideal (Conf p (g (acc @ rows')) [] ba) d \<Longrightarrow>
      reaches ideal (Conf p (bindp (fold_proc (recv_row w) rows acc) g) (concat (map row_bytes rows')) ba) d"
  using assms
proof (induction rows arbitrary: rows' acc)
  case (Cons row rows)
  {
    case 1
    then obtain r' rs' where r: "rows' = r' # rs'" "length r' = w" by (cases rows') auto
    have "reaches ideal (Conf (bindp (fold_proc (recv_row w) rows (acc @ [r'])) f) q ab
        (concat (map row_bytes rs'))) d"
      by (rule Cons.IH(1)) (use 1 r in auto)
    with 1 r show ?case
      by (simp add: bindp_assoc row_steps del: length_u64s_bytes, intro reaches_recv_a)
         (simp_all add: u64s_of_bytes)
  next
    case 2
    then obtain r' rs' where r: "rows' = r' # rs'" "length r' = w" by (cases rows') auto
    have "reaches ideal (Conf p (bindp (fold_proc (recv_row w) rows (acc @ [r'])) g)
        (concat (map row_bytes rs')) ba) d"
      by (rule Cons.IH(2)) (use 2 r in auto)
    with 2 r show ?case
      by (simp add: bindp_assoc row_steps del: length_u64s_bytes, intro reaches_recv_b)
         (simp_all add: u64s_of_bytes)
  }
qed simp_all

lemma swap_shares_rows:
  "rows \<noteq> [] \<Longrightarrow> length (rows ! 0) = w \<Longrightarrow>
     swap_shares Net rows = bindp (fold_proc send_row rows ()) (\<lambda>_. fold_proc (recv_row w) rows [])"
  unfolding swap_shares_def send_row_def [abs_def] recv_row_def [abs_def] by auto

lemma swap_shares_joint:
  assumes "shaped n w A" and "shaped n w B" and "0 < n"
  shows "joint ideal (swap_shares Net A) (swap_shares Net B) B A"
proof -
  have len: "\<forall>row\<in>set A. length row = w" "\<forall>row\<in>set B. length row = w" "length A = n" "length B = n"
    using assms(1,2) by (simp_all add: shaped_def list_all_iff)
  then have ne: "A \<noteq> []" "B \<noteq> []" "length (A ! 0) = w" "length (B ! 0) = w"
    using assms(3) by auto
  have r: "reaches ideal (Conf (bindp (fold_proc (recv_row w) A []) Ret)
      (bindp (fold_proc (recv_row w) B []) Ret) (concat (map row_bytes A)) (concat (map row_bytes B)))
      (Conf (Ret B) (Ret A) [] [])"
    using len by (intro reaches_recv_rows) simp_all
  show ?thesis
    unfolding joint_def swap_shares_rows [OF ne(1,3)] swap_shares_rows [OF ne(2,4)]
    by (rule reaches_send_rows(1), rule reaches_send_rows(2)) (use r in \<open>simp add: bindp_Ret\<close>)
qed

section \<open>Joining\<close>

lemma join_shares_mat:
  "join_shares (mat n w f) (mat n w g) = Inr (mat n w (\<lambda>r c. join_entry r (g r c) (f r c)))"
proof -
  let ?s = "\<lambda>i j. mat n w (\<lambda>r c. if r < i \<or> (r = i \<and> c < j) then join_entry r (g r c) (f r c) else g r c)"
  have row: "for_upto w (\<lambda>j recv_shares. res_bind (vec_at (mat n w f ! i) j)
      (\<lambda>v. update_share (join_entry i) i j v recv_shares)) (?s i 0) = Inr (?s (Suc i) 0)" if i: "i < n" for i
  proof -
    have "for_upto w (\<lambda>j recv_shares. res_bind (vec_at (mat n w f ! i) j)
      (\<lambda>v. update_share (join_entry i) i j v recv_shares)) (?s i 0) = Inr (?s i w)"
      by (rule for_upto_trace [where g = "?s i"])
         (use i in \<open>auto simp: update_share_mat intro!: mat_cong\<close>)
    also have "?s i w = ?s (Suc i) 0" by (rule mat_cong) auto
    finally show ?thesis .
  qed
  have "for_upto n (\<lambda>i recv_shares. res_bind (vec_at (mat n w f) i) (\<lambda>row.
      for_upto (length row) (\<lambda>j recv_shares. res_bind (vec_at row j)
        (\<lambda>v. update_share (join_entry i) i j v recv_shares)) recv_shares)) (?s 0 0) = Inr (?s n 0)"
  proof (rule for_upto_trace [where g = "\<lambda>i. ?s i 0"])
    fix i assume i: "i < n"
    then have "vec_at (mat n w f) i = Inr (mat n w f ! i)" by simp
    then show "res_bind (vec_at (mat n w f) i) (\<lambda>row. for_upto (length row) (\<lambda>j recv_shares.
        res_bind (vec_at row j) (\<lambda>v. update_share (join_entry i) i j v recv_shares)) (?s i 0)) =
      Inr (?s (Suc i) 0)"
      by (simp only: res_bind_Inr mat_shape(2) [OF i] row [OF i])
  qed
  moreover have "?s 0 0 = mat n w g" by (rule mat_cong) auto
  moreover have "?s n 0 = mat n w (\<lambda>r c. join_entry r (g r c) (f r c))" by (rule mat_cong) auto
  ultimately show ?thesis by (simp add: join_shares_def)
qed

lemma join_entry_commute: "join_entry r a b = join_entry r b a"
  by (simp add: join_entry_def ac_simps)

end
