(* ===== verification/Circuit_Theorems.thy ===== *)
theory Circuit_Theorems
  imports Reveal
begin

text \<open>
  The claims about the circuit protocol: what the shares of two honest parties join to, also
  when they reveal them as the example program does, how initialisation and the hash tables
  end, and the shape of whatever a party returns.
\<close>

section \<open>A concrete instance\<close>

text \<open>
  One hash function on either side, the key ''a'' with one feature against the keys ''b'' and
  ''a'' with one; the equality test and the multiplexer leave the first party shares of zero.
\<close>

fun toy_duet :: "(verse_request, verse_answer) ideal" where
  "toy_duet (Duet_Setup p) (Duet_Setup q) = Some (Duet_Ready, Duet_Ready)"
| "toy_duet (Duet_Equal x0 y0) (Duet_Equal x1 y1) =
     Some (Duet_Shares (map (map (\<lambda>_. 0)) x0),
           Duet_Shares (map (\<lambda>i. map (\<lambda>j. if x0 ! i ! j + x1 ! i ! j = y0 ! i ! j + y1 ! i ! j then 1 else 0)
             [0..<length (x0 ! i)]) [0..<length x0]))"
| "toy_duet (Duet_Multiplexer b0 s0) (Duet_Multiplexer b1 s1) =
     Some (Duet_Shares (map (map (\<lambda>_. 0)) b0),
           Duet_Shares (map (\<lambda>i. map (\<lambda>j. if b0 ! i ! j XOR b1 ! i ! j = 1 then s0 ! i ! j + s1 ! i ! j else 0)
             [0..<length (b0 ! i)]) [0..<length b0]))"
| "toy_duet r s = toy_verse r s"

lemma shaped_lengths: "shaped n h m \<Longrightarrow> length m = n \<and> (\<forall>i<n. length (m ! i) = h)"
  by (simp add: shaped_def list_all_length)

lemma shapedI: "length m = n \<Longrightarrow> (\<And>i. i < n \<Longrightarrow> length (m ! i) = h) \<Longrightarrow> shaped n h m"
  by (simp add: shaped_def list_all_length)

lemma toy_duet_ok: "duet_ok toy_duet"
  unfolding duet_ok_def duet_equal_ok_def duet_multiplexer_ok_def
  by (auto dest!: shaped_lengths intro!: shapedI)

definition toy_circuit :: "bool \<Rightarrow> nat list circuit_psi" where
  "toy_circuit sender = \<lparr>p_is_sender = sender, p_verbose = False, p_prng = [1], p_common_prng = [],
     p_choices = [], p_base_recv = [], p_base_send = [], p_epsilon = 0x3ff8000000000000,
     p_epsilon_hint = 0x3ff8000000000000, p_num_of_fun = 1, p_num_of_fun_hint = 1\<rparr>"

lemma toy_circuit_fields:
  "p_prng (toy_circuit s) = [1]" "p_epsilon (toy_circuit s) = 0x3ff8000000000000"
  "p_epsilon_hint (toy_circuit s) = 0x3ff8000000000000" "p_num_of_fun (toy_circuit s) = 1"
  "p_num_of_fun_hint (toy_circuit s) = 1"
  by (simp_all add: toy_circuit_def)

definition toy_tables :: circuit_tables where
  "toy_tables = \<lparr>t_vals = [[], [toy_item 97], []], t_fids = [[], [0], []],
     t_cvals = [replicate 16 0, toy_item 97, toy_item 98], t_cids = [0, 1, 0], t_cfids = [1, 0, 0],
     t_cocc = [False, True, True], t_csrc = [replicate 16 0, toy_item 97, toy_item 98],
     t_hocc = [False, False, True, False, False],
     t_hsrc = [replicate 16 0, replicate 16 0, toy_item 97, replicate 16 0, replicate 16 0],
     t_hfids = [1, 1, 0, 1, 1], t_addresses = [0, 2, 3]\<rparr>"

lemma toy_tables_run:
  "run_tables toy_hash toy_prng (toy_circuit True) 3 5 (hash_keys toy_hash [''a''])
     (hash_keys toy_hash [''b'', ''a'']) = toy_tables"
  by (rule circuit_tables.equality) code_simp+

lemma toy_digests: "hash_keys toy_hash [''a''] = [toy_item 97]"
  "hash_keys toy_hash [''b'', ''a''] = [toy_item 98, toy_item 97]"
  by code_simp+

lemma upt_3: "[0..<3] = [0, 1, 2]" and upt_5: "[0..<5] = [0, 1, 2, 3, 4]"
  by (simp_all add: upt_rec)

lemma toy_tables_ok:
  "circuit_tables_ok (toy_loc 3) (toy_loc 5) 1 1 3 5 (hash_keys toy_hash [''a''])
     (hash_keys toy_hash [''b'', ''a'']) toy_tables"
  unfolding circuit_tables_ok_def simple_table_ok_def cuckoo_table_ok_def hint_table_ok_def toy_digests
  by (simp add: toy_tables_def table_entries_def upt_3 upt_5 toy_loc_def keys_xor_fun_def)

lemma toy_names_ok:
  "circuit_names_ok 1 3 (hash_keys toy_hash [''a'']) (hash_keys toy_hash [''b'', ''a'']) toy_tables"
  unfolding circuit_names_ok_def toy_digests
  by (simp add: toy_tables_def upt_3 sender_names_def keys_xor_fun_def)

lemma toy_circuit_stash:
  "circuit_no_stash toy_hash toy_prng (toy_circuit True) 3 5 (hash_keys toy_hash [''a''])
     (hash_keys toy_hash [''b'', ''a''])"
  by code_simp

lemma toy_circuit_bins:
  "bins_for 2 0x3ff8000000000000 = Inr 3" "hint_bins_for 1 1 3 0x3ff8000000000000 = Inr 5"
  unfolding hint_bins_for_def bins_for_def by (simp_all add: double_eval size_of_ceil_def size_mul_def)

lemma toy_draws: "draw_u64s toy_prng 3 [1] = ([1, 0, 0], [])"
  by (simp add: numeral_3_eq_3 toy_prng_def u64_of_def le_nat_zeros)

lemma toy_blocks: "block_of (toy_item 97) = 97" "block_of (toy_item 98) = 98"
  "block_of (replicate 16 0) = 0"
  by (simp_all add: block_of_def le_nat_zeros)

lemma toy_pad: "pads toy_prng b 0 1 = [of_nat (unat b mod 2 ^ 64)]"
proof -
  have "length (le_bytes 16 (unat b)) = 16" by simp
  then have "take 8 (map unat (le_bytes 16 (unat b)) @ replicate 8 0) = map unat (le_bytes 8 (unat b))"
    by (simp add: take_map take_le_bytes)
  then show ?thesis
    by (simp add: pads_def toy_prng_def block_bytes_def kRandSeedBytesLen_def take_le_bytes comp_def
        u64_of_def le_nat_le_bytes)
qed

lemma toy_random: "prng_generate toy_prng [] 8 = (replicate 8 0, [])" "u64_of (replicate 8 0) = 0"
  by (simp_all add: toy_prng_def u64_of_def le_nat_zeros)

lemma toy_garbled:
  "garble toy_prng 5 [False, False, True, False, False]
     [replicate 16 0, replicate 16 0, toy_item 97, replicate 16 0, replicate 16 0]
     [1, 1, 0, 1, 1] [toy_item 97 \<mapsto> (1, 0)] [[], [98], []] 0 (\<lambda>_. vec_at [1, 0, 0]) [] =
   Inr ([0, 0, 98, 0, 0], [])"
proof -
  have pad: "pads toy_prng 98 0 (Suc 0) = [98]" using toy_pad [of 98] by simp
  have upt: "[0..<5] = [0, Suc 0, Suc (Suc 0), Suc (Suc (Suc 0)), Suc (Suc (Suc (Suc 0)))]"
    by (simp add: upt_rec)
  have five: "replicate 5 (0 :: 64 word) = [0, 0, 0, 0, 0]" by (simp add: numeral_eq_Suc)
  show ?thesis
    unfolding garble_def for_upto_def upt five
    by (simp add: garble_bin_def lookup_def toy_random pad)
qed

lemma toy_sent: "sent_hint toy_prng toy_encode 3 5 [1] toy_tables = Inr ([1, 0, 0], [0, 0, 98, 0, 0], [])"
  unfolding sent_hint_def toy_draws
  using toy_garbled
  by (simp add: toy_tables_def locate_items_def sender_masks_def upt_3 numeral_3_eq_3 for_upto_Suc int_index_small
     toy_blocks toy_encode_def)

lemma toy_no_false_hit:
  "circuit_no_false_hit toy_prng toy_encode 1 (toy_loc 5) 3 5 [1] toy_tables"
proof -
  have "pads toy_prng b 0 (Suc 0) = [of_nat (unat b mod 2 ^ 64)]" for b using toy_pad [of b] by simp
  then show ?thesis
    unfolding circuit_no_false_hit_def toy_sent
    by (simp add: upt_3 share_hit_def reading_def toy_tables_def member_bin_def hint_fun_def slot_def
         toy_loc_def toy_blocks toy_encode_def kReduceBitsLen_def)
qed

lemma toy_circuit_run:
  "circuit_run_ok toy_hash toy_prng toy_duet (toy_loc 3) (toy_loc 5) toy_encode 3 5 toy_tables
     (toy_circuit True) (toy_circuit False) [''a''] [[7]] [''b'', ''a''] [[8, 9]]"
proof -
  have "inj_on (digest toy_hash) (set [''a''] \<union> set [''b'', ''a''])"
    using toy_digests by (auto simp: inj_on_def hash_keys_def)
  moreover have "circuit_oprf_ok toy_duet toy_encode (toy_circuit True) (toy_circuit False)"
    by (simp add: circuit_oprf_ok_def)
  moreover have "circuit_paired (toy_circuit True) (toy_circuit False)"
    by (simp add: circuit_paired_def toy_circuit_def)
  ultimately show ?thesis
    using toy_tables_ok toy_names_ok toy_circuit_stash toy_no_false_hit toy_duet_ok toy_circuit_bins
      [unfolded numeral_2_eq_2] toy_tables_run
    by (simp add: circuit_run_ok_def toy_circuit_fields circuit_sizes_ok_def max_u64s_def
          max_vectors_def features_ok_def)
qed

section \<open>What two honest parties compute\<close>

text \<open>The table the shares stand for: a row for membership, then one per feature; a column per bin.\<close>

definition joined_table ::
  "string list \<Rightarrow> 64 word list list \<Rightarrow> string list \<Rightarrow> 64 word list list \<Rightarrow> string option list \<Rightarrow>
     matrix" where
  "joined_table xs xf ys yf keys =
     map (\<lambda>r. map (\<lambda>key. joined_spec xs xf ys yf key r) keys) [0..<length xf + length yf + 1]"

abbreviation bin_keys :: "circuit_tables \<Rightarrow> string list \<Rightarrow> nat \<Rightarrow> string option list" where
  "bin_keys T ys bins \<equiv> map (bin_key T ys) [0..<bins]"

lemma joined_table_mat:
  "joined_table xs xf ys yf (bin_keys T ys bins) =
     mat (length xf + length yf + 1) bins (\<lambda>r i. joined_spec xs xf ys yf (bin_key T ys i) r)"
  by (simp add: joined_table_def mat_def)

lemma circuit_paired_next:
  "circuit_paired a b \<Longrightarrow>
     circuit_paired (a\<lparr>p_common_prng := c, p_prng := g\<rparr>) (b\<lparr>p_common_prng := c\<rparr>)"
  by (simp add: circuit_paired_def)

lemma circuit_shares_joint:
  assumes run: "circuit_run_ok hl pl ideal loc hloc F bins hint_bins T a b xs xf ys yf"
  shows "\<exists>Sa Sb g c.
    joint ideal (circuit_process hl pl a Net xs xf) (circuit_process hl pl b Net ys yf)
      (Sa, a\<lparr>p_common_prng := c, p_prng := g\<rparr>) (Sb, b\<lparr>p_common_prng := c\<rparr>) \<and>
    join_shares Sa Sb = Inr (joined_table xs xf ys yf (bin_keys T ys bins)) \<and>
    join_shares Sb Sa = Inr (joined_table xs xf ys yf (bin_keys T ys bins)) \<and>
    shaped (length xf + length yf + 1) bins Sa \<and> shaped (length xf + length yf + 1) bins Sb"
proof -
  let ?rows = "length xf + length yf + 1"
  from circuit_process_joint [OF run] obtain Sa Sb g where
    j: "joint ideal (circuit_process hl pl a Net xs xf) (circuit_process hl pl b Net ys yf)
      (mat ?rows bins Sa, a\<lparr>p_common_prng := advanced pl 2 (p_common_prng a), p_prng := g\<rparr>)
      (mat ?rows bins Sb, b\<lparr>p_common_prng := advanced pl 2 (p_common_prng a)\<rparr>)"
    and spec: "\<forall>r<?rows. \<forall>i<bins. join_entry r (Sa r i) (Sb r i) = joined_spec xs xf ys yf (bin_key T ys i) r"
    by blast
  have "join_shares (mat ?rows bins Sa) (mat ?rows bins Sb) =
      Inr (joined_table xs xf ys yf (bin_keys T ys bins))"
    "join_shares (mat ?rows bins Sb) (mat ?rows bins Sa) =
      Inr (joined_table xs xf ys yf (bin_keys T ys bins))"
    unfolding join_shares_mat joined_table_mat using spec
    by (auto simp: join_entry_commute [of _ "Sb _ _"] intro!: mat_cong)
  with j shaped_mat show ?thesis by blast
qed

text \<open>C1: Two paired parties whose tables leave no stash end, under every schedule, each with a
  matrix of shares; joined, the shares are the table of the receiver's bins: a bin whose key is
  the sender's too has membership one and the sender's features of the key, any other has
  zeros there, and every occupied bin, member or not, has the receiver's features of its key.
  The objects are paired for the next run.\<close>

theorem circuit_process_correct:
  assumes run: "circuit_run_ok hl pl ideal loc hloc F bins hint_bins T a b xs xf ys yf"
  shows "\<exists>Sa Sb a' b'. circuit_paired a' b' \<and>
    outcomes ideal (start (circuit_process hl pl a Net xs xf) (circuit_process hl pl b Net ys yf)) =
      {Conf (Ret (Sa, a')) (Ret (Sb, b')) [] []} \<and>
    join_shares Sa Sb = Inr (joined_table xs xf ys yf (bin_keys T ys bins))"
proof -
  from circuit_shares_joint [OF run] obtain Sa Sb g c where
    j: "joint ideal (circuit_process hl pl a Net xs xf) (circuit_process hl pl b Net ys yf)
      (Sa, a\<lparr>p_common_prng := c, p_prng := g\<rparr>) (Sb, b\<lparr>p_common_prng := c\<rparr>)"
    and "join_shares Sa Sb = Inr (joined_table xs xf ys yf (bin_keys T ys bins))" by blast
  with joint_outcomes [OF j] circuit_paired_next [OF circuit_runD(1) [OF run]] show ?thesis by blast
qed

theorem circuit_process_correct_witness:
  "\<exists>Sa Sb a' b'. circuit_paired a' b' \<and>
    outcomes toy_duet
      (start (circuit_process toy_hash toy_prng (toy_circuit True) Net [''a''] [[7]])
             (circuit_process toy_hash toy_prng (toy_circuit False) Net [''b'', ''a''] [[8, 9]])) =
      {Conf (Ret (Sa, a')) (Ret (Sb, b')) [] []} \<and>
    join_shares Sa Sb = Inr [[0, 1, 0], [0, 7, 0], [0, 9, 8]]"
proof -
  have "joined_table [''a''] [[7]] [''b'', ''a''] [[8, 9]] (bin_keys toy_tables [''b'', ''a''] 3) =
      [[0, 1, 0], [0, 7, 0], [0, 9, 8]]"
    by (simp add: joined_table_def upt_3 numeral_3_eq_3 bin_key_def toy_tables_def joined_spec_def value_of_def)
  with circuit_process_correct [OF toy_circuit_run] show ?thesis by simp
qed

text \<open>When the parties then swap and join their shares, both end with the table.\<close>

lemma circuit_reveal_joint:
  assumes run: "circuit_run_ok hl pl ideal loc hloc F bins hint_bins T a b xs xf ys yf"
  shows "joint ideal
      (bindp (circuit_process hl pl a Net xs xf) (\<lambda>(shares, self). circuit_reveal Net shares))
      (bindp (circuit_process hl pl b Net ys yf) (\<lambda>(shares, self). circuit_reveal Net shares))
      (joined_table xs xf ys yf (bin_keys T ys bins)) (joined_table xs xf ys yf (bin_keys T ys bins))"
proof -
  from circuit_shares_joint [OF run] obtain Sa Sb g c where
    j: "joint ideal (circuit_process hl pl a Net xs xf) (circuit_process hl pl b Net ys yf)
      (Sa, a\<lparr>p_common_prng := c, p_prng := g\<rparr>) (Sb, b\<lparr>p_common_prng := c\<rparr>)"
    and own: "join_shares Sa Sb = Inr (joined_table xs xf ys yf (bin_keys T ys bins))"
      "join_shares Sb Sa = Inr (joined_table xs xf ys yf (bin_keys T ys bins))"
    and shape: "shaped (length xf + length yf + 1) bins Sa" "shaped (length xf + length yf + 1) bins Sb"
    by blast
  show ?thesis
    unfolding circuit_reveal_def
    by (rule joint_bindp [OF j], simp only: prod.case, rule joint_bindp [OF swap_shares_joint],
        rule shape, rule shape, simp, simp only: own lift_res_simps joint_Ret)
qed

section \<open>Initialisation\<close>

definition circuit_configured ::
  "('j, double) json_lib \<Rightarrow> 'j \<Rightarrow> bool \<Rightarrow> bool \<Rightarrow> double \<Rightarrow> double \<Rightarrow> nat \<Rightarrow> nat \<Rightarrow> bool" where
  "circuit_configured js params verb sender epsilon epsilon_hint fun_num hint_fun_num \<longleftrightarrow>
     get_bool js params ''common'' ''verbose'' = Inr verb \<and>
     get_bool js params ''common'' ''is_sender'' = Inr sender \<and>
     get_double js params ''circuit_psi_params'' ''epsilon'' = Inr epsilon \<and>
     get_double js params ''circuit_psi_params'' ''fun_epsilon'' = Inr epsilon_hint \<and>
     get_size js params ''circuit_psi_params'' ''fun_num'' = Inr fun_num \<and>
     get_size js params ''circuit_psi_params'' ''hint_fun_num'' = Inr hint_fun_num"

lemma circuit_init_joint:
  assumes "circuit_configured js pa va True eps eps_hint k h"
    and "circuit_configured js pb vb False eps eps_hint k h"
    and "\<not> double_ne eps eps" and "\<not> double_ne eps_hint eps_hint" and "k < 2 ^ 64" and "h < 2 ^ 64"
    and "\<And>choices. \<exists>recv send. ideal (Base_Ot_Receive choices) Base_Ot_Send =
           Some (Base_Ot_Received recv, Base_Ot_Sent send)"
    and "ideal (Duet_Setup 0) (Duet_Setup 1) = Some (Duet_Ready, Duet_Ready)"
  shows "\<exists>a b. joint ideal (circuit_init js pl ga Net pa) (circuit_init js pl gb Net pb) a b \<and>
    circuit_paired a b \<and> p_epsilon a = eps \<and> p_epsilon_hint a = eps_hint \<and> p_num_of_fun a = k \<and>
    p_num_of_fun_hint a = h \<and>
    p_prng a = snd (prng_generate pl (snd (prng_generate pl ga 16)) 64) \<and>
    p_common_prng a = prng_create pl (agreed_seed pl ga gb) \<and>
    p_choices a = drawn_choices pl (snd (prng_generate pl ga 16)) \<and>
    ideal (Base_Ot_Receive (p_choices a)) Base_Ot_Send =
      Some (Base_Ot_Received (p_base_recv a), Base_Ot_Sent (p_base_send b))"
proof -
  obtain ra ga' rb gb' where g: "prng_generate pl ga 16 = (ra, ga')" "prng_generate pl gb 16 = (rb, gb')"
    by (metis surj_pair)
  let ?g = "snd (prng_generate pl ga' 64)"
  let ?choices = "drawn_choices pl ga'"
  obtain recv send where ot: "ideal (Base_Ot_Receive ?choices) Base_Ot_Send =
      Some (Base_Ot_Received recv, Base_Ot_Sent send)"
    and ots: "joint ideal (kkrt_setup_ots pl True Net ga') (kkrt_setup_ots pl False Net gb')
      (?choices, recv, [], ?g) ([], [], send, gb')"
    using setup_ots_joint [where ideal = ideal and pl = pl, OF assms(7)] by blast
  let ?seed = "take kRandSeedBytesLen (block_bytes (block_of ra XOR block_of rb))"
  let ?obj = "\<lambda>s v g cs r sd. \<lparr>p_is_sender = s, p_verbose = v, p_prng = g,
      p_common_prng = prng_create pl ?seed, p_choices = cs, p_base_recv = r, p_base_send = sd,
      p_epsilon = eps, p_epsilon_hint = eps_hint, p_num_of_fun = k, p_num_of_fun_hint = h\<rparr>"
  have check: "joint ideal (circuit_check_params True eps eps_hint k h Net)
      (circuit_check_params False eps eps_hint k h Net) () ()"
    unfolding circuit_check_params_def
    by (intro joint_bindp [OF double_param.consistency_agree] joint_bindp [OF size_param.consistency_agree]
          size_param.consistency_agree) (use assms(3-6) in simp_all)
  have duet: "joint ideal (duet_setup True) (duet_setup False) () ()"
    unfolding duet_setup_def by (simp del: One_nat_def, rule joint_call, rule assms(8)) (simp add: joint_Ret)
  have "joint ideal (circuit_init js pl ga Net pa) (circuit_init js pl gb Net pb)
      (?obj True va ?g ?choices recv []) (?obj False vb gb' [] [] send)"
    using assms(1,2) unfolding circuit_configured_def circuit_init_def
    by (simp add: g, intro joint_bindp [OF check] joint_bindp [OF common_seed_joint]
          joint_bindp [OF ots] joint_bindp [OF duet]) (simp add: joint_bindp [OF duet] joint_Ret)
  with ot show ?thesis
    by (intro exI [of _ "?obj True va ?g ?choices recv []"] exI [of _ "?obj False vb gb' [] [] send"])
       (simp add: circuit_paired_def agreed_seed_def g)
qed

text \<open>C26: Parties that agree on the two expansion factors and the two numbers of hash functions, and
  whose base transfers and two-party computation succeed, finish initialisation as a matched
  pair with these parameters and the same common generator, seeded by both parties' draws. The
  sender keeps the choices it drew and what the base transfers returned for them, the receiver the
  pairs of the same run of the transfers.\<close>

theorem circuit_init_agrees:
  assumes "circuit_configured js pa va True eps eps_hint k h"
    and "circuit_configured js pb vb False eps eps_hint k h"
    and "\<not> double_ne eps eps" and "\<not> double_ne eps_hint eps_hint" and "k < 2 ^ 64" and "h < 2 ^ 64"
    and "\<And>choices. \<exists>recv send. ideal (Base_Ot_Receive choices) Base_Ot_Send =
           Some (Base_Ot_Received recv, Base_Ot_Sent send)"
    and "ideal (Duet_Setup 0) (Duet_Setup 1) = Some (Duet_Ready, Duet_Ready)"
  shows "\<exists>a b. circuit_paired a b \<and> p_epsilon a = eps \<and> p_epsilon_hint a = eps_hint \<and>
    p_num_of_fun a = k \<and> p_num_of_fun_hint a = h \<and> p_common_prng a = prng_create pl (agreed_seed pl ga gb) \<and>
    p_choices a = drawn_choices pl (snd (prng_generate pl ga 16)) \<and>
    ideal (Base_Ot_Receive (p_choices a)) Base_Ot_Send =
      Some (Base_Ot_Received (p_base_recv a), Base_Ot_Sent (p_base_send b)) \<and>
    outcomes ideal (start (circuit_init js pl ga Net pa) (circuit_init js pl gb Net pb)) =
      {Conf (Ret a) (Ret b) [] []}"
  using circuit_init_joint [where ideal = ideal and pl = pl and ga = ga and gb = gb, OF assms]
  by (metis (no_types, lifting) joint_outcomes)

text \<open>A configuration is its role.\<close>

definition toy_circuit_json :: "(bool, double) json_lib" where
  "toy_circuit_json = \<lparr>json_parse = (\<lambda>s. True), merge_patch = (\<lambda>d p. p),
     get_bool = (\<lambda>s part name. Inr (name = ''is_sender'' \<and> s)),
     get_int = (\<lambda>_ part name. Inl (Json_Error name)), get_size = (\<lambda>_ part name. Inr 3),
     get_double = (\<lambda>_ part name. Inr 0x3ff451eb851eb852),
     get_string = (\<lambda>_ part name. Inl (Json_Error name))\<rparr>"

theorem circuit_init_agrees_witness:
  "\<exists>a b. circuit_paired a b \<and> p_epsilon a = 0x3ff451eb851eb852 \<and>
    p_epsilon_hint a = 0x3ff451eb851eb852 \<and> p_num_of_fun a = 3 \<and> p_num_of_fun_hint a = 3 \<and>
    p_common_prng a = prng_create toy_prng (agreed_seed toy_prng [5, 6] [7, 8]) \<and>
    p_choices a = drawn_choices toy_prng (snd (prng_generate toy_prng [5, 6] 16)) \<and>
    toy_duet (Base_Ot_Receive (p_choices a)) Base_Ot_Send =
      Some (Base_Ot_Received (p_base_recv a), Base_Ot_Sent (p_base_send b)) \<and>
    outcomes toy_duet (start (circuit_init toy_circuit_json toy_prng [5, 6] Net True)
                             (circuit_init toy_circuit_json toy_prng [7, 8] Net False)) =
      {Conf (Ret a) (Ret b) [] []}"
proof (rule circuit_init_agrees [where k = 3 and h = 3 and va = False and vb = False])
  show "\<not> double_ne 0x3ff451eb851eb852 0x3ff451eb851eb852"
    "\<not> double_ne 0x3ff451eb851eb852 0x3ff451eb851eb852"
    by (simp_all add: double_ne_def decode_def)
qed (simp_all add: circuit_configured_def toy_circuit_json_def)

section \<open>A hint table with a stash\<close>

lemma hint_stash:
  assumes T: "T = run_tables hl pl a bins hint_bins xs ys" and "circuit_paired a b"
    and located: "locate_items bins (t_vals T) = Inr (tloc, concat (t_vals T))"
    and s: "cuckoo_stash_size hl hint_bins (seed_at pl 1 (p_common_prng a)) (p_num_of_fun_hint a)
      (concat (t_vals T)) = s" "0 < s" "s < 2 ^ 64"
  shows "reaches ideal
    (Conf (bindp (circuit_sender_hint hl pl (a\<lparr>p_common_prng := advanced pl 1 (p_common_prng a)\<rparr>) Net
             bins hint_bins (t_vals T) masks) f)
          (bindp (circuit_receiver_hint hl pl (b\<lparr>p_common_prng := advanced pl 1 (p_common_prng a)\<rparr>) Net
             bins hint_bins cvals rmasks) g) [] [])
    (Conf (Throw (Invalid_Argument ''stash of size is not zero.''))
          (Throw (Invalid_Argument ''stash of size is not zero.'')) [] [])"
proof -
  obtain contents g1 where draw: "draw_u64s pl bins (p_prng a) = (contents, g1)" by (metis surj_pair)
  show ?thesis
    unfolding circuit_sender_hint_def circuit_receiver_hint_def
    by (simp add: draw draw_seed(2) located s(1) Let_def check_stash_def s(2) del: advanced.simps One_nat_def,
        rule reaches_send_a, simp, rule reaches_recv_b_all, simp add: size_codec.enc_width [OF s(3)])
       (simp add: size_codec.dec_enc [OF s(3)] s(2))
qed

text \<open>C31: When the table of the sender's hints needs a stash, both parties stop with the same
  exception right after the OPRF, before any garbled table is sent.\<close>

theorem circuit_hint_stash_fails:
  assumes pair: "circuit_paired a b" and oprf: "circuit_oprf_ok ideal F a b"
    and bins: "bins_for (length ys) (p_epsilon a) = Inr bins"
      "hint_bins_for (length xs) (p_num_of_fun a) bins (p_epsilon_hint a) = Inr hint_bins"
    and sizes: "circuit_sizes_ok bins hint_bins (p_num_of_fun a) (p_num_of_fun_hint a) (length xs)
      (length ys) (length xf) (length yf)"
    and T: "T = run_tables hl pl a bins hint_bins (hash_keys hl xs) (hash_keys hl ys)"
    and simple: "simple_table_ok loc bins (p_num_of_fun a) (hash_keys hl xs) (t_vals T) (t_fids T)"
    and cuckoo: "length (t_cvals T) = bins"
    and names: "distinct (concat (map (sender_names (p_num_of_fun a)) (hash_keys hl xs)))"
    and stash: "cuckoo_stash_size hl bins (seed_at pl 0 (p_common_prng a)) (p_num_of_fun a) (hash_keys hl ys) = 0"
    and s: "cuckoo_stash_size hl hint_bins (seed_at pl 1 (p_common_prng a)) (p_num_of_fun_hint a)
      (concat (t_vals T)) = s" "0 < s" "s < 2 ^ 64"
  shows "outcomes ideal (start (circuit_process hl pl a Net xs xf) (circuit_process hl pl b Net ys yf)) =
    {Conf (Throw (Invalid_Argument ''stash of size is not zero.''))
          (Throw (Invalid_Argument ''stash of size is not zero.'')) [] []}"
proof -
  note sz = circuit_sizesD [OF sizes]
  have n: "length xs < 2 ^ 64" "length ys < 2 ^ 64" and small: "bins \<le> 2 ^ 31"
    "p_num_of_fun a * length (hash_keys hl xs) \<le> 2 ^ 31"
    using sizes by (simp_all add: circuit_sizes_ok_def)
  have len: "length (t_vals T) = bins" using simple by (simp add: simple_table_ok_def)
  have "distinct (concat (t_vals T))"
    using table_values_mset [OF simple] names mset_eq_imp_distinct_iff by fastforce
  from locate_items_result [OF len small(1) table_rows_small [OF simple small(2)] this] obtain tloc where
    tloc: "locate_items bins (t_vals T) = Inr (tloc, concat (t_vals T))" by blast
  note oprf_run = circuit_oprf_joint [OF pair oprf T len cuckoo sz(1) stash]
  have cvals: "cuckoo_values hl bins (seed_at pl 0 (p_common_prng a)) (p_num_of_fun a) (hash_keys hl ys) =
      t_cvals T" by (simp add: T run_tables_def Let_def)
  have roles: "p_is_sender a = True" "p_is_sender b = False" "p_num_of_fun b = p_num_of_fun a"
    "p_epsilon b = p_epsilon a" "p_epsilon_hint b = p_epsilon_hint a"
    using pair by (simp_all add: circuit_paired_def)
  show ?thesis
    unfolding start_def circuit_process_def roles
    by (rule outcomes_eqI, rule joint_reaches_seq [OF circuit_sizes_joint [OF n sz(5,6)]],
        simp only: prod.case bins lift_res_simps bindp.simps Let_def if_True if_False,
        rule joint_reaches_seq [OF oprf_run], simp only: prod.case cvals,
        rule hint_stash [OF T pair tloc s]) simp
qed

definition stash_tables :: circuit_tables where
  "stash_tables = run_tables toy_hash toy_prng (toy_circuit True) 3 5
     (hash_keys toy_hash [''a'', ''f'']) (hash_keys toy_hash [''b'', ''a''])"

lemma stash_table_values:
  "t_vals stash_tables = [[toy_item 102], [toy_item 97], []]" "t_fids stash_tables = [[0], [0], []]"
  "length (t_cvals stash_tables) = 3" "hash_keys toy_hash [''a'', ''f''] = [toy_item 97, toy_item 102]"
  by code_simp+

theorem circuit_hint_stash_fails_witness:
  "outcomes toy_duet
     (start (circuit_process toy_hash toy_prng (toy_circuit True) Net [''a'', ''f''] [])
            (circuit_process toy_hash toy_prng (toy_circuit False) Net [''b'', ''a''] [])) =
   {Conf (Throw (Invalid_Argument ''stash of size is not zero.''))
         (Throw (Invalid_Argument ''stash of size is not zero.'')) [] []}"
proof (rule circuit_hint_stash_fails [where bins = 3 and hint_bins = 5 and s = 1])
  show "circuit_paired (toy_circuit True) (toy_circuit False)"
    by (simp add: circuit_paired_def toy_circuit_def)
  show "circuit_oprf_ok toy_duet toy_encode (toy_circuit True) (toy_circuit False)"
    by (simp add: circuit_oprf_ok_def)
  show "bins_for (length [''b'', ''a'']) (p_epsilon (toy_circuit True)) = Inr 3"
    using toy_circuit_bins(1) [unfolded numeral_2_eq_2] by (simp add: toy_circuit_fields)
  show "hint_bins_for (length [''a'', ''f'']) (p_num_of_fun (toy_circuit True)) 3
      (p_epsilon_hint (toy_circuit True)) = Inr 5"
    unfolding hint_bins_for_def bins_for_def
    by (simp add: double_eval size_of_ceil_def size_mul_def toy_circuit_fields)
  show "circuit_sizes_ok 3 5 (p_num_of_fun (toy_circuit True)) (p_num_of_fun_hint (toy_circuit True))
      (length [''a'', ''f'']) (length [''b'', ''a'']) (length []) (length [])"
    by (simp add: circuit_sizes_ok_def toy_circuit_fields max_u64s_def max_vectors_def)
  show "stash_tables = run_tables toy_hash toy_prng (toy_circuit True) 3 5
      (hash_keys toy_hash [''a'', ''f'']) (hash_keys toy_hash [''b'', ''a''])"
    by (simp add: stash_tables_def)
  show "simple_table_ok (toy_loc 3) 3 (p_num_of_fun (toy_circuit True)) (hash_keys toy_hash [''a'', ''f''])
      (t_vals stash_tables) (t_fids stash_tables)"
    unfolding simple_table_ok_def stash_table_values
    by (simp add: table_entries_def upt_3 toy_loc_def keys_xor_fun_def toy_circuit_fields)
  show "distinct (concat (map (sender_names (p_num_of_fun (toy_circuit True)))
      (hash_keys toy_hash [''a'', ''f''])))"
    unfolding stash_table_values by (simp add: sender_names_def keys_xor_fun_def toy_circuit_fields)
  show "cuckoo_stash_size toy_hash 3 (seed_at toy_prng 0 (p_common_prng (toy_circuit True)))
      (p_num_of_fun (toy_circuit True)) (hash_keys toy_hash [''b'', ''a'']) = 0"
    by code_simp
  show "cuckoo_stash_size toy_hash 5 (seed_at toy_prng 1 (p_common_prng (toy_circuit True)))
      (p_num_of_fun_hint (toy_circuit True)) (concat (t_vals stash_tables)) = 1"
    by code_simp
qed (simp_all add: stash_table_values)

section \<open>The shape of what a party returns\<close>

lemma update_share_shaped:
  "update_share f k i v m = Inr m' \<Longrightarrow> shaped rows cols m \<Longrightarrow> shaped rows cols m'"
  by (auto simp: update_share_def res_bind_eq_Inr vec_eq_Inr shaped_def list_all_length nth_list_update)

lemma loop_shaped:
  assumes "for_upto n body m = Inr m'" and "shaped rows cols m"
    and "\<And>i u v. body i u = Inr v \<Longrightarrow> shaped rows cols u \<Longrightarrow> shaped rows cols v"
  shows "shaped rows cols m'"
  using assms for_upto_partial [of n body m m' "\<lambda>_. shaped rows cols"] by blast

lemma init_shares_shaped:
  "init_shares sf rf bins = Inr m \<Longrightarrow> shaped ((sf + rf + 1) mod 2 ^ 64) bins m"
  by (auto simp: init_shares_def Let_def res_bind_eq_Inr shaped_def list_all_length)

lemma share_bits_shaped:
  "share_bits bins h result m = Inr m' \<Longrightarrow> shaped rows cols m \<Longrightarrow> shaped rows cols m'"
  unfolding share_bits_def
  by (erule loop_shaped, assumption, erule loop_shaped, assumption)
     (auto simp: res_bind_eq_Inr intro: update_share_shaped)

lemma add_selected_shaped:
  "add_selected sf ms i j m = Inr m' \<Longrightarrow> shaped rows cols m \<Longrightarrow> shaped rows cols m'"
  unfolding add_selected_def
  by (erule loop_shaped, assumption) (auto simp: res_bind_eq_Inr intro: update_share_shaped)

lemma add_own_shaped:
  "add_own sf rf occ src features i m = Inr m' \<Longrightarrow> shaped rows cols m \<Longrightarrow> shaped rows cols m'"
  unfolding add_own_def
  by (auto simp: res_bind_eq_Inr split: if_splits
      elim!: loop_shaped intro: update_share_shaped)

lemma add_zeros_shaped:
  "for_upto rf (\<lambda>k. update_share (+) (d + k + 1) i 0) m = Inr m' \<Longrightarrow> shaped rows cols m \<Longrightarrow>
     shaped rows cols m'"
  by (erule loop_shaped, assumption) (rule update_share_shaped)

lemma sender_shares_shape:
  "returns (shaped ((sf + rf + 1) mod 2 ^ 64) bins) (circuit_sender_shares bins h sf rf contents fs)"
proof -
  have loop: "returns (shaped rows bins) (lift_res (for_upto bins (\<lambda>i. for_upto h (\<lambda>j shares.
      res_bind (add_selected sf ms i j shares) (for_upto rf (\<lambda>k. update_share (+) (sf + k + 1) i 0)))) m))"
    if "shaped rows bins m" for rows ms m
    by (rule returns_lift_res, erule loop_shaped, rule that, erule loop_shaped, assumption)
       (auto simp: res_bind_eq_Inr dest!: add_selected_shaped elim: add_zeros_shaped [simplified])
  show ?thesis
    unfolding circuit_sender_shares_def
    by (rule returns_after, rule returns_bindp [OF returns_lift_res], erule init_shares_shaped,
        rule returns_bindp [OF returns_lift_res], erule (1) share_bits_shaped)
       (split if_split, intro conjI impI, rule returns_after, erule loop, simp)
qed

lemma receiver_shares_shape:
  "returns (shaped ((sf + rf + 1) mod 2 ^ 64) bins)
     (circuit_receiver_shares bins h sf rf content contents occ src features)"
proof -
  have loop: "returns (shaped rows bins) (lift_res (for_upto bins (\<lambda>i shares.
      res_bind (for_upto h (\<lambda>j. add_selected sf ms i j) shares) (add_own sf rf occ src features i)) m))"
    if "shaped rows bins m" for rows ms m
  proof (rule returns_lift_res, erule loop_shaped, rule that)
    fix i u v
    assume "res_bind (for_upto h (\<lambda>j. add_selected sf ms i j) u) (add_own sf rf occ src features i) = Inr v"
      and u: "shaped rows bins u"
    then obtain w where w: "for_upto h (\<lambda>j. add_selected sf ms i j) u = Inr w"
      "add_own sf rf occ src features i w = Inr v" by (auto simp: res_bind_eq_Inr)
    from w(1) u have "shaped rows bins w" by (rule loop_shaped) (rule add_selected_shaped)
    with w(2) show "shaped rows bins v" by (rule add_own_shaped)
  qed
  show ?thesis
    unfolding circuit_receiver_shares_def
    by (rule returns_after, rule returns_after, rule returns_bindp [OF returns_lift_res],
        erule init_shares_shaped, rule returns_bindp [OF returns_lift_res], erule (1) share_bits_shaped)
       (auto intro!: returns_after loop)
qed

end
