(* ===== verification/Sessions.thy ===== *)
theory Sessions
  imports Examples Ecdh_Properties Kkrt_Properties Csv_Properties
begin

text \<open>
  Whole sessions of the example programs: from the input files of two configured parties to
  their output files, through the CSV source, initialisation, the protocol and the sink.
\<close>

section \<open>Reading and storing keys\<close>

lemma example_file_keys_result:
  assumes "get_string js params ''data'' ''input_file'' = Inr path"
    and "get_bool js params ''data'' ''has_header'' = Inr h"
    and "get_size js params ''common'' ''ids_num'' = Inr k"
    and "path \<noteq> []" and "fs path = Some content" and "content \<noteq> []"
    and "length content \<le> max_strings" and "\<forall>l\<in>set (pieces newline content). l \<noteq> []"
    and "length (data_rows h content) \<le> kBatchSize"
  shows "example_file_keys js fs params = Inr (data_rows h content)"
proof -
  have rows: "row_count h content = length (data_rows h content)"
    using assms(8,6) by (rule no_blank_count)
  have "\<forall>l\<in>set (data_rows h content). l \<noteq> []"
    using assms(8,6) by (cases "pieces newline content") (auto simp: data_rows_def)
  then have "filter (\<lambda>l. l \<noteq> []) (data_rows h content) = data_rows h content" by simp
  with read_opened [OF assms(6,7), of h "[kBatchSize]" k "[]"] assms(9) rows
  obtain self' where "get_next_batch kBatchSize (opened h k content) [] = Inr (self', data_rows h content)"
    by (auto simp: fetch_batches_def)
  with assms(1-3) csv_open_result [of path fs content h k, OF assms(4,5)] show ?thesis
    by (simp add: example_file_keys_def)
qed

text \<open>The result file: one key per line.\<close>

lemma store_keys:
  assumes "writable path"
  shows "write_data_to_file writable fs [zs] [] path False [] =
    Inr (fs(path \<mapsto> concat (map (\<lambda>z. z @ [newline]) zs)))"
proof -
  let ?g = "\<lambda>j. concat (map (\<lambda>z. z @ [newline]) (take j zs))"
  have "for_upto (length zs) (write_row [zs] []) (?g 0) = Inr (?g (length zs))"
    by (rule for_upto_trace [where g = ?g])
       (simp add: write_row_def for_upto_Suc take_Suc_conv_app_nth)
  with assms show ?thesis by (simp add: write_data_to_file_def)
qed

lemma statistics_joint:
  assumes "c < 2 ^ 64" and "d < 2 ^ 64"
  shows "joint ideal (exchange_statistics True Net c) (exchange_statistics False Net d) d c"
proof -
  have "joint ideal (bindp (recv_data Net 8) (\<lambda>b. Ret (size_t_of b)))
      (bindp (send_data Net (size_t_bytes d)) (\<lambda>_. Ret (size_t_of (size_t_bytes c)))) d c"
    by (rule joint_bindp [OF joint_recv_send [OF size_codec.enc_width]])
       (use assms in \<open>simp_all add: size_codec.dec_enc joint_Ret\<close>)
  from joint_bindp [OF joint_send_recv [OF size_codec.enc_width [OF assms(1)]], where f = "\<lambda>_. bindp (recv_data Net 8) (\<lambda>b. Ret (size_t_of b))"
      and g = "\<lambda>b. bindp (send_data Net (size_t_bytes d)) (\<lambda>_. Ret (size_t_of b))", OF this]
  show ?thesis unfolding exchange_statistics_def if_True if_False .
qed

section \<open>A session of ECDH PSI\<close>

text \<open>
  What a party's configuration and file system provide: its role, the network entries, an
  input file without blank lines whose rows are \<open>keys\<close>, the entry that says whether the result
  is stored, and where it goes.
\<close>

definition session_ok ::
  "('j, 'd) json_lib \<Rightarrow> 'j \<Rightarrow> (string \<Rightarrow> bool) \<Rightarrow> (string \<Rightarrow> string option) \<Rightarrow> bool \<Rightarrow>
     string \<times> string \<Rightarrow> bool \<Rightarrow> string list \<Rightarrow> string \<Rightarrow> bool" where
  "session_ok js params writable fs sender flag obtain keys output_path \<longleftrightarrow>
     get_bool js params ''common'' ''is_sender'' = Inr sender \<and>
     example_network js params = Inr () \<and>
     (\<exists>path h k content.
        get_string js params ''data'' ''input_file'' = Inr path \<and>
        get_bool js params ''data'' ''has_header'' = Inr h \<and>
        get_size js params ''common'' ''ids_num'' = Inr k \<and>
        path \<noteq> [] \<and> fs path = Some content \<and> content \<noteq> [] \<and> length content \<le> max_strings \<and>
        (\<forall>l\<in>set (pieces newline content). l \<noteq> []) \<and> length (data_rows h content) \<le> kBatchSize \<and>
        keys = data_rows h content) \<and>
     get_bool js params (fst flag) (snd flag) = Inr obtain \<and>
     get_string js params ''data'' ''output_file'' = Inr output_path \<and> writable output_path"

definition stored ::
  "bool \<Rightarrow> (string \<Rightarrow> string option) \<Rightarrow> string \<Rightarrow> string list \<Rightarrow> string \<Rightarrow> string option" where
  "stored obtain fs output_path keys =
     (if obtain then fs(output_path \<mapsto> concat (map (\<lambda>z. z @ [newline]) keys)) else fs)"

lemma session_okD:
  assumes "session_ok js params writable fs sender flag obtain keys output_path"
  shows "get_bool js params ''common'' ''is_sender'' = Inr sender" "example_network js params = Inr ()"
    "example_keys js fs params From_File = Inr keys" "length keys \<le> kBatchSize"
    "store_result js writable fs params (fst flag) (snd flag) zs =
       Inr (stored obtain fs output_path zs)"
  using assms example_file_keys_result store_keys [of writable output_path]
  by (auto simp: session_ok_def example_keys_def store_result_def stored_def)

text \<open>The entries of the two PSI sessions.\<close>

abbreviation "ecdh_flag \<equiv> (''ecdh_params'', ''obtain_result'')"
abbreviation "kkrt_flag \<equiv> (''kkrt_params'', ''sender_obtain_result'')"

lemma example_keys_sendable: "length (keys :: string list) \<le> kBatchSize \<Longrightarrow> key_count_ok (length keys)"
  by (simp add: kBatchSize_def key_count_ok_def defines_simps max_bytes_def)

text \<open>C5: A whole ECDH PSI session from files: two configured parties whose input files have no
  blank lines end, under every interleaving, with the keys of their file that the peer's file
  also has, in file order, for each party that asked for the result, with that result as the
  only change to its file system, and with the total of the bytes both sent.\<close>

theorem ecdh_session_correct:
  assumes "session_ok js pa wa fa True ecdh_flag oa xs outa"
    and "session_ok js pb wb fb False ecdh_flag ob ys outb"
    and "ecdh_configured js pa va True oa 415" and "ecdh_configured js pb vb False ob 415"
    and "ec_ok (nc 415)" and "uniform_ok draw"
    and "no_collision (ecdh_object (nc 415) ka ta va True oa ob) (ecdh_object (nc 415) kb tb vb False ob oa) xs ys"
    and "xs \<noteq> []" and "ys \<noteq> []" and "ca < 2 ^ 64" and "cb < 2 ^ 64"
  shows "outcomes ideal
      (start (ecdh_psi_example js nc ka ta draw g wa fa Net pa From_File ca)
             (ecdh_psi_example js nc kb tb draw h wb fb Net pb From_File cb)) =
    {Conf (Ret (if oa then intersection xs ys else [],
                stored oa fa outa (intersection xs ys), (ca + cb) mod 2 ^ 64))
          (Ret (if ob then intersection ys xs else [],
                stored ob fb outb (intersection ys xs), (cb + ca) mod 2 ^ 64)) [] []}"
proof (rule joint_outcomes)
  let ?a = "ecdh_object (nc 415) ka ta va True oa ob"
  let ?b = "ecdh_object (nc 415) kb tb vb False ob oa"
  note A = session_okD [OF assms(1)] and B = session_okD [OF assms(2)]
  from ecdh_process_joint [OF assms(6) ecdh_objects_paired [OF assms(5)] example_keys_sendable [OF A(4)]
      example_keys_sendable [OF B(4)] assms(7), of ideal g h] obtain sa sb where
    run: "joint ideal (ecdh_process draw g ?a Net xs) (ecdh_process draw h ?b Net ys)
      (ecdh_result oa xs ys sa) (ecdh_result ob ys xs sb)" by (auto simp: ecdh_object_def)
  have res: "ecdh_result o' us vs s = (if o' then intersection us vs else [])"
    if "us \<noteq> []" "vs \<noteq> []" for o' us vs s
    using that by (simp add: ecdh_result_def)
  have store: "lift_res (store_result js w fs p ''ecdh_params'' ''obtain_result''
      (if o' then intersection us vs else [])) = Ret (stored o' fs out (intersection us vs))"
    if "session_ok js p w fs s ecdh_flag o' ks out" for p w fs s o' ks out us vs
    using session_okD(5) [OF that, of "if o' then intersection us vs else []"] by (simp add: stored_def)
  show "joint ideal (ecdh_psi_example js nc ka ta draw g wa fa Net pa From_File ca)
      (ecdh_psi_example js nc kb tb draw h wb fb Net pb From_File cb)
      (if oa then intersection xs ys else [],
       stored oa fa outa (intersection xs ys), (ca + cb) mod 2 ^ 64)
      (if ob then intersection ys xs else [],
       stored ob fb outb (intersection ys xs), (cb + ca) mod 2 ^ 64)"
    unfolding ecdh_psi_example_def A(1,2,3) B(1,2,3) lift_res_simps bindp.simps Let_def
      ecdh_preprocess_data_def source.case
    by (rule joint_bindp [OF ecdh_init_joint [OF assms(3,4)]], rule joint_bindp [OF run])
       (simp add: res assms(8,9) store [OF assms(1)] store [OF assms(2)]
         joint_bindp [OF statistics_joint [OF assms(10,11)]] joint_Ret)
qed

text \<open>
  A configuration is its role and result flag, and whether it has the group \<open>kkrt_params\<close>; the file
  names are the names of the entries.
\<close>

definition session_json :: "(bool \<times> bool \<times> bool, double) json_lib" where
  "session_json = \<lparr>json_parse = (\<lambda>_. (True, True, False)), merge_patch = (\<lambda>_ p. p),
     get_bool = (\<lambda>(s, ob, kk) group name.
        if group = ''kkrt_params'' \<and> \<not> kk then Inl (Json_Error name)
        else Inr (if name = ''is_sender'' then s
          else if name = ''obtain_result'' \<or> name = ''sender_obtain_result'' then ob else False)),
     get_int = (\<lambda>_ group name. Inr 415),
     get_size = (\<lambda>_ group name. Inr (if name = ''fun_num'' then 2 else 1)),
     get_double = (\<lambda>_ group name. Inr 0x3ff8000000000000),
     get_string = (\<lambda>_ group name. Inr name)\<rparr>"

definition session_files :: "string list \<Rightarrow> string \<Rightarrow> string option" where
  "session_files keys = [''input_file'' \<mapsto> concat (map (\<lambda>k. k @ [newline]) keys)]"

lemma session_json_configured: "ecdh_configured session_json (s, ob, kk) False s ob 415"
  by (simp add: ecdh_configured_def session_json_def)

lemma session_json_ok:
  "session_ok session_json (True, True, False) (\<lambda>_. True) (session_files [''c'', ''h'', ''e'']) True ecdh_flag True
     [''c'', ''h'', ''e''] ''output_file''"
  "session_ok session_json (False, False, False) (\<lambda>_. True) (session_files [''b'', ''c'', ''e'', ''g'']) False ecdh_flag False
     [''b'', ''c'', ''e'', ''g''] ''output_file''"
  by (simp_all add: session_ok_def session_json_def session_files_def example_network_def
      data_rows_def kBatchSize_def max_strings_def) (blast intro: exI [of _ False])+

theorem ecdh_session_correct_witness:
  "outcomes (\<lambda>_ _. None :: (unit \<times> unit) option)
     (start (ecdh_psi_example session_json (\<lambda>_. toy_curve) 3 4 replay [1, 0] (\<lambda>_. True)
               (session_files [''c'', ''h'', ''e'']) Net (True, True, False) From_File 300)
            (ecdh_psi_example session_json (\<lambda>_. toy_curve) 5 4 replay [0, 2, 1] (\<lambda>_. True)
               (session_files [''b'', ''c'', ''e'', ''g'']) Net (False, False, False) From_File 500)) =
   {Conf (Ret ([''c'', ''e''],
               (session_files [''c'', ''h'', ''e''])(''output_file'' \<mapsto> ''c'' @ [newline] @ ''e'' @ [newline]),
               800))
         (Ret ([], session_files [''b'', ''c'', ''e'', ''g''], 800)) [] []}"
  by (subst ecdh_session_correct [OF session_json_ok session_json_configured session_json_configured
        toy_curve_ok uniform_ok_replay toy_no_collision [unfolded toy_party_def]])
     (simp_all add: intersection_def stored_def)

section \<open>A session of KKRT PSI\<close>

text \<open>C6: When the configuration has the entry that the KKRT session reads its flag from, a whole
  session from files works: with the objects \<open>a\<close> and \<open>b\<close> that initialisation ends with, and tables
  that leave no stash, both parties end, under every interleaving, with the intersection in the
  receiver's order, the sender only if it obtains the result, each with the file it asked for
  and with the total of the bytes both sent.\<close>

theorem kkrt_session_correct:
  assumes "session_ok js pa wa fa True kkrt_flag oa xs outa"
    and "session_ok js pb wb fb False kkrt_flag ob ys outb"
    and init: "outcomes ideal (start (kkrt_init js pl ga Net pa) (kkrt_init js pl gb Net pb)) =
      {Conf (Ret a) (Ret b) [] []}"
    and run: "kkrt_run_ok hl pl ideal loc F bins a b xs ys" "no_stash hl pl bins a ys"
      "kkrt_no_collision hl loc F (k_num_of_fun a) xs ys"
    and flags: "k_sender_obtain_result a = k_sender_obtain_result b" and "transferable ys"
    and comm: "ca < 2 ^ 64" "cb < 2 ^ 64"
  shows "outcomes ideal
      (start (kkrt_psi_example js hl pl ga wa fa Net pa From_File ca)
             (kkrt_psi_example js hl pl gb wb fb Net pb From_File cb)) =
    (let sent = (if k_sender_obtain_result a then intersection ys xs else []) in
    {Conf (Ret (sent, stored oa fa outa sent, (ca + cb) mod 2 ^ 64))
          (Ret (intersection ys xs, stored ob fb outb (intersection ys xs), (cb + ca) mod 2 ^ 64))
          [] []})"
proof -
  let ?sent = "if k_sender_obtain_result a then intersection ys xs else []"
  note A = session_okD [OF assms(1), unfolded fst_conv snd_conv]
  note B = session_okD [OF assms(2), unfolded fst_conv snd_conv]
  from kkrt_process_joint [OF run flags assms(8), of "[]" "[]"] obtain g where
    process: "joint ideal (kkrt_process hl pl a Net xs []) (kkrt_process hl pl b Net ys [])
      (?sent, a\<lparr>k_prng := g, k_common_prng := next_common pl a\<rparr>)
      (intersection ys xs, b\<lparr>k_common_prng := next_common pl a\<rparr>)" by blast
  have "joint ideal (kkrt_psi_example js hl pl ga wa fa Net pa From_File ca)
      (kkrt_psi_example js hl pl gb wb fb Net pb From_File cb)
      (?sent, stored oa fa outa ?sent, (ca + cb) mod 2 ^ 64)
      (intersection ys xs, stored ob fb outb (intersection ys xs), (cb + ca) mod 2 ^ 64)"
    unfolding kkrt_psi_example_def A(1,2,3) B(1,2,3) lift_res_simps bindp.simps Let_def
      kkrt_preprocess_data_def source.case
    by (rule joint_bindp [OF outcomes_joint [OF init]], rule joint_bindp [OF process],
        unfold prod.case source.case A(5) B(5) lift_res_simps bindp.simps,
        rule joint_bindp [OF statistics_joint [OF comm]]) (rule joint_Ret)
  from joint_outcomes [OF this] show ?thesis by (simp only: Let_def)
qed

lemma session_json_kkrt_ok:
  "session_ok session_json (True, True, True) (\<lambda>_. True) (session_files toy_xs) True kkrt_flag True toy_xs ''output_file''"
  "session_ok session_json (False, True, True) (\<lambda>_. True) (session_files toy_ys) False kkrt_flag True toy_ys ''output_file''"
  by (simp_all add: session_ok_def session_json_def session_files_def example_network_def
      data_rows_def kBatchSize_def max_strings_def) (blast intro: exI [of _ False])+

lemma session_kkrt_init:
  "\<exists>a b. outcomes toy_verse
      (start (kkrt_init session_json toy_prng [5, 6] Net (True, True, w))
             (kkrt_init session_json toy_prng [7, 8] Net (False, True, w))) =
      {Conf (Ret a) (Ret b) [] []} \<and> kkrt_paired a b \<and> k_num_of_fun a = 2 \<and>
    k_epsilon a = 0x3ff8000000000000 \<and> k_sender_obtain_result a \<and> k_sender_obtain_result b"
proof -
  have "kkrt_configured session_json (s, True, w) False s 0x3ff8000000000000 2 True" for s
    by (simp add: kkrt_configured_def session_json_def)
  note configured = this
  have "\<not> double_ne 0x3ff8000000000000 0x3ff8000000000000" by (simp add: double_ne_def decode_def)
  from kkrt_init_joint [where ideal = toy_verse and pl = toy_prng and ga = "[5, 6]" and gb = "[7, 8]",
      OF configured configured this] obtain a b where
    ab: "joint toy_verse (kkrt_init session_json toy_prng [5, 6] Net (True, True, w))
      (kkrt_init session_json toy_prng [7, 8] Net (False, True, w)) a b"
    "kkrt_paired a b" "k_sender_obtain_result a" "k_sender_obtain_result b"
    "k_num_of_fun a = 2" "k_epsilon a = 0x3ff8000000000000" by auto
  from joint_outcomes [OF ab(1)] ab(2-6) show ?thesis by (intro exI [of _ a] exI [of _ b]) simp
qed

lemma toy_session_run:
  assumes "kkrt_paired a b" and "k_num_of_fun a = 2" and "k_epsilon a = 0x3ff8000000000000"
  shows "kkrt_run_ok toy_hash toy_prng toy_verse (toy_loc 3) toy_encode 3 a b toy_xs toy_ys"
    and "no_stash toy_hash toy_prng 3 a toy_ys"
    and "kkrt_no_collision toy_hash (toy_loc 3) toy_encode (k_num_of_fun a) toy_xs toy_ys"
proof -
  show "kkrt_run_ok toy_hash toy_prng toy_verse (toy_loc 3) toy_encode 3 a b toy_xs toy_ys"
    using assms toy_uniform toy_bins [unfolded numeral_2_eq_2] toy_tables
    by (simp add: kkrt_run_ok_def kkrt_sizes_ok_def max_vectors_def oprf_ok_def)
  have "cuckoo_stash_size toy_hash 3 seed 2 (hash_keys toy_hash toy_ys) = 0" for seed by code_simp
  with assms(2) show "no_stash toy_hash toy_prng 3 a toy_ys" by (simp add: no_stash_def)
  show "kkrt_no_collision toy_hash (toy_loc 3) toy_encode (k_num_of_fun a) toy_xs toy_ys"
    using toy_nc assms(2) by simp
qed

theorem kkrt_session_correct_witness:
  "outcomes toy_verse
     (start (kkrt_psi_example session_json toy_hash toy_prng [5, 6] (\<lambda>_. True) (session_files toy_xs) Net
               (True, True, True) From_File 300)
            (kkrt_psi_example session_json toy_hash toy_prng [7, 8] (\<lambda>_. True) (session_files toy_ys) Net
               (False, True, True) From_File 500)) =
   {Conf (Ret ([''a''], (session_files toy_xs)(''output_file'' \<mapsto> ''a'' @ [newline]), 800))
         (Ret ([''a''], (session_files toy_ys)(''output_file'' \<mapsto> ''a'' @ [newline]), 800)) [] []}"
proof -
  from session_kkrt_init [of True] obtain a b where init: "outcomes toy_verse
      (start (kkrt_init session_json toy_prng [5, 6] Net (True, True, True))
             (kkrt_init session_json toy_prng [7, 8] Net (False, True, True))) =
      {Conf (Ret a) (Ret b) [] []}"
    and ab: "kkrt_paired a b" "k_num_of_fun a = 2" "k_epsilon a = 0x3ff8000000000000"
      "k_sender_obtain_result a" "k_sender_obtain_result b" by blast
  from ab(4,5) toy_transferable toy_session_run [OF ab(1-3)] show ?thesis
    by (subst kkrt_session_correct [OF session_json_kkrt_ok init])
       (simp_all add: toy_intersection stored_def Let_def)
qed

section \<open>A KKRT session from files cannot finish\<close>

text \<open>C40: The KKRT session looks its result flag up under \<open>kkrt_params\<close>, while initialisation reads
  it from \<open>kkrt_psi_params\<close>: when the configuration has no entry under the former, a session from
  files never returns, whatever the peer does.\<close>

theorem kkrt_example_cannot_finish:
  assumes "get_bool js params ''kkrt_params'' ''sender_obtain_result'' = Inl e"
  shows "Conf (Ret r) q' ab ba \<notin>
    outcomes ideal (start (kkrt_psi_example js hl pl g writable fs net params From_File c) q)"
proof
  have "returns (\<lambda>_. False) (kkrt_psi_example js hl pl g writable fs net params From_File c)"
    unfolding kkrt_psi_example_def Let_def
    by (intro returns_after) (auto simp: store_result_def assms intro!: returns_after)
  from returns_outcome [OF this]
  show "Conf (Ret r) q' ab ba \<in>
    outcomes ideal (start (kkrt_psi_example js hl pl g writable fs net params From_File c) q) \<Longrightarrow> False" .
qed

text \<open>The configurations of the witness lack the group, but the two parties initialise.\<close>

theorem kkrt_example_cannot_finish_witness:
  "(\<exists>a b. outcomes toy_verse
      (start (kkrt_init session_json toy_prng [5, 6] Net (True, True, False))
             (kkrt_init session_json toy_prng [7, 8] Net (False, True, False))) =
      {Conf (Ret a) (Ret b) [] []}) \<and>
   \<not> (\<exists>r q' ab ba. Conf (Ret r) q' ab ba \<in> outcomes toy_verse
      (start (kkrt_psi_example session_json toy_hash toy_prng [5, 6] (\<lambda>_. True) (session_files toy_xs) Net
                (True, True, False) From_File 0)
             (kkrt_psi_example session_json toy_hash toy_prng [7, 8] (\<lambda>_. True) (session_files toy_ys) Net
                (False, True, False) From_File 0)))"
proof -
  have "get_bool session_json (True, True, False) ''kkrt_params'' ''sender_obtain_result'' =
      Inl (Json_Error ''sender_obtain_result'')" by (simp add: session_json_def)
  note missing = kkrt_example_cannot_finish [OF this]
  have "\<exists>a b. outcomes toy_verse
      (start (kkrt_init session_json toy_prng [5, 6] Net (True, True, False))
             (kkrt_init session_json toy_prng [7, 8] Net (False, True, False))) =
      {Conf (Ret a) (Ret b) [] []}" using session_kkrt_init [of False] by blast
  then show ?thesis by (rule conjI) (simp only: missing not_ex simp_thms)
qed

section \<open>Sessions on made-up keys\<close>

text \<open>On the made-up keys of the command line, with a ratio of at least one, both parties hold
  the same \<open>intersection_size\<close> keys first, whatever their own generators yield, then keys of
  their own, and altogether \<open>intersection_ratio\<close> times as many, all of the documented shape.\<close>

lemma example_random_keys_common:
  assumes "0 < ratio" and "ratio * n \<le> (2 ^ 63 - 1) div 32"
  shows "\<exists>common ka kb ga' gb'.
    example_random_keys sample create ga n ratio = Inr (common @ ka, ga') \<and>
    example_random_keys sample create gb n ratio = Inr (common @ kb, gb') \<and>
    length common = n \<and> length (common @ ka) = ratio * n \<and> length (common @ kb) = ratio * n \<and>
    list_all (key_shape ''0'') (common @ ka @ kb)"
proof -
  have le: "n \<le> ratio * n" using assms(1) by simp
  have n: "n \<le> (2 ^ 63 - 1) div 32" using le assms(2) by (rule order_trans)
  with assms(2) have small: "ratio * n < 2 ^ 64" "n < 2 ^ 64" "n \<le> (2 ^ 63 - 1) div 32"
    "ratio * n - n \<le> (2 ^ 63 - 1) div 32" by simp_all
  have "(ratio * n + 2 ^ 64 - n) mod 2 ^ 64 = (ratio * n - n + 2 ^ 64) mod 2 ^ 64" using le by simp
  also have "\<dots> = ratio * n - n" using small(1) by simp
  finally have sub: "size_sub (size_mul ratio n) n = ratio * n - n"
    using small(1,2) by (simp add: size_mul_def size_sub_def)
  from generate_random_keys_shape [OF small(3), of sample "''0''" "[]" "create (replicate 16 0)"] obtain common g where
    c: "generate_random_keys sample n ''0'' [] (create (replicate 16 0)) = Inr (common, g)"
      "length common = n" "list_all (key_shape ''0'') common" by auto
  have own: "\<exists>ks h'. generate_random_keys sample (ratio * n - n) ''0'' [] h = Inr (ks, h') \<and>
      length ks = ratio * n - n \<and> list_all (key_shape ''0'') ks" for h
    using generate_random_keys_shape [OF small(4), of sample "''0''" "[]" h] by simp
  from own [of ga] own [of gb] obtain ka ga' kb gb' where
    "generate_random_keys sample (ratio * n - n) ''0'' [] ga = Inr (ka, ga')"
    "length ka = ratio * n - n" "list_all (key_shape ''0'') ka"
    "generate_random_keys sample (ratio * n - n) ''0'' [] gb = Inr (kb, gb')"
    "length kb = ratio * n - n" "list_all (key_shape ''0'') kb" by blast
  with c le show ?thesis
    by (intro exI [of _ common] exI [of _ ka] exI [of _ kb] exI [of _ ga'] exI [of _ gb'])
       (simp add: example_random_keys_def sub Let_def)
qed

end
