(* ===== verification/Timing.thy ===== *)
theory Timing
  imports Prelude "HOL-Library.Signed_Division"
begin

text \<open>
  \<open>util/time.h\<close>: the time the example programs log. The clock is a parameter: a function from
  its state to a reading and the state after it. A reading is a number of nanoseconds, the period
  of \<open>std::chrono::high_resolution_clock\<close> in the standard library the project is built with; that
  clock is not steady, so a later reading may be smaller.
\<close>

definition nanoseconds_per_microsecond :: int where "nanoseconds_per_microsecond = 1000"

definition clock_start :: "('c \<Rightarrow> int \<times> 'c) \<Rightarrow> 'c \<Rightarrow> int \<times> 'c" where
  "clock_start now clock = now clock"

text \<open>\<open>duration_cast\<close> rounds towards zero.\<close>

definition time_from :: "('c \<Rightarrow> int \<times> 'c) \<Rightarrow> int \<Rightarrow> 'c \<Rightarrow> int \<times> 'c" where
  "time_from now start clock =
     (let (t, clock') = now clock in ((t - start) sdiv nanoseconds_per_microsecond, clock'))"

lemma time_from_bounds:
  assumes "now clock = (t, clock')" and "start \<le> t"
  shows "\<exists>us. time_from now start clock = (us, clock') \<and> 0 \<le> us \<and>
    1000 * us \<le> t - start \<and> t - start < 1000 * (us + 1)"
proof (cases "t = start")
  case True
  with assms(1) show ?thesis by (simp add: time_from_def nanoseconds_per_microsecond_def)
next
  case False
  have "1000 * (d div 1000) \<le> d" "d < 1000 * (d div 1000 + 1)" for d :: int by presburger+
  note this [of "t - start"]
  moreover have "sgn (t - start) = 1" "0 \<le> (t - start) div 1000" using False assms(2) by (simp_all add: pos_imp_zdiv_nonneg_iff)
  ultimately show ?thesis
    using assms(1) by (simp add: time_from_def nanoseconds_per_microsecond_def signed_divide_int_def)
qed

lemma time_from_set_back:
  assumes "now clock = (t, clock')" and "t < start"
  shows "\<exists>us. time_from now start clock = (us, clock') \<and> us \<le> 0"
  using assms by (auto simp: time_from_def nanoseconds_per_microsecond_def signed_divide_int_def sgn_if)

end
