(* ===== verification/Psi_Interface.thy ===== *)
theory Psi_Interface
  imports Ecdh_Psi Kkrt_Psi Factory
begin

text \<open>
  \<open>psi/psi.h\<close>: the abstract class \<open>PSI\<close> behind which a client uses a scheme. An object of the
  class is one of the two schemes; a call of a virtual function goes to the scheme's own. What
  the schemes take from libraries and from the random device of a party comes in two records.
\<close>

record ('j, 'pt, 'sk, 'k, 'g, 'r) psi_libs =
  l_json :: "('j, double) json_lib"
  l_cipher :: "int \<Rightarrow> ('pt, 'sk, 'k) ec_openssl"
  l_shuffle :: "'g uniform"
  l_hash :: hash_lib
  l_prng :: "'r prng_lib"

record ('k, 'g, 'r) psi_seeds =
  s_key_prng :: 'k
  s_threads :: nat
  s_shuffle :: 'g
  s_prng :: 'r

datatype ('pt, 'sk, 'k, 'r) psi =
    Ecdh_Instance "('pt, 'sk, 'k) ecdh_psi"
  | Kkrt_Instance "'r kkrt_psi"

definition psi_init ::
  "('j, 'pt, 'sk, 'k, 'g, 'r) psi_libs \<Rightarrow> ('k, 'g, 'r) psi_seeds \<Rightarrow> psi_object \<Rightarrow> net \<Rightarrow> 'j \<Rightarrow>
     ('pt, 'sk, 'k, 'r) psi verse_proc" where
  "psi_init libs seeds object net params =
     (case object of
        Ecdh_Psi_Object \<Rightarrow>
          bindp (ecdh_init (l_json libs) (l_cipher libs) (s_key_prng seeds) (s_threads seeds) net params)
            (\<lambda>self. Ret (Ecdh_Instance self))
      | Kkrt_Psi_Object \<Rightarrow>
          bindp (kkrt_init (l_json libs) (l_prng libs) (s_prng seeds) net params)
            (\<lambda>self. Ret (Kkrt_Instance self)))"

definition psi_preprocess_data ::
  "('pt, 'sk, 'k, 'r) psi \<Rightarrow> net \<Rightarrow> string list \<Rightarrow> string list \<Rightarrow> string list" where
  "psi_preprocess_data self net input_keys preprocessed_keys =
     (case self of
        Ecdh_Instance p \<Rightarrow> ecdh_preprocess_data p net input_keys preprocessed_keys
      | Kkrt_Instance p \<Rightarrow> kkrt_preprocess_data p net input_keys preprocessed_keys)"

text \<open>\<open>g\<close> is the state of the fresh generator an ECDH run shuffles with.\<close>

definition psi_process ::
  "('j, 'pt, 'sk, 'k, 'g, 'r) psi_libs \<Rightarrow> 'g \<Rightarrow> ('pt, 'sk, 'k, 'r) psi \<Rightarrow> net \<Rightarrow> string list \<Rightarrow>
     string list \<Rightarrow> (string list \<times> ('pt, 'sk, 'k, 'r) psi) verse_proc" where
  "psi_process libs g self net input_keys output_keys =
     (case self of
        Ecdh_Instance p \<Rightarrow>
          bindp (ecdh_process (l_shuffle libs) g p net input_keys) (\<lambda>out. Ret (out, self))
      | Kkrt_Instance p \<Rightarrow>
          bindp (kkrt_process (l_hash libs) (l_prng libs) p net input_keys output_keys)
            (\<lambda>(out, p'). Ret (out, Kkrt_Instance p')))"

definition psi_process_cardinality_only ::
  "('j, 'pt, 'sk, 'k, 'g, 'r) psi_libs \<Rightarrow> 'g \<Rightarrow> ('pt, 'sk, 'k, 'r) psi \<Rightarrow> net \<Rightarrow> string list \<Rightarrow>
     (nat \<times> ('pt, 'sk, 'k, 'r) psi) verse_proc" where
  "psi_process_cardinality_only libs g self net input_keys =
     (case self of
        Ecdh_Instance p \<Rightarrow>
          bindp (ecdh_process_cardinality_only (l_shuffle libs) g p net input_keys)
            (\<lambda>count. Ret (count, self))
      | Kkrt_Instance p \<Rightarrow>
          bindp (kkrt_process_cardinality_only (l_hash libs) (l_prng libs) p net input_keys)
            (\<lambda>(count, p'). Ret (count, Kkrt_Instance p')))"

text \<open>A client of the factory: build, initialise, preprocess, run.\<close>

definition psi_client ::
  "('j, 'pt, 'sk, 'k, 'g, 'r) psi_libs \<Rightarrow> ('k, 'g, 'r) psi_seeds \<Rightarrow> psi_scheme \<Rightarrow> net \<Rightarrow> 'j \<Rightarrow>
     string list \<Rightarrow> string list verse_proc" where
  "psi_client libs seeds scheme net params keys =
     bindp (lift_res (build_psi scheme)) (\<lambda>object.
     bindp (psi_init libs seeds object net params) (\<lambda>self.
     bindp (psi_process libs (s_shuffle seeds) self net (psi_preprocess_data self net keys keys) [])
       (\<lambda>(out, self'). Ret out)))"

end
