(* ===== verification/Psi_Contract.thy ===== *)
theory Psi_Contract
  imports Psi_Interface Ecdh_Properties Kkrt_Properties
begin

text \<open>
  What the class \<open>PSI\<close> promises, as a contract that both schemes meet, and what a client can
  rely on whichever scheme the factory built: the result is the set of common keys, and the two
  entry points agree.
\<close>

section \<open>The contract\<close>

text \<open>The ideal functionality: a party entitled to the result gets the common keys, once each.\<close>

definition psi_result :: "bool \<Rightarrow> string list \<Rightarrow> string list \<Rightarrow> string list \<Rightarrow> bool" where
  "psi_result obtain own other r \<longleftrightarrow>
     (if obtain then distinct r \<and> set r = set own \<inter> set other else r = [])"

text \<open>The first argument of both operations is the randomness of the run.\<close>

locale two_party_psi =
  fixes ideal :: "(verse_request, verse_answer) ideal"
    and process :: "'g \<Rightarrow> 'o \<Rightarrow> string list \<Rightarrow> (string list \<times> 'o) verse_proc"
    and cardinality :: "'g \<Rightarrow> 'o \<Rightarrow> string list \<Rightarrow> (nat \<times> 'o) verse_proc"
    and obtains_result :: "'o \<Rightarrow> bool"
    and matched :: "'o \<Rightarrow> 'o \<Rightarrow> string list \<Rightarrow> string list \<Rightarrow> bool"
  assumes process_joint: "matched a b xs ys \<Longrightarrow>
      \<exists>ra rb a' b'. joint ideal (process g a xs) (process h b ys) (ra, a') (rb, b') \<and>
        psi_result (obtains_result a) xs ys ra \<and> psi_result (obtains_result b) ys xs rb"
    and cardinality_joint: "matched a b xs ys \<Longrightarrow>
      \<exists>a' b'. joint ideal (cardinality g a xs) (cardinality h b ys)
        (if obtains_result a then card (set xs \<inter> set ys) else 0, a')
        (if obtains_result b then card (set xs \<inter> set ys) else 0, b')"
begin

text \<open>Both parties, if entitled, end with the same set, and the other entry point with its size.\<close>

lemma entry_points_agree:
  assumes "matched a b xs ys"
  shows "\<exists>ra rb a1 b1 a2 b2.
    outcomes ideal (start (process g a xs) (process h b ys)) = {Conf (Ret (ra, a1)) (Ret (rb, b1)) [] []} \<and>
    outcomes ideal (start (cardinality g' a xs) (cardinality h' b ys)) =
      {Conf (Ret (length ra, a2)) (Ret (length rb, b2)) [] []} \<and>
    psi_result (obtains_result a) xs ys ra \<and> psi_result (obtains_result b) ys xs rb"
proof -
  from process_joint [OF assms, of g h] obtain ra rb a1 b1 where
    r: "joint ideal (process g a xs) (process h b ys) (ra, a1) (rb, b1)"
      "psi_result (obtains_result a) xs ys ra" "psi_result (obtains_result b) ys xs rb" by blast
  from cardinality_joint [OF assms, of g' h'] obtain a2 b2 where
    c: "joint ideal (cardinality g' a xs) (cardinality h' b ys)
      (if obtains_result a then card (set xs \<inter> set ys) else 0, a2)
      (if obtains_result b then card (set xs \<inter> set ys) else 0, b2)" by blast
  have "length ra = (if obtains_result a then card (set xs \<inter> set ys) else 0)"
    "length rb = (if obtains_result b then card (set xs \<inter> set ys) else 0)"
    using r(2,3) by (auto simp: psi_result_def Int_commute dest: distinct_card split: if_splits)
  with c have "joint ideal (cardinality g' a xs) (cardinality h' b ys) (length ra, a2) (length rb, b2)"
    by simp
  from joint_outcomes [OF r(1)] joint_outcomes [OF this] r(2,3) show ?thesis
    by (rule_tac x = ra in exI, rule_tac x = rb in exI, blast)
qed

text \<open>A client that runs \<open>process\<close> and keeps the keys.\<close>

lemma client_joint:
  assumes "matched a b xs ys"
  shows "\<exists>ra rb. joint ideal (bindp (process g a xs) (\<lambda>(r, a'). Ret r))
      (bindp (process h b ys) (\<lambda>(r, b'). Ret r)) ra rb \<and>
    psi_result (obtains_result a) xs ys ra \<and> psi_result (obtains_result b) ys xs rb"
proof -
  from process_joint [OF assms, of g h] obtain ra rb a1 b1 where
    r: "joint ideal (process g a xs) (process h b ys) (ra, a1) (rb, b1)"
      "psi_result (obtains_result a) xs ys ra" "psi_result (obtains_result b) ys xs rb" by blast
  have "joint ideal (bindp (process g a xs) (\<lambda>(r, a'). Ret r)) (bindp (process h b ys) (\<lambda>(r, b'). Ret r)) ra rb"
    by (rule joint_bindp [OF r(1)]) (simp add: joint_Ret)
  with r(2,3) show ?thesis by blast
qed

end

lemma psi_result_intersection:
  "distinct own \<Longrightarrow> psi_result True own other (intersection own other)"
  "distinct other \<Longrightarrow> psi_result True own other (intersection other own)"
  by (auto simp: psi_result_def intersection_def)

lemma length_intersection:
  "distinct own \<Longrightarrow> length (intersection own other) = card (set own \<inter> set other)"
proof -
  assume "distinct own"
  then have "card (set (intersection own other)) = length (intersection own other)"
    by (intro distinct_card) (simp add: intersection_def)
  moreover have "set (intersection own other) = set own \<inter> set other" by (auto simp: intersection_def)
  ultimately show ?thesis by simp
qed

section \<open>Both schemes meet it\<close>

text \<open>Matched objects and inputs, scheme by scheme.\<close>

definition ecdh_matched ::
  "'g uniform \<Rightarrow> ('pt, 'sk, 'k) ecdh_psi \<Rightarrow> ('pt, 'sk, 'k) ecdh_psi \<Rightarrow> string list \<Rightarrow> string list \<Rightarrow> bool" where
  "ecdh_matched draw a b xs ys \<longleftrightarrow> uniform_ok draw \<and> paired a b \<and>
     key_count_ok (length xs) \<and> key_count_ok (length ys) \<and> no_collision a b xs ys \<and>
     xs \<noteq> [] \<and> ys \<noteq> [] \<and> distinct xs \<and> distinct ys"

definition kkrt_matched ::
  "hash_lib \<Rightarrow> 'r prng_lib \<Rightarrow> (verse_request, verse_answer) ideal \<Rightarrow> 'r kkrt_psi \<Rightarrow> 'r kkrt_psi \<Rightarrow>
     string list \<Rightarrow> string list \<Rightarrow> bool" where
  "kkrt_matched hl pl ideal a b xs ys \<longleftrightarrow>
     (\<exists>loc F bins. kkrt_run_ok hl pl ideal loc F bins a b xs ys \<and> no_stash hl pl bins a ys \<and>
        kkrt_no_collision hl loc F (k_num_of_fun a) xs ys) \<and>
     k_sender_obtain_result a = k_sender_obtain_result b \<and> transferable ys \<and> distinct ys"

text \<open>The receiver of KKRT always obtains the result.\<close>

definition kkrt_obtains_result :: "'r kkrt_psi \<Rightarrow> bool" where
  "kkrt_obtains_result self \<longleftrightarrow> (k_is_sender self \<longrightarrow> k_sender_obtain_result self)"

text \<open>A value together with an object that a run leaves as it is.\<close>

lemma joint_with:
  "joint ideal p q x y \<Longrightarrow> joint ideal (bindp p (\<lambda>r. Ret (r, s))) (bindp q (\<lambda>r. Ret (r, t))) (x, s) (y, t)"
  by (erule joint_bindp) (rule joint_Ret)

interpretation ecdh_contract: two_party_psi ideal
    "\<lambda>g s keys. bindp (ecdh_process draw g s Net keys) (\<lambda>r. Ret (r, s))"
    "\<lambda>g s keys. bindp (ecdh_process_cardinality_only draw g s Net keys) (\<lambda>c. Ret (c, s))"
    e_obtain_result "ecdh_matched draw"
  for ideal :: "(verse_request, verse_answer) ideal" and draw :: "'g uniform"
proof unfold_locales
  fix s t :: "('a, 'b, 'c) ecdh_psi" and xs ys g h
  assume "ecdh_matched draw s t xs ys"
  then have m: "uniform_ok draw" "paired s t" "key_count_ok (length xs)" "key_count_ok (length ys)"
      "no_collision s t xs ys"
    and ne: "xs \<noteq> []" "ys \<noteq> []" "distinct xs" "distinct ys" by (simp_all add: ecdh_matched_def)
  from ecdh_process_joint [OF m, of ideal g h] obtain sa sb where
    j: "joint ideal (ecdh_process draw g s Net xs) (ecdh_process draw h t Net ys)
      (ecdh_result (e_obtain_result s) xs ys sa) (ecdh_result (e_obtain_result t) ys xs sb)" by blast
  have res: "psi_result obt own other (ecdh_result obt own other sh)"
    if "own \<noteq> []" "other \<noteq> []" "distinct own" for obt own other sh
    using that by (cases obt) (auto simp: ecdh_result_def psi_result_def intersection_def)
  show "\<exists>ra rb a' b'.
      joint ideal (bindp (ecdh_process draw g s Net xs) (\<lambda>r. Ret (r, s)))
        (bindp (ecdh_process draw h t Net ys) (\<lambda>r. Ret (r, t))) (ra, a') (rb, b') \<and>
      psi_result (e_obtain_result s) xs ys ra \<and> psi_result (e_obtain_result t) ys xs rb"
    by (intro exI conjI, rule joint_with [OF j]) (use res ne in simp_all)
  from joint_with [OF ecdh_cardinality_joint [OF m, of ideal g h], where s = s and t = t] show "\<exists>a' b'.
      joint ideal (bindp (ecdh_process_cardinality_only draw g s Net xs) (\<lambda>c. Ret (c, s)))
        (bindp (ecdh_process_cardinality_only draw h t Net ys) (\<lambda>c. Ret (c, t)))
      (if e_obtain_result s then card (set xs \<inter> set ys) else 0, a')
      (if e_obtain_result t then card (set xs \<inter> set ys) else 0, b')"
    unfolding length_intersection [OF ne(3)] length_intersection [OF ne(4)] Int_commute [of "set ys"]
    by (intro exI)
qed

interpretation kkrt_contract: two_party_psi ideal "\<lambda>_ s keys. kkrt_process hl pl s Net keys []"
    "\<lambda>_ s. kkrt_process_cardinality_only hl pl s Net" kkrt_obtains_result "kkrt_matched hl pl ideal"
  for ideal :: "(verse_request, verse_answer) ideal" and hl and pl :: "'r prng_lib"
proof unfold_locales
  fix a b :: "'r kkrt_psi" and xs ys
  assume "kkrt_matched hl pl ideal a b xs ys"
  then obtain loc F bins where run: "kkrt_run_ok hl pl ideal loc F bins a b xs ys" "no_stash hl pl bins a ys"
      "kkrt_no_collision hl loc F (k_num_of_fun a) xs ys"
    and flag: "k_sender_obtain_result a = k_sender_obtain_result b"
    and tr: "transferable ys" and d: "distinct ys" by (auto simp: kkrt_matched_def)
  have roles: "k_is_sender a" "\<not> k_is_sender b" using run(1) by (simp_all add: kkrt_run_ok_def kkrt_paired_def)
  then have obt: "kkrt_obtains_result a = k_sender_obtain_result a" "kkrt_obtains_result b = True"
    by (simp_all add: kkrt_obtains_result_def)
  have "psi_result (kkrt_obtains_result a) xs ys (if k_sender_obtain_result a then intersection ys xs else [])"
    "psi_result (kkrt_obtains_result b) ys xs (intersection ys xs)"
    using d psi_result_intersection [of ys xs] psi_result_intersection(2) [of ys xs]
    by (auto simp: obt psi_result_def)
  with kkrt_process_joint [OF run flag tr, of "[]" "[]"] show "\<exists>ra rb a' b'.
      joint ideal (kkrt_process hl pl a Net xs []) (kkrt_process hl pl b Net ys []) (ra, a') (rb, b') \<and>
      psi_result (kkrt_obtains_result a) xs ys ra \<and> psi_result (kkrt_obtains_result b) ys xs rb" by blast
  from kkrt_cardinality_joint [OF run flag] show "\<exists>a' b'.
      joint ideal (kkrt_process_cardinality_only hl pl a Net xs) (kkrt_process_cardinality_only hl pl b Net ys)
      (if kkrt_obtains_result a then card (set xs \<inter> set ys) else 0, a')
      (if kkrt_obtains_result b then card (set xs \<inter> set ys) else 0, b')"
    unfolding length_intersection [OF d] Int_commute [of "set ys"] obt if_True by blast
qed

section \<open>Behind the virtual functions\<close>

definition psi_obtains_result :: "('pt, 'sk, 'k, 'r) psi \<Rightarrow> bool" where
  "psi_obtains_result self =
     (case self of Ecdh_Instance p \<Rightarrow> e_obtain_result p | Kkrt_Instance p \<Rightarrow> kkrt_obtains_result p)"

definition psi_matched ::
  "('j, 'pt, 'sk, 'k, 'g, 'r) psi_libs \<Rightarrow> (verse_request, verse_answer) ideal \<Rightarrow>
     ('pt, 'sk, 'k, 'r) psi \<Rightarrow> ('pt, 'sk, 'k, 'r) psi \<Rightarrow> string list \<Rightarrow> string list \<Rightarrow> bool" where
  "psi_matched libs ideal s t xs ys \<longleftrightarrow>
     (case (s, t) of
        (Ecdh_Instance a, Ecdh_Instance b) \<Rightarrow> ecdh_matched (l_shuffle libs) a b xs ys
      | (Kkrt_Instance a, Kkrt_Instance b) \<Rightarrow> kkrt_matched (l_hash libs) (l_prng libs) ideal a b xs ys
      | _ \<Rightarrow> False)"

text \<open>The calls through the class, as the calls of the schemes.\<close>

lemma psi_process_schemes:
  "psi_process libs g (Ecdh_Instance p) net keys out =
     bindp (bindp (ecdh_process (l_shuffle libs) g p net keys) (\<lambda>r. Ret (r, p)))
       (\<lambda>(r, s). Ret (r, Ecdh_Instance s))"
  "psi_process_cardinality_only libs g (Ecdh_Instance p) net keys =
     bindp (bindp (ecdh_process_cardinality_only (l_shuffle libs) g p net keys) (\<lambda>c. Ret (c, p)))
       (\<lambda>(c, s). Ret (c, Ecdh_Instance s))"
  "psi_process libs g (Kkrt_Instance q) net keys out =
     bindp (kkrt_process (l_hash libs) (l_prng libs) q net keys out) (\<lambda>(r, s). Ret (r, Kkrt_Instance s))"
  "psi_process_cardinality_only libs g (Kkrt_Instance q) net keys =
     bindp (kkrt_process_cardinality_only (l_hash libs) (l_prng libs) q net keys)
       (\<lambda>(c, s). Ret (c, Kkrt_Instance s))"
  by (simp_all add: psi_process_def psi_process_cardinality_only_def bindp_assoc)

lemma joint_wrapped:
  assumes "joint ideal p q (x, a) (y, b)"
  shows "joint ideal (bindp p (\<lambda>(r, s). Ret (r, f s))) (bindp q (\<lambda>(r, s). Ret (r, g s))) (x, f a) (y, g b)"
  by (rule joint_bindp [OF assms]) (simp add: joint_Ret)

interpretation psi_contract: two_party_psi ideal "\<lambda>g s keys. psi_process libs g s Net keys []"
    "\<lambda>g s. psi_process_cardinality_only libs g s Net" psi_obtains_result "psi_matched libs ideal"
  for ideal :: "(verse_request, verse_answer) ideal" and libs :: "('j, 'pt, 'sk, 'k, 'g, 'r) psi_libs"
proof unfold_locales
  fix s t :: "('pt, 'sk, 'k, 'r) psi" and xs ys and g h :: 'g
  assume "psi_matched libs ideal s t xs ys"
  then consider (ecdh) a b where "s = Ecdh_Instance a" "t = Ecdh_Instance b"
      "ecdh_matched (l_shuffle libs) a b xs ys"
    | (kkrt) a b where "s = Kkrt_Instance a" "t = Kkrt_Instance b"
      "kkrt_matched (l_hash libs) (l_prng libs) ideal a b xs ys"
    by (auto simp: psi_matched_def split: psi.splits)
  note schemes = this
  show "\<exists>ra rb a' b'. joint ideal (psi_process libs g s Net xs []) (psi_process libs h t Net ys [])
        (ra, a') (rb, b') \<and>
      psi_result (psi_obtains_result s) xs ys ra \<and> psi_result (psi_obtains_result t) ys xs rb"
  proof (cases rule: schemes)
    case ecdh
    from ecdh_contract.process_joint [OF ecdh(3), of ideal g h] joint_wrapped show ?thesis
      unfolding ecdh(1,2) psi_process_schemes psi_obtains_result_def psi.case by metis
  next
    case kkrt
    from kkrt_contract.process_joint [OF kkrt(3)] joint_wrapped show ?thesis
      unfolding kkrt(1,2) psi_process_schemes psi_obtains_result_def psi.case by metis
  qed
  show "\<exists>a' b'. joint ideal (psi_process_cardinality_only libs g s Net xs)
        (psi_process_cardinality_only libs h t Net ys)
      (if psi_obtains_result s then card (set xs \<inter> set ys) else 0, a')
      (if psi_obtains_result t then card (set xs \<inter> set ys) else 0, b')"
  proof (cases rule: schemes)
    case ecdh
    from ecdh_contract.cardinality_joint [OF ecdh(3), of ideal g h] joint_wrapped show ?thesis
      unfolding ecdh(1,2) psi_process_schemes psi_obtains_result_def psi.case by metis
  next
    case kkrt
    from kkrt_contract.cardinality_joint [OF kkrt(3)] joint_wrapped show ?thesis
      unfolding kkrt(1,2) psi_process_schemes psi_obtains_result_def psi.case by metis
  qed
qed

end
