(* ===== verification/Psi_Clients.thy ===== *)
theory Psi_Clients
  imports Psi_Contract Sessions
begin

text \<open>
  Clients of the class \<open>PSI\<close>: what they get from the two entry points, and from the factory to
  the result, without looking at the scheme.
\<close>

section \<open>The two entry points\<close>

text \<open>C8: For matched objects of either scheme, \<open>process\<close> ends under every interleaving with the
  common keys, once each, for every party entitled to them, and \<open>process_cardinality_only\<close> on
  the same inputs ends with exactly the number of keys that \<open>process\<close> delivers to the party,
  whatever the randomness of the two runs.\<close>

theorem psi_entry_points_agree:
  assumes "psi_matched libs ideal a b xs ys"
  shows "\<exists>ra rb a1 b1 a2 b2.
    outcomes ideal (start (psi_process libs g a Net xs []) (psi_process libs h b Net ys [])) =
      {Conf (Ret (ra, a1)) (Ret (rb, b1)) [] []} \<and>
    outcomes ideal (start (psi_process_cardinality_only libs g' a Net xs)
                          (psi_process_cardinality_only libs h' b Net ys)) =
      {Conf (Ret (length ra, a2)) (Ret (length rb, b2)) [] []} \<and>
    psi_result (psi_obtains_result a) xs ys ra \<and> psi_result (psi_obtains_result b) ys xs rb"
  by (rule psi_contract.entry_points_agree [OF assms])

definition toy_libs :: "(bool \<times> bool \<times> bool, toy_point, toy_point, nat, nat list, nat list) psi_libs" where
  "toy_libs = \<lparr>l_json = session_json, l_cipher = \<lambda>_. toy_curve, l_shuffle = replay,
     l_hash = toy_hash, l_prng = toy_prng\<rparr>"

theorem psi_entry_points_agree_witness:
  "\<exists>ra rb a1 b1 a2 b2.
    outcomes toy_verse
      (start (psi_process toy_libs [1, 0] (Ecdh_Instance (toy_party True True False 3)) Net [''c'', ''h'', ''e''] [])
             (psi_process toy_libs [0, 2] (Ecdh_Instance (toy_party False False True 5)) Net
                [''b'', ''c'', ''e'', ''g''] [])) =
      {Conf (Ret (ra, a1)) (Ret (rb, b1)) [] []} \<and>
    outcomes toy_verse
      (start (psi_process_cardinality_only toy_libs [0] (Ecdh_Instance (toy_party True True False 3)) Net
                [''c'', ''h'', ''e''])
             (psi_process_cardinality_only toy_libs [2] (Ecdh_Instance (toy_party False False True 5)) Net
                [''b'', ''c'', ''e'', ''g''])) =
      {Conf (Ret (length ra, a2)) (Ret (length rb, b2)) [] []} \<and>
    psi_result True [''c'', ''h'', ''e''] [''b'', ''c'', ''e'', ''g''] ra \<and>
    psi_result False [''b'', ''c'', ''e'', ''g''] [''c'', ''h'', ''e''] rb"
proof -
  have "psi_matched toy_libs toy_verse (Ecdh_Instance (toy_party True True False 3))
      (Ecdh_Instance (toy_party False False True 5)) [''c'', ''h'', ''e''] [''b'', ''c'', ''e'', ''g'']"
    using toy_paired toy_no_collision uniform_ok_replay
    by (simp add: psi_matched_def ecdh_matched_def toy_libs_def key_count_ok_def defines_simps max_bytes_def)
  from psi_entry_points_agree [OF this] show ?thesis
    by (simp add: psi_obtains_result_def toy_party_def ecdh_object_def)
qed

section \<open>From the factory to the result\<close>

text \<open>C4: Two clients that ask the factory for the same scheme, initialise what it builds, preprocess
  and run \<open>process\<close>, end, whichever scheme it is, with the common keys at every entitled party:
  every scheme the factory builds refines the ideal set intersection.\<close>

theorem factory_client_correct:
  assumes "build_psi scheme = Inr object"
    and "outcomes ideal (start (psi_init libs sa object Net pa) (psi_init libs sb object Net pb)) =
      {Conf (Ret a) (Ret b) [] []}"
    and "psi_matched libs ideal a b xs ys"
  shows "\<exists>ra rb.
    outcomes ideal (start (psi_client libs sa scheme Net pa xs) (psi_client libs sb scheme Net pb ys)) =
      {Conf (Ret ra) (Ret rb) [] []} \<and>
    psi_result (psi_obtains_result a) xs ys ra \<and> psi_result (psi_obtains_result b) ys xs rb"
proof -
  have same: "psi_preprocess_data self net keys keys = keys" for self net keys
    by (simp add: psi_preprocess_data_def ecdh_preprocess_data_def kkrt_preprocess_data_def split: psi.split)
  from psi_contract.client_joint [OF assms(3), of "s_shuffle sa" "s_shuffle sb"] obtain ra rb where
    run: "joint ideal (bindp (psi_process libs (s_shuffle sa) a Net xs []) (\<lambda>(r, a'). Ret r))
      (bindp (psi_process libs (s_shuffle sb) b Net ys []) (\<lambda>(r, b'). Ret r)) ra rb"
    and res: "psi_result (psi_obtains_result a) xs ys ra" "psi_result (psi_obtains_result b) ys xs rb"
    by blast
  have "joint ideal (psi_client libs sa scheme Net pa xs) (psi_client libs sb scheme Net pb ys) ra rb"
    unfolding psi_client_def assms(1) lift_res_simps bindp.simps same
    by (rule joint_bindp [OF outcomes_joint [OF assms(2)]]) (rule run)
  from joint_outcomes [OF this] res show ?thesis by blast
qed

definition toy_seeds :: "nat list \<Rightarrow> (nat, nat list, nat list) psi_seeds" where
  "toy_seeds g = \<lparr>s_key_prng = 3, s_threads = 4, s_shuffle = [], s_prng = g\<rparr>"

theorem factory_client_correct_witness:
  "\<exists>ra rb. outcomes toy_verse
      (start (psi_client toy_libs (toy_seeds [5, 6]) KKRT_PSI Net (True, True, True) toy_xs)
             (psi_client toy_libs (toy_seeds [7, 8]) KKRT_PSI Net (False, True, True) toy_ys)) =
      {Conf (Ret ra) (Ret rb) [] []} \<and> psi_result True toy_xs toy_ys ra \<and> psi_result True toy_ys toy_xs rb"
proof -
  from session_kkrt_init [of True] obtain a b where init: "outcomes toy_verse
      (start (kkrt_init session_json toy_prng [5, 6] Net (True, True, True))
             (kkrt_init session_json toy_prng [7, 8] Net (False, True, True))) =
      {Conf (Ret a) (Ret b) [] []}"
    and ab: "kkrt_paired a b" "k_num_of_fun a = 2" "k_epsilon a = 0x3ff8000000000000"
      "k_sender_obtain_result a" "k_sender_obtain_result b" by blast
  have "joint toy_verse (psi_init toy_libs (toy_seeds [5, 6]) Kkrt_Psi_Object Net (True, True, True))
      (psi_init toy_libs (toy_seeds [7, 8]) Kkrt_Psi_Object Net (False, True, True))
      (Kkrt_Instance a) (Kkrt_Instance b)"
    unfolding psi_init_def psi_object.case
    by (rule joint_bindp [OF outcomes_joint], simp add: toy_libs_def toy_seeds_def init) (rule joint_Ret)
  note i = joint_outcomes [OF this]
  have "psi_matched toy_libs toy_verse (Kkrt_Instance a) (Kkrt_Instance b) toy_xs toy_ys"
    using toy_session_run [OF ab(1-3)] ab(4,5) toy_transferable
    by (auto simp: psi_matched_def kkrt_matched_def toy_libs_def)
  from factory_client_correct [OF _ i this, of KKRT_PSI] ab show ?thesis
    by (simp add: build_psi_schemes psi_obtains_result_def kkrt_obtains_result_def)
qed

end
