(* ===== verification/Circuit_Session.thy ===== *)
theory Circuit_Session
  imports Circuit_Theorems Sessions
begin

text \<open>
  The circuit session of the example programs as a whole: made-up keys and features,
  initialisation, the protocol, the exchange of the shares and the statistics.
\<close>

section \<open>A concrete session\<close>

text \<open>Digests that tell the made-up keys of two parties apart: the sum of the first byte and 49.\<close>

definition session_hash :: hash_lib where
  "session_hash = toy_hash\<lparr>sha_256 := (\<lambda>bs n. (hd bs + 49) # replicate 15 0)\<rparr>"

definition session_tables :: circuit_tables where
  "session_tables = toy_tables\<lparr>t_cids := [0, 0, 1]\<rparr>"

definition circuit_json :: "(bool \<times> bool \<times> bool, double) json_lib" where
  "circuit_json = session_json\<lparr>get_size := (\<lambda>_ group name. Inr 1)\<rparr>"

definition sample_digit :: "nat \<Rightarrow> byte \<times> nat" where "sample_digit g = (of_nat g, g)"
definition sample_feature :: "nat \<Rightarrow> 64 word \<times> nat" where "sample_feature g = (of_nat g + 7, Suc g)"

definition made_up_key :: "string \<Rightarrow> string" where "made_up_key pair = concat (replicate 16 pair) @ ''0''"

definition sender_source :: "nat source" where
  "sender_source = Random sample_digit (\<lambda>_. 0) 5 1 1"
definition receiver_source :: "nat source" where
  "receiver_source = Random sample_digit (\<lambda>_. 0) 11 1 2"

lemma sampled_keys:
  "for_upto kIdentifierLen (next_char sample_digit) ([], 0) = Inr (concat (replicate 16 ''0A''), 0)"
  "for_upto kIdentifierLen (next_char sample_digit) ([], 11) = Inr (concat (replicate 16 ''1L''), 11)"
  by code_simp+

lemma made_up_keys:
  "generate_random_keys sample_digit 0 ''0'' [] g = Inr ([], g)"
  "generate_random_keys sample_digit (Suc 0) ''0'' [] 0 = Inr ([made_up_key ''0A''], 0)"
  "generate_random_keys sample_digit (Suc 0) ''0'' [] 11 = Inr ([made_up_key ''1L''], 11)"
  by (simp_all add: generate_random_keys_def vec_size_ok for_upto_Suc sampled_keys made_up_key_def)

lemma for_upto_2: "for_upto 2 f s = res_bind (f 0 s) (f 1)"
  by (simp add: numeral_2_eq_2 for_upto_Suc)

lemma made_up_features:
  "generate_random_features sample_feature (Suc 0) False [] 5 = Inr ([12], 6)"
  "generate_random_features sample_feature 2 False [] 11 = Inr ([18, 19], 13)"
proof -
  have two: "replicate 2 x = [x, x]" for x :: "64 word" by (simp add: numeral_2_eq_2)
  show "generate_random_features sample_feature (Suc 0) False [] 5 = Inr ([12], 6)"
    "generate_random_features sample_feature 2 False [] 11 = Inr ([18, 19], 13)"
    by (simp_all add: generate_random_features_def vec_size_ok for_upto_Suc for_upto_2 two
        sample_feature_def vec_set_def)
qed

lemma circuit_session_inputs:
  "circuit_inputs sample_feature sender_source = Inr ([made_up_key ''0A''], [[12]])"
  "circuit_inputs sample_feature receiver_source = Inr ([made_up_key ''0A'', made_up_key ''1L''], [[18, 19]])"
  unfolding circuit_inputs_def sender_source_def receiver_source_def
  by (simp_all add: example_random_keys_def made_up_keys made_up_features size_mul_def size_sub_def)

lemma made_up_keys_differ: "made_up_key ''1L'' \<noteq> made_up_key ''0A''"
  by code_simp

lemma session_digests:
  "hash_keys session_hash [made_up_key ''0A''] = [toy_item 97]"
  "hash_keys session_hash [made_up_key ''0A'', made_up_key ''1L''] = [toy_item 97, toy_item 98]"
  by code_simp+

lemma session_hash_tables [simp]:
  "bin_entry_values session_hash = bin_entry_values toy_hash"
  "bin_entry_function_ids session_hash = bin_entry_function_ids toy_hash"
  "cuckoo_stash_size session_hash = cuckoo_stash_size toy_hash"
  "cuckoo_values session_hash = cuckoo_values toy_hash"
  "cuckoo_ids session_hash = cuckoo_ids toy_hash"
  "cuckoo_function_ids session_hash = cuckoo_function_ids toy_hash"
  "cuckoo_occupancy session_hash = cuckoo_occupancy toy_hash"
  "cuckoo_source_values session_hash = cuckoo_source_values toy_hash"
  "element_addresses session_hash = element_addresses toy_hash"
  by (simp_all add: session_hash_def)

lemma session_table_values:
  "bin_entry_values toy_hash 3 seed 1 [toy_item 97] = t_vals session_tables"
  "bin_entry_function_ids toy_hash 3 seed 1 [toy_item 97] = t_fids session_tables"
  "cuckoo_stash_size toy_hash 3 seed 1 [toy_item 97, toy_item 98] = 0"
  "cuckoo_values toy_hash 3 seed 1 [toy_item 97, toy_item 98] = t_cvals session_tables"
  "cuckoo_ids toy_hash 3 seed 1 [toy_item 97, toy_item 98] = t_cids session_tables"
  "cuckoo_function_ids toy_hash 3 seed 1 [toy_item 97, toy_item 98] = t_cfids session_tables"
  "cuckoo_occupancy toy_hash 3 seed 1 [toy_item 97, toy_item 98] = t_cocc session_tables"
  "cuckoo_source_values toy_hash 3 seed 1 [toy_item 97, toy_item 98] = t_csrc session_tables"
  "cuckoo_stash_size toy_hash 5 seed 1 (concat (t_vals session_tables)) = 0"
  "cuckoo_occupancy toy_hash 5 seed 1 (concat (t_vals session_tables)) = t_hocc session_tables"
  "cuckoo_source_values toy_hash 5 seed 1 (concat (t_vals session_tables)) = t_hsrc session_tables"
  "cuckoo_function_ids toy_hash 5 seed 1 (concat (t_vals session_tables)) = t_hfids session_tables"
  "element_addresses toy_hash 5 seed 1 (t_cvals session_tables) = t_addresses session_tables"
  by code_simp+

lemma session_tables_ok:
  "circuit_tables_ok (toy_loc 3) (toy_loc 5) 1 1 3 5 [toy_item 97] [toy_item 97, toy_item 98] session_tables"
  unfolding circuit_tables_ok_def simple_table_ok_def cuckoo_table_ok_def hint_table_ok_def
  by (simp add: session_tables_def toy_tables_def table_entries_def upt_3 upt_5 toy_loc_def keys_xor_fun_def)

lemma session_names_ok:
  "circuit_names_ok 1 3 [toy_item 97] [toy_item 97, toy_item 98] session_tables"
  unfolding circuit_names_ok_def
  by (simp add: session_tables_def toy_tables_def upt_3 sender_names_def keys_xor_fun_def)

lemma session_no_false_hit:
  "circuit_no_false_hit toy_prng toy_encode 1 (toy_loc 5) 3 5 [1] session_tables"
proof -
  have fields: "t_vals session_tables = t_vals toy_tables" "t_hocc session_tables = t_hocc toy_tables"
    "t_hsrc session_tables = t_hsrc toy_tables" "t_hfids session_tables = t_hfids toy_tables"
    "t_cvals session_tables = t_cvals toy_tables"
    by (simp_all add: session_tables_def)
  then have "member_bin session_tables = member_bin toy_tables" "hint_fun session_tables = hint_fun toy_tables"
    by (simp_all add: fun_eq_iff member_bin_def hint_fun_def)
  with fields toy_no_false_hit show ?thesis
    unfolding circuit_no_false_hit_def sent_hint_def by (simp only:)
qed

abbreviation session_xs :: "string list" where "session_xs \<equiv> [made_up_key ''0A'']"
abbreviation session_ys :: "string list" where "session_ys \<equiv> [made_up_key ''0A'', made_up_key ''1L'']"

lemma circuit_session_run:
  assumes "circuit_paired a b" and "p_epsilon a = 0x3ff8000000000000" and "p_epsilon_hint a = 0x3ff8000000000000"
    and "p_num_of_fun a = 1" and "p_num_of_fun_hint a = 1" and "p_prng a = [1]"
  shows "circuit_run_ok session_hash toy_prng toy_duet (toy_loc 3) (toy_loc 5) toy_encode 3 5
    session_tables a b session_xs [[12]] session_ys [[18, 19]]"
proof -
  have "inj_on (digest session_hash) (set session_xs \<union> set session_ys)"
    using session_digests by (auto simp: inj_on_def hash_keys_def)
  moreover have "circuit_oprf_ok toy_duet toy_encode a b"
    by (simp add: circuit_oprf_ok_def)
  moreover have "run_tables session_hash toy_prng a 3 5 [toy_item 97] [toy_item 97, toy_item 98] = session_tables"
    by (rule circuit_tables.equality)
       (simp_all add: run_tables_def assms(4,5) session_table_values Let_def del: One_nat_def)
  moreover have "circuit_no_stash session_hash toy_prng a 3 5 [toy_item 97] [toy_item 97, toy_item 98]"
    by (simp add: circuit_no_stash_def assms(4,5) session_table_values del: One_nat_def)
  ultimately show ?thesis
    using assms session_tables_ok session_names_ok session_no_false_hit toy_duet_ok toy_circuit_bins
      [unfolded numeral_2_eq_2] 
    by (simp add: circuit_run_ok_def session_digests circuit_sizes_ok_def max_u64s_def
          max_vectors_def features_ok_def)
qed

lemma circuit_session_init:
  "\<exists>a b. joint toy_duet (circuit_init circuit_json toy_prng (replicate 80 0 @ [1]) Net (True, False, False))
      (circuit_init circuit_json toy_prng (replicate 16 2) Net (False, False, False)) a b \<and>
    circuit_run_ok session_hash toy_prng toy_duet (toy_loc 3) (toy_loc 5) toy_encode 3 5
      session_tables a b session_xs [[12]] session_ys [[18, 19]]"
proof -
  have ne: "\<not> double_ne 0x3ff8000000000000 0x3ff8000000000000" by (simp add: double_ne_def decode_def)
  have "circuit_configured circuit_json (s, False, False) False s 0x3ff8000000000000 0x3ff8000000000000 1 1" for s
    by (simp add: circuit_configured_def circuit_json_def session_json_def)
  from circuit_init_joint [where ideal = toy_duet and pl = toy_prng and ga = "replicate 80 0 @ [1]"
      and gb = "replicate 16 2", OF this this ne ne] obtain a b where
    j: "joint toy_duet (circuit_init circuit_json toy_prng (replicate 80 0 @ [1]) Net (True, False, False))
      (circuit_init circuit_json toy_prng (replicate 16 2) Net (False, False, False)) a b"
    and ab: "circuit_paired a b" "p_epsilon a = 0x3ff8000000000000" "p_epsilon_hint a = 0x3ff8000000000000"
      "p_num_of_fun a = 1" "p_num_of_fun_hint a = 1" "p_prng a = [1]"
    by (auto simp: toy_prng_def)
  from j circuit_session_run [OF ab] show ?thesis by blast
qed

section \<open>The session\<close>

text \<open>C7: A whole circuit session: parties that initialise with the objects \<open>a\<close> and \<open>b\<close> and whose
  inputs and tables make a run end, under every interleaving, both with the same table of the
  receiver's bins (membership, the sender's features of the common keys, the receiver's features
  of all its keys), with the total of the bytes sent, and with no byte left on the wire.\<close>

theorem circuit_session_correct:
  assumes "get_bool js pa ''common'' ''is_sender'' = Inr True" and "example_network js pa = Inr ()"
    and "get_bool js pb ''common'' ''is_sender'' = Inr False" and "example_network js pb = Inr ()"
    and "circuit_inputs sample64 srca = Inr (xs, xf)" and "circuit_inputs sample64 srcb = Inr (ys, yf)"
    and init: "outcomes ideal (start (circuit_init js pl ga Net pa) (circuit_init js pl gb Net pb)) =
      {Conf (Ret a) (Ret b) [] []}"
    and run: "circuit_run_ok hl pl ideal loc hloc F bins hint_bins T a b xs xf ys yf"
    and comm: "ca < 2 ^ 64" "cb < 2 ^ 64"
  shows "outcomes ideal
      (start (circuit_psi_example js hl pl ga sample64 Net pa srca ca)
             (circuit_psi_example js hl pl gb sample64 Net pb srcb cb)) =
    {Conf (Ret (joined_table xs xf ys yf (bin_keys T ys bins), (ca + cb) mod 2 ^ 64))
          (Ret (joined_table xs xf ys yf (bin_keys T ys bins), (cb + ca) mod 2 ^ 64)) [] []}"
proof (rule joint_outcomes)
  let ?t = "joined_table xs xf ys yf (bin_keys T ys bins)"
  have assoc: "bindp (circuit_process hl pl p Net keys features) (\<lambda>(shares, self).
        bindp (circuit_reveal Net shares) k) =
      bindp (bindp (circuit_process hl pl p Net keys features) (\<lambda>(shares, self). circuit_reveal Net shares)) k"
    for p keys features and k :: "matrix \<Rightarrow> (matrix \<times> nat) verse_proc"
    by (simp add: bindp_assoc case_prod_beta')
  show "joint ideal (circuit_psi_example js hl pl ga sample64 Net pa srca ca)
      (circuit_psi_example js hl pl gb sample64 Net pb srcb cb)
      (?t, (ca + cb) mod 2 ^ 64) (?t, (cb + ca) mod 2 ^ 64)"
    unfolding circuit_psi_example_def assms(1-6) lift_res_simps bindp.simps prod.case assoc
    by (rule joint_bindp [OF outcomes_joint [OF init]], rule joint_bindp [OF circuit_reveal_joint [OF run]],
        rule joint_bindp [OF statistics_joint [OF comm]]) (rule joint_Ret)
qed

theorem circuit_session_correct_witness:
  "outcomes toy_duet
     (start (circuit_psi_example circuit_json session_hash toy_prng (replicate 80 0 @ [1]) sample_feature Net
               (True, False, False) sender_source 300)
            (circuit_psi_example circuit_json session_hash toy_prng (replicate 16 2) sample_feature Net
               (False, False, False) receiver_source 500)) =
   {Conf (Ret ([[0, 1, 0], [0, 12, 0], [0, 18, 19]], 800)) (Ret ([[0, 1, 0], [0, 12, 0], [0, 18, 19]], 800)) [] []}"
proof -
  from circuit_session_init obtain a b where
    j: "joint toy_duet (circuit_init circuit_json toy_prng (replicate 80 0 @ [1]) Net (True, False, False))
      (circuit_init circuit_json toy_prng (replicate 16 2) Net (False, False, False)) a b"
    and run: "circuit_run_ok session_hash toy_prng toy_duet (toy_loc 3) (toy_loc 5) toy_encode 3 5
      session_tables a b session_xs [[12]] session_ys [[18, 19]]" by blast
  have "joined_table session_xs [[12]] session_ys [[18, 19]] (bin_keys session_tables session_ys 3) =
      [[0, 1, 0], [0, 12, 0], [0, 18, 19]]"
    by (simp add: joined_table_def upt_3 numeral_3_eq_3 bin_key_def session_tables_def toy_tables_def
        joined_spec_def value_of_def made_up_keys_differ)
  then show ?thesis
    by (subst circuit_session_correct [OF _ _ _ _ circuit_session_inputs joint_outcomes [OF j] run])
       (simp_all add: circuit_json_def session_json_def example_network_def)
qed

end
