(* ===== verification/Circuit_Safety.thy ===== *)
theory Circuit_Safety
  imports Circuit_Theorems
begin

text \<open>
  A peer of the circuit protocol that lies about the number of its feature columns: the number
  of rows of the share matrix wraps around.
\<close>

section \<open>A peer that lies about its feature columns\<close>

text \<open>The process \<open>p\<close>, except that its second message is \<open>m\<close>.\<close>

fun announcing :: "byte list \<Rightarrow> ('c, 'd, 'a) proc \<Rightarrow> ('c, 'd, 'a) proc" where
  "announcing m (Send m1 (Send m2 p)) = Send m1 (Send m p)"
| "announcing m p = p"

lemma announcing_bindp:
  "announcing m (bindp (circuit_exchange_sizes False Net n f) k) =
     bindp (announcing m (circuit_exchange_sizes False Net n f)) k"
  by (simp add: circuit_exchange_sizes_def)

lemma announced_sizes_joint:
  assumes "n < 2 ^ 64" and "m < 2 ^ 64" and "sf < 2 ^ 64" and "lie < 2 ^ 64"
  shows "joint ideal (circuit_exchange_sizes True Net n sf)
     (announcing (size_t_bytes lie) (circuit_exchange_sizes False Net m rf)) ((n, sf), (m, lie)) ((n, sf), (m, rf))"
proof -
  note w = size_codec.enc_width [OF assms(1)] size_codec.enc_width [OF assms(2)]
    size_codec.enc_width [OF assms(3)] size_codec.enc_width [OF assms(4)]
  note d = size_codec.dec_enc [OF assms(1)] size_codec.dec_enc [OF assms(2)]
    size_codec.dec_enc [OF assms(3)] size_codec.dec_enc [OF assms(4)]
  show ?thesis
    unfolding joint_def circuit_exchange_sizes_def
    by (simp, rule reaches_send_b, rule reaches_send_b, simp, rule reaches_recv_a, rule w(2),
        rule reaches_recv_a_all, rule w(4), rule reaches_send_a, rule reaches_send_a, simp,
        rule reaches_recv_b, rule w(1), rule reaches_recv_b_all, rule w(3)) (simp add: d)
qed

section \<open>The share matrix without rows\<close>

lemma no_rows: "init_shares 0 (2 ^ 64 - 1) bins = (if bins \<le> max_u64s then Inr []
    else Inl (Length_Error ''vector::_M_default_append''))"
  by (simp add: init_shares_def vec_grow_def)

lemma share_bits_no_rows:
  assumes "0 < bins" and "0 < h"
  shows "share_bits bins h (mat bins h r) [] = Inl (Undefined_Behaviour ''vector read'')"
proof -
  have at: "vec_at (mat bins h r) 0 = Inr (map (r 0) [0..<h])" using assms(1) by (simp add: mat_def)
  have none: "vec_at ([] :: matrix) 0 = Inl (Undefined_Behaviour ''vector read'')" by (simp add: vec_at_def)
  have "for_upto h (\<lambda>j shares. res_bind (matrix_at (mat bins h r) 0 j) (\<lambda>b. update_share (XOR) 0 0 b shares)) [] =
      Inl (Undefined_Behaviour ''vector read'')"
    by (rule for_upto_error [OF assms(2), where t = "[]"]) (use assms in \<open>simp_all add: matrix_at_def at update_share_def none\<close>)
  then show ?thesis
    unfolding share_bits_def by (rule_tac for_upto_error [OF assms(1), where t = "[]"]) simp_all
qed

lemma lift_res_done: "\<exists>v. bindp (lift_res r) (\<lambda>x. bindp (lift_res (s x)) (\<lambda>y. Ret (f y))) = lift_res v"
  by (cases r; cases "s (projr r)") (auto intro: exI [of _ "Inl _"] exI [of _ "Inr _"])

lemma wrapped_shares:
  assumes duet: "duet_ok ideal" and "0 < bins" and "0 < h" and "bins \<le> max_u64s" and "bins * h < 2 ^ 64"
    and c: "length contents = bins"
  shows "\<exists>v. reaches ideal
     (Conf (bindp (circuit_sender_shares bins h 0 (2 ^ 64 - 1) contents fa) f)
           (bindp (circuit_receiver_shares bins h 0 0 (map (\<lambda>t. rd (t div h) (t mod h)) [0..<bins * h]) fb
              occ src features) (\<lambda>shares. Ret (shares, u :: 'u))) [] [])
     (Conf (Throw (Undefined_Behaviour ''vector read'')) (lift_res v) [] [])"
proof -
  let ?c = "\<lambda>i j. contents ! i AND kReduceBitsLen" and ?d = "\<lambda>i j. rd i j AND kReduceBitsLen"
  from equality_joint [OF duet, of bins h ?c "\<lambda>i j. 0" "\<lambda>i j. 0" ?d] obtain ra rb where
    eq: "joint ideal (equality (mat bins h ?c) (mat bins h (\<lambda>i j. 0)))
        (equality (mat bins h (\<lambda>i j. 0)) (mat bins h ?d)) (mat bins h ra) (mat bins h rb)" by blast
  obtain v where v: "bindp (lift_res (init_shares 0 0 bins)) (\<lambda>s.
      bindp (lift_res (share_bits bins h (mat bins h rb) s)) (\<lambda>shares. Ret (shares, u))) =
      (lift_res v :: (matrix \<times> 'u) verse_proc)"
    using lift_res_done [of "init_shares 0 0 bins" "share_bits bins h (mat bins h rb)" "\<lambda>shares. (shares, u)"]
    by blast
  have receiver: "bindp (circuit_receiver_shares bins h 0 0 (map (\<lambda>t. rd (t div h) (t mod h)) [0..<bins * h]) fb
       occ src features) (\<lambda>shares. Ret (shares, u)) =
     bindp (equality (mat bins h (\<lambda>i j. 0)) (mat bins h ?d)) (\<lambda>result.
       bindp (lift_res (init_shares 0 0 bins)) (\<lambda>s.
       bindp (lift_res (share_bits bins h result s)) (\<lambda>shares. Ret (shares, u))))"
    unfolding circuit_receiver_shares_def constant_mat content_matrix_reading [OF assms(5)] lift_res_simps
    by (simp add: bindp_assoc)
  have rows: "init_shares 0 (2 ^ 64 - 1) bins = Inr []" using no_rows assms(4) by simp
  show ?thesis
    unfolding receiver circuit_sender_shares_def constant_mat constant_mat(3) [OF c] bindp_assoc
    by (rule exI [of _ v], rule joint_reaches_seq [OF eq],
        simp only: rows share_bits_no_rows [OF assms(2,3)] lift_res_simps bindp.simps,
        unfold v, rule rtranclp.rtrancl_refl)
qed

section \<open>A sender without features\<close>

text \<open>The run, phase by phase, with a receiver that announces \<open>2 ^ 64 - 1\<close> columns.\<close>

lemma announced_phases:
  assumes pair: "circuit_paired a b" and h: "h = p_num_of_fun_hint a"
    and bins: "bins_for (length ys) (p_epsilon a) = Inr bins"
      "hint_bins_for (length xs) (p_num_of_fun a) bins (p_epsilon_hint a) = Inr hint_bins"
    and len: "length xs < 2 ^ 64" "length ys < 2 ^ 64"
    and oprf: "joint ideal (circuit_sender_oprf hl pl a Net bins (hash_keys hl xs))
      (circuit_receiver_oprf hl pl b Net bins (hash_keys hl ys)) (vals, masks, a1) (seed, rmasks, b1)"
    and cvals: "cuckoo_values hl bins seed (p_num_of_fun a) (hash_keys hl ys) = cvals"
    and hint: "joint ideal (circuit_sender_hint hl pl a1 Net bins hint_bins vals masks)
      (circuit_receiver_hint hl pl b1 Net bins hint_bins cvals rmasks)
      (tables, a2) (map (\<lambda>t. rd (t div h) (t mod h)) [0..<bins * h], addresses, b2)"
    and duet: "duet_ok ideal" and small: "0 < bins" "0 < h" "bins \<le> max_u64s" "bins * h < 2 ^ 64"
    and contents: "length (h_contents tables) = bins"
  shows "\<exists>v. reaches ideal (Conf (circuit_process hl pl a Net xs [])
      (announcing (size_t_bytes (2 ^ 64 - 1)) (circuit_process hl pl b Net ys [])) [] [])
     (Conf (Throw (Undefined_Behaviour ''vector read'')) (lift_res v) [] [])"
proof -
  have roles: "p_is_sender a = True" "p_is_sender b = False" "p_num_of_fun b = p_num_of_fun a"
    "p_num_of_fun_hint b = h" "p_num_of_fun_hint a = h" "p_epsilon b = p_epsilon a"
    "p_epsilon_hint b = p_epsilon_hint a"
    using pair h by (simp_all add: circuit_paired_def)
  have none: "circuit_sender_features pl p Net bins hint_bins keys [] 0 tabs ms = Ret ([], p)"
    "circuit_receiver_features pl p Net bins hint_bins keys [] 0 0 adds rms = Ret (Map.empty, [])"
    for p keys tabs ms adds rms
    by (simp_all add: circuit_sender_features_def circuit_receiver_features_def vec_size_ok)
  have zero: "length ([] :: 64 word list list) < 2 ^ 64" and lie: "2 ^ 64 - 1 < (2 :: nat) ^ 64" by simp_all
  from wrapped_shares [OF duet small contents] obtain v where v: "reaches ideal
      (Conf (bindp (circuit_sender_shares bins h 0 (2 ^ 64 - 1) (h_contents tables) []) (\<lambda>shares. Ret (shares, a2)))
            (bindp (circuit_receiver_shares bins h 0 0 (map (\<lambda>t. rd (t div h) (t mod h)) [0..<bins * h]) []
               (cuckoo_occupancy hl bins seed (p_num_of_fun a) (hash_keys hl ys))
               (cuckoo_source_values hl bins seed (p_num_of_fun a) (hash_keys hl ys)) Map.empty)
             (\<lambda>shares. Ret (shares, b2))) [] [])
      (Conf (Throw (Undefined_Behaviour ''vector read'')) (lift_res v) [] [])" by (rule exE)
  show ?thesis
    unfolding circuit_process_def roles announcing_bindp
    by (rule exI [of _ v], rule joint_reaches_seq [OF announced_sizes_joint [OF len zero lie]],
        simp only: prod.case bins lift_res_simps bindp.simps Let_def if_True if_False,
        rule joint_reaches_seq [OF oprf], simp only: prod.case cvals, rule joint_reaches_seq [OF hint],
        simp only: prod.case none bindp.simps list.size, rule v)
qed

text \<open>C22: When the receiver announces \<open>2 ^ 64 - 1\<close> feature columns to a sender that has none, and then
  follows the protocol, the sender's share matrix gets \<open>0 + (2 ^ 64 - 1) + 1 = 0\<close> rows, and
  writing the first membership bit leaves it; nothing the receiver announced is checked.\<close>

theorem circuit_feature_count_wraps:
  assumes run: "circuit_run_ok hl pl ideal loc hloc F bins hint_bins T a b xs [] ys []"
    and pos: "0 < bins" "0 < p_num_of_fun_hint a"
  shows "\<exists>v. outcomes ideal (start (circuit_process hl pl a Net xs [])
      (announcing (size_t_bytes (2 ^ 64 - 1)) (circuit_process hl pl b Net ys []))) =
    {Conf (Throw (Undefined_Behaviour ''vector read'')) (lift_res v) [] []}"
proof -
  note r = circuit_runD [OF run]
  let ?h = "p_num_of_fun_hint a" and ?lie = "2 ^ 64 - 1 :: nat" and ?g = "p_common_prng a"
  note sz = circuit_sizesD [OF r(6)]
  have n: "length xs < 2 ^ 64" "length ys < 2 ^ 64"
    using r(6) by (simp_all add: circuit_sizes_ok_def)
  have len: "length (t_vals T) = bins" "length (t_cvals T) = bins"
    using r(8) by (simp_all add: circuit_tables_ok_def simple_table_ok_def cuckoo_table_ok_def)
  note oprf = circuit_oprf_joint [OF r(1,2,7) len sz(1) r(10) [unfolded circuit_no_stash_def, THEN conjunct1]]
  have cvals: "cuckoo_values hl bins (seed_at pl 0 ?g) (p_num_of_fun a) (hash_keys hl ys) = t_cvals T"
    by (simp add: r(7) run_tables_def Let_def)
  from circuit_hint_joint [where ideal = ideal and F = F, OF r(1,7,8,9) refl r(6,10)]
  obtain tloc contents garbled g where lc: "length contents = bins" and hint: "joint ideal
      (circuit_sender_hint hl pl (a\<lparr>p_common_prng := advanced pl 1 ?g\<rparr>) Net bins
         hint_bins (t_vals T) (sender_masks F bins (t_vals T)))
      (circuit_receiver_hint hl pl (b\<lparr>p_common_prng := advanced pl 1 ?g\<rparr>) Net bins
         hint_bins (t_cvals T) (receiver_masks F (t_cvals T)))
      (\<lparr>h_contents = contents, h_table_loc = tloc, h_occupancy = t_hocc T,
        h_source_values = t_hsrc T, h_function_ids = t_hfids T\<rparr>,
       a\<lparr>p_prng := g, p_common_prng := advanced pl 2 ?g\<rparr>)
      (map (\<lambda>t. reading pl F ?h hloc (t_cvals T) 0 garbled (t div ?h) (t mod ?h)) [0..<bins * ?h],
       t_addresses T, b\<lparr>p_common_prng := advanced pl 2 ?g\<rparr>)"
    by blast
  have "\<exists>v. reaches ideal (Conf (circuit_process hl pl a Net xs [])
      (announcing (size_t_bytes ?lie) (circuit_process hl pl b Net ys [])) [] [])
     (Conf (Throw (Undefined_Behaviour ''vector read'')) (lift_res v) [] [])"
    by (rule announced_phases [OF r(1) refl r(4,5) n oprf cvals hint r(3) pos sz(2,3)]) (simp add: lc)
  then obtain v where v: "reaches ideal (Conf (circuit_process hl pl a Net xs [])
      (announcing (size_t_bytes ?lie) (circuit_process hl pl b Net ys [])) [] [])
     (Conf (Throw (Undefined_Behaviour ''vector read'')) (lift_res v) [] [])" ..
  moreover have "stuck ideal (Conf (Throw e) (lift_res v) [] [])" for e by (cases v) simp_all
  ultimately show ?thesis unfolding start_def by (intro exI [of _ v] outcomes_eqI)
qed

lemma circuit_run_without_features:
  "circuit_run_ok hl pl ideal loc hloc F bins hint_bins T a b xs xf ys yf \<Longrightarrow>
     circuit_run_ok hl pl ideal loc hloc F bins hint_bins T a b xs [] ys []"
  unfolding circuit_run_ok_def circuit_sizes_ok_def
  by (elim conjE, intro conjI) (assumption | simp add: features_ok_def)+

theorem circuit_feature_count_wraps_witness:
  "\<exists>v. outcomes toy_duet (start (circuit_process toy_hash toy_prng (toy_circuit True) Net [''a''] [])
      (announcing (size_t_bytes (2 ^ 64 - 1))
        (circuit_process toy_hash toy_prng (toy_circuit False) Net [''b'', ''a''] []))) =
    {Conf (Throw (Undefined_Behaviour ''vector read'')) (lift_res v) [] []}"
  by (rule circuit_feature_count_wraps [OF circuit_run_without_features [OF toy_circuit_run]])
     (simp_all add: toy_circuit_def)

end
