(* ===== verification/Kkrt_Safety.thy ===== *)
theory Kkrt_Safety
  imports Kkrt_Properties
begin

text \<open>
  The receiver of KKRT PSI against a peer that does not follow the protocol: as long as the
  number of encodings the peer announces does not wrap around, the receiver meets no undefined
  behaviour and returns keys of its own only; when it does wrap around, the receiver searches
  past the end of the encodings.
\<close>

section \<open>What the sub-protocols and the peer are bound to\<close>

lemma guarded_check_stash:
  "guarded A B P (f ()) h \<Longrightarrow> guarded A B P (bindp (lift_res (check_stash s)) f) h"
  by (rule guarded_lift) (auto simp: check_stash_def split: if_splits)

text \<open>As many masks as inputs, and a first message, the peer's number of keys, that does not wrap around.\<close>

fun masks_complete :: "verse_request \<Rightarrow> verse_answer \<Rightarrow> bool" where
  "masks_complete (Nco_Ot_Receive _ inputs) (Nco_Ot_Masks masks) = (length masks = length inputs)"
| "masks_complete _ _ = True"

definition announces_at_most :: "nat \<Rightarrow> byte list list \<Rightarrow> byte list \<Rightarrow> bool" where
  "announces_at_most k h b \<longleftrightarrow> (h = [] \<longrightarrow> k * size_t_of b < 2 ^ 64)"

section \<open>Matching arbitrary encodings\<close>

lemma concat_runs:
  "length es = k * n \<Longrightarrow> concat (map (\<lambda>f. take n (drop (f * n) es)) [0..<k]) = es"
proof (induction k arbitrary: es)
  case (Suc k)
  have "concat (map (\<lambda>f. take n (drop (f * n) (drop n es))) [0..<k]) = drop n es"
    using Suc.prems by (intro Suc.IH) simp
  then show ?case by (simp add: upt_conv_Cons map_Suc_upt [symmetric] comp_def drop_drop add.commute
        del: upt_Suc)
qed simp

lemma collect_any_hits:
  assumes perm: "mset (map ((!) ids) occ) = mset [0..<length ys]" and "length ys \<le> bins" and "distinct ys"
  shows "\<exists>S. (\<forall>out. collect_marked (map (\<lambda>i. i \<in> (!) ids ` set (filter h occ)) [0..<bins])
      (length (filter h occ)) ys out = Inr (filter (\<lambda>y. y \<in> S) ys)) \<and>
    length (filter h occ) = length (filter (\<lambda>y. y \<in> S) ys)"
proof -
  let ?found = "map (\<lambda>b. ys ! (ids ! b)) (filter h occ)"
  have "distinct (map ((!) ids) occ)" using perm mset_eq_imp_distinct_iff by fastforce
  then have inj: "inj_on ((!) ids) (set occ)" by (simp add: distinct_map)
  have range: "ids ! b < length ys" if "b \<in> set occ" for b
    using mset_eq_setD [OF perm] that by auto
  have "h b \<longleftrightarrow> ys ! (ids ! b) \<in> set ?found" if "b \<in> set occ" for b
  proof
    assume "ys ! (ids ! b) \<in> set ?found"
    then obtain c where c: "c \<in> set occ" "h c" "ys ! (ids ! b) = ys ! (ids ! c)" by auto
    with range that \<open>distinct ys\<close> have "ids ! b = ids ! c" by (simp add: nth_eq_iff_index_eq)
    with inj that c show "h b" by (auto dest: inj_onD)
  qed (use that in auto)
  from collect_hits [OF perm assms(2) this] show ?thesis
    unfolding intersection_def by (intro exI [of _ "set ?found"] conjI allI)
qed

lemma match_any_encodings:
  assumes cuckoo: "cuckoo_table_ok loc bins k (hash_keys hl ys) vals ids fids"
    and es: "length es = k * n" "k * n < 2 ^ 64" and "length masks = bins" and "distinct ys"
  shows "\<exists>marks S. match_bins bins k n es fids ids masks = Inr (marks, length (filter (\<lambda>y. y \<in> S) ys)) \<and>
    (\<forall>out. collect_marked marks (length (filter (\<lambda>y. y \<in> S) ys)) ys out = Inr (filter (\<lambda>y. y \<in> S) ys))"
proof -
  let ?rows = "map (\<lambda>f. take n (drop (f * n) es)) [0..<k]"
  let ?h = "is_hit k ?rows fids masks"
  let ?occ = "filter (\<lambda>b. fids ! b < k) [0..<bins]"
  note facts = cuckoo_facts [OF cuckoo]
  have "length (take n (drop (f * n) es)) = n" if "f < k" for f
  proof -
    have "(f + 1) * n \<le> k * n" using that by (intro mult_le_mono1) simp
    then show ?thesis using es(1) by simp
  qed
  then have rows: "\<forall>r\<in>set ?rows. length r = n" by auto
  have len: "length fids = bins" "length ids = bins"
    using cuckoo by (simp_all add: cuckoo_table_ok_def)
  have ids: "ids ! b < bins" if "b < bins" "fids ! b < k" for b
    using facts(3) [OF that refl] facts(2) by simp
  have "match_bins bins k n es fids ids masks =
    Inr (map (\<lambda>i. i \<in> (!) ids ` set (filter ?h [0..<bins])) [0..<bins], length (filter ?h [0..<bins]))"
    using match_bins_result [OF rows _ es(2) len assms(4) ids] concat_runs [OF es(1)] by simp
  moreover have "filter ?h [0..<bins] = filter ?h ?occ"
    unfolding filter_filter by (rule filter_cong [OF refl]) (simp add: is_hit_def)
  moreover from collect_any_hits [OF facts(1,2) assms(5), of ?h] obtain S where
    "\<forall>out. collect_marked (map (\<lambda>i. i \<in> (!) ids ` set (filter ?h ?occ)) [0..<bins])
       (length (filter ?h ?occ)) ys out = Inr (filter (\<lambda>y. y \<in> S) ys)"
    "length (filter ?h ?occ) = length (filter (\<lambda>y. y \<in> S) ys)" by blast
  ultimately show ?thesis by (intro exI [of _ "map (\<lambda>i. i \<in> (!) ids ` set (filter ?h ?occ)) [0..<bins]"] exI [of _ S]) simp
qed

section \<open>The receiver against any peer\<close>

definition receiver_table_ok ::
  "hash_lib \<Rightarrow> 'r prng_lib \<Rightarrow> (nat \<Rightarrow> item \<Rightarrow> nat) \<Rightarrow> nat \<Rightarrow> 'r kkrt_psi \<Rightarrow> string list \<Rightarrow> bool" where
  "receiver_table_ok hl pl loc bins b ys \<longleftrightarrow>
     bins_for (length ys) (k_epsilon b) = Inr bins \<and>
     cuckoo_table_ok loc bins (k_num_of_fun b) (hash_keys hl ys)
       (cuckoo_values hl bins (table_seed pl b) (k_num_of_fun b) (hash_keys hl ys))
       (cuckoo_ids hl bins (table_seed pl b) (k_num_of_fun b) (hash_keys hl ys))
       (cuckoo_function_ids hl bins (table_seed pl b) (k_num_of_fun b) (hash_keys hl ys))"

lemma receiver_match_guarded:
  assumes table: "receiver_table_ok hl pl loc bins b ys" and "distinct ys"
    and n: "k_num_of_fun b * n < 2 ^ 64"
  shows "guarded masks_complete B (\<lambda>_ (marks, cnt, b'). \<exists>S. cnt = length (filter (\<lambda>y. y \<in> S) ys) \<and>
      (\<forall>out. collect_marked marks cnt ys out = Inr (filter (\<lambda>y. y \<in> S) ys)))
    (kkrt_receiver_match hl pl b Net bins (hash_keys hl ys) n) h"
    (is "guarded _ _ ?P _ _")
proof -
  let ?k = "k_num_of_fun b" and ?keys = "hash_keys hl ys" and ?seed = "table_seed pl b"
  let ?self = "b\<lparr>k_common_prng := next_common pl b\<rparr>"
  have seed: "prng_generate pl (k_common_prng b) kRandSeedBytesLen = (?seed, next_common pl b)"
    by (simp add: table_seed_def next_common_def)
  note cuckoo = table [unfolded receiver_table_ok_def, THEN conjunct2]
  have kn: "size_mul ?k n = ?k * n" using n by (simp add: size_mul_def)
  have rest: "guarded masks_complete B ?P
      (bindp (lift_res (vec_reserve max_vectors (?k * n))) (\<lambda>_.
       bindp (lift_res (unpack_keys data kReduceStatisticsLen (?k * n))) (\<lambda>es.
       bindp (lift_res (vec_create max_bits bins)) (\<lambda>_.
       bindp (lift_res (match_bins bins ?k n es (cuckoo_function_ids hl bins ?seed ?k ?keys)
                (cuckoo_ids hl bins ?seed ?k ?keys) masks)) (\<lambda>(marks, cnt). Ret (marks, cnt, ?self)))))) h'"
    if "length masks = bins" and len: "length data = size_mul (?k * n) kReduceStatisticsLen" for masks data h'
  proof (rule guarded_lift)
    fix u assume "vec_reserve max_vectors (?k * n) = Inr u"
    then have "?k * n \<le> max_vectors" by (simp add: vec_reserve_def split: if_splits)
    then have "?k * n * kReduceStatisticsLen \<le> max_vectors * kReduceStatisticsLen" by (rule mult_le_mono1)
    then have small: "?k * n * kReduceStatisticsLen < 2 ^ 64" by (simp add: max_vectors_def kReduceStatisticsLen_def)
    with len have "length data = ?k * n * kReduceStatisticsLen" by (simp add: size_mul_def)
    from unpack_keys_any [OF this small] obtain es where
      es: "unpack_keys data kReduceStatisticsLen (?k * n) = Inr es" "length es = ?k * n" by blast
    from match_any_encodings [OF cuckoo es(2) n that(1) assms(2)] obtain marks S where
      m: "match_bins bins ?k n es (cuckoo_function_ids hl bins ?seed ?k ?keys)
          (cuckoo_ids hl bins ?seed ?k ?keys) masks = Inr (marks, length (filter (\<lambda>y. y \<in> S) ys))"
        "\<forall>out. collect_marked marks (length (filter (\<lambda>y. y \<in> S) ys)) ys out = Inr (filter (\<lambda>y. y \<in> S) ys)"
      by blast
    show "guarded masks_complete B ?P
      (bindp (lift_res (unpack_keys data kReduceStatisticsLen (?k * n))) (\<lambda>es.
       bindp (lift_res (vec_create max_bits bins)) (\<lambda>_.
       bindp (lift_res (match_bins bins ?k n es (cuckoo_function_ids hl bins ?seed ?k ?keys)
                (cuckoo_ids hl bins ?seed ?k ?keys) masks)) (\<lambda>(marks, cnt). Ret (marks, cnt, ?self))))) h'"
      unfolding es(1) lift_res_simps bindp.simps
      by (rule guarded_lift) (use m in \<open>auto simp: vec_create_def split: if_splits\<close>)
  qed (auto simp: vec_reserve_def split: if_splits)
  show ?thesis
    unfolding kkrt_receiver_match_def seed prod.case Let_def kn net_ops_simps bindp.simps guarded.simps
  proof (rule guarded_check_stash, unfold guarded.simps, intro allI impI)
    fix d assume d: "masks_complete (Nco_Ot_Receive (k_base_send b)
        (map block_of (cuckoo_values hl bins ?seed ?k ?keys))) d"
    show "guarded masks_complete B ?P
      (case d of Nco_Ot_Masks masks \<Rightarrow>
         bindp (lift_res (vec_grow max_bytes (size_mul (?k * n) kReduceStatisticsLen))) (\<lambda>_.
         Recv (size_mul (?k * n) kReduceStatisticsLen) (\<lambda>data.
         bindp (lift_res (vec_reserve max_vectors (?k * n))) (\<lambda>_.
         bindp (lift_res (unpack_keys data kReduceStatisticsLen (?k * n))) (\<lambda>es.
         bindp (lift_res (vec_create max_bits bins)) (\<lambda>_.
         bindp (lift_res (match_bins bins ?k n es (cuckoo_function_ids hl bins ?seed ?k ?keys)
                  (cuckoo_ids hl bins ?seed ?k ?keys) masks)) (\<lambda>(marks, cnt). Ret (marks, cnt, ?self)))))))
       | _ \<Rightarrow> Throw (Runtime_Error ''oprf'')) h"
    proof (cases d)
      case (Nco_Ot_Masks masks)
      with d cuckoo have "length masks = bins" by (simp add: cuckoo_table_ok_def)
      then show ?thesis
        unfolding Nco_Ot_Masks verse_answer.case
        by (rule_tac guarded_lift, force simp: vec_grow_def split: if_splits,
            unfold bindp.simps guarded.simps, intro allI impI, rule rest)
    qed simp_all
  qed
qed

lemma receiver_head_guarded:
  assumes "receiver_table_ok hl pl loc bins b ys" and "distinct ys"
  shows "guarded masks_complete (announces_at_most (k_num_of_fun b))
    (\<lambda>_ (marks, cnt, b'). \<exists>S. cnt = length (filter (\<lambda>y. y \<in> S) ys) \<and>
      (\<forall>out. collect_marked marks cnt ys out = Inr (filter (\<lambda>y. y \<in> S) ys)))
    (receiver_head hl pl b ys) []"
  using assms receiver_match_guarded [OF assms]
  by (simp add: receiver_head_def kkrt_exchange_sizes_def receiver_table_ok_def announces_at_most_def)

text \<open>C9: A receiver whose own cuckoo table is in order and whose OPRF hands out one mask per bin meets
  no undefined behaviour in either entry point, whatever encodings the peer sends, as long as the
  number of keys the peer announces, times the number of hash functions, fits in 64 bits; what
  it returns is a selection of its own keys in their order, and the count is its size.\<close>

theorem kkrt_receiver_any_peer:
  assumes "\<not> k_is_sender b" and "receiver_table_ok hl pl loc bins b ys" and "distinct ys"
  shows "guarded masks_complete (announces_at_most (k_num_of_fun b))
      (\<lambda>_ (out', b'). \<exists>S. out' = filter (\<lambda>y. y \<in> S) ys) (kkrt_process hl pl b Net ys out) [] \<and>
    guarded masks_complete (announces_at_most (k_num_of_fun b))
      (\<lambda>_ (cnt, b'). cnt \<le> length ys) (kkrt_process_cardinality_only hl pl b Net ys) []"
  unfolding kkrt_process_roles(2) [OF assms(1)] kkrt_cardinality_roles(2) [OF assms(1)]
  by (intro conjI; rule guarded_bindp [OF receiver_head_guarded [OF assms(2,3)]]) (auto simp: Let_def)

lemma toy_receiver_table:
  "receiver_table_ok toy_hash toy_prng (toy_loc 3) 3 (toy_kkrt False o1) toy_ys"
  using toy_tables toy_bins [unfolded numeral_2_eq_2]
  by (simp add: receiver_table_ok_def kkrt_tables_ok_def toy_kkrt_def)

theorem kkrt_receiver_any_peer_witness:
  "guarded masks_complete (announces_at_most 2)
      (\<lambda>_ (out', b'). \<exists>S. out' = filter (\<lambda>y. y \<in> S) toy_ys)
      (kkrt_process toy_hash toy_prng (toy_kkrt False True) Net toy_ys []) [] \<and>
    guarded masks_complete (announces_at_most 2) (\<lambda>_ (cnt, b'). cnt \<le> length toy_ys)
      (kkrt_process_cardinality_only toy_hash toy_prng (toy_kkrt False True) Net toy_ys) []"
proof -
  have k: "k_num_of_fun (toy_kkrt False True) = 2" by (simp add: toy_kkrt_def)
  show ?thesis
    by (rule kkrt_receiver_any_peer [OF _ toy_receiver_table [of True], unfolded k]) (simp_all add: toy_kkrt_def)
qed

section \<open>A peer whose announcement wraps around\<close>

text \<open>The number of keys such a peer announces: \<open>k\<close> times it is a little more than \<open>2 ^ 64\<close>.\<close>

definition wrapping_size :: "nat \<Rightarrow> nat" where "wrapping_size k = 2 ^ 64 div k + 1"

text \<open>It then sends the few bytes that the receiver expects.\<close>

definition wrapping_peer ::
  "block list \<Rightarrow> block list \<Rightarrow> nat \<Rightarrow> nat \<Rightarrow> unit verse_proc" where
  "wrapping_peer choices base_recv bins k =
     bindp (recv_data Net 8) (\<lambda>_.
     bindp (send_data Net (size_t_bytes (wrapping_size k))) (\<lambda>_.
     bindp (recv_data Net 8) (\<lambda>_.
     Call (Nco_Ot_Send choices base_recv bins) (\<lambda>_.
       send_data Net (replicate (size_mul k (wrapping_size k) * kReduceStatisticsLen) 0)))))"

lemma wrapping_size:
  assumes "2 \<le> k" and "k < 2 ^ 32"
  shows "wrapping_size k < 2 ^ 64" and "size_mul k (wrapping_size k) \<le> k"
    and "f < k \<Longrightarrow> size_mul k (wrapping_size k) < size_mul (f + 1) (wrapping_size k) \<or>
      size_mul (f + 1) (wrapping_size k) < size_mul f (wrapping_size k)"
proof -
  define q :: nat where "q = 2 ^ 64 div k"
  have n: "wrapping_size k = q + 1" by (simp add: wrapping_size_def q_def)
  have "k * q \<le> 2 ^ 64" by (simp add: q_def)
  have "2 ^ 64 < k * (q + 1)" using assms(1) dividend_less_times_div [of k "2 ^ 64"] by (simp add: q_def)
  have "k * k < (2 ^ 32) * (2 ^ 32)" using assms(2) by (intro mult_strict_mono) simp_all
  then have "k * k \<le> 2 ^ 64" by simp
  then have "k \<le> q" using assms(1) by (simp add: q_def less_eq_div_iff_mult_less_eq)
  have "q \<le> 2 ^ 64 div 2" unfolding q_def using assms(1) by (rule div_le_mono2 [rotated]) simp
  then show "wrapping_size k < 2 ^ 64" using n by simp
  have r: "size_mul k (wrapping_size k) = k * (q + 1) - 2 ^ 64"
  proof -
    have "k * (q + 1) - 2 ^ 64 < 2 ^ 64" using \<open>k * q \<le> 2 ^ 64\<close> assms(2) by simp
    then show ?thesis using \<open>2 ^ 64 < k * (q + 1)\<close> by (simp add: size_mul_def n mod_if)
  qed
  then show le: "size_mul k (wrapping_size k) \<le> k" using \<open>k * q \<le> 2 ^ 64\<close> by simp
  assume f: "f < k"
  have below: "size_mul g (q + 1) = g * (q + 1)" if "g < k" for g
  proof -
    have "(g + 1) * (q + 1) \<le> k * (q + 1)" using that by (intro mult_le_mono1) simp
    then have "g * (q + 1) \<le> k * q + k - (q + 1)" by (simp add: algebra_simps)
    then have "g * (q + 1) < 2 ^ 64" using \<open>k \<le> q\<close> \<open>k * q \<le> 2 ^ 64\<close> by simp
    then show ?thesis by (simp add: size_mul_def)
  qed
  show "size_mul k (wrapping_size k) < size_mul (f + 1) (wrapping_size k) \<or>
      size_mul (f + 1) (wrapping_size k) < size_mul f (wrapping_size k)"
  proof (cases "f + 1 = k")
    case True
    then have "0 < f" using assms(1) by simp
    then have "1 * (q + 1) \<le> f * (q + 1)" by (intro mult_le_mono1) simp
    with True f le \<open>k \<le> q\<close> show ?thesis using below [of f] by (simp add: n)
  next
    case False
    with f have "size_mul (f + 1) (q + 1) = (f + 1) * (q + 1)" by (intro below) simp
    with le \<open>k \<le> q\<close> show ?thesis by (simp add: n)
  qed
qed

lemma size_mul_assoc: "size_mul (size_mul a b) c = size_mul a (size_mul b c)"
  by (simp add: size_mul_def mod_mult_left_eq mod_mult_right_eq mult.assoc)

lemma match_out_of_range:
  assumes cuckoo: "cuckoo_table_ok loc bins k (hash_keys hl ys) vals ids fids" and "ys \<noteq> []"
    and "length masks = bins"
    and range: "\<And>f. f < k \<Longrightarrow> length es < size_mul (f + 1) n \<or> size_mul (f + 1) n < size_mul f n"
  shows "match_bins bins k n es fids ids masks = Inl (Undefined_Behaviour ''vector range'')"
proof -
  have "filter (\<lambda>b. fids ! b < k) [0..<bins] \<noteq> []"
    using mset_eq_length [OF cuckoo_facts(1) [OF cuckoo]] \<open>ys \<noteq> []\<close> by fastforce
  then obtain b where "b < bins \<and> fids ! b < k" by (auto simp: filter_empty_conv)
  then obtain b where b: "b < bins" "fids ! b < k" and min: "\<And>c. c < b \<Longrightarrow> \<not> (c < bins \<and> fids ! c < k)"
    using exists_least_iff [of "\<lambda>b. b < bins \<and> fids ! b < k"] by blast
  have len: "length fids = bins" using cuckoo by (simp add: cuckoo_table_ok_def)
  let ?s = "(replicate bins False, 0 :: nat)"
  have "for_upto b (match_bin k n es fids ids masks) ?s = Inr ?s"
    using min b(1) len by (intro for_upto_trace [where g = "\<lambda>_. ?s"]) (force simp: match_bin_def)
  moreover have "match_bin k n es fids ids masks b ?s = Inl (Undefined_Behaviour ''vector range'')"
    using b len assms(3) range [OF b(2)]
    by (auto simp: match_bin_def Let_def std_find_def slice_def)
  ultimately show ?thesis unfolding match_bins_def by (rule for_upto_error [OF b(1)])
qed

lemma wrapped_bytes:
  assumes k: "2 \<le> k" "k < 2 ^ 32"
  defines "m \<equiv> size_mul k (wrapping_size k)"
  shows "size_mul m kReduceStatisticsLen = m * kReduceStatisticsLen"
    and "m * kReduceStatisticsLen \<le> max_bytes" and "m \<le> max_vectors" and "m * kReduceStatisticsLen < 2 ^ 64"
proof -
  have "m < 2 ^ 32" using wrapping_size(2) [OF k] k(2) by (simp add: m_def)
  then show "size_mul m kReduceStatisticsLen = m * kReduceStatisticsLen"
    "m * kReduceStatisticsLen \<le> max_bytes" "m \<le> max_vectors" "m * kReduceStatisticsLen < 2 ^ 64"
    by (simp_all add: size_mul_def kReduceStatisticsLen_def max_bytes_def max_vectors_def)
qed

text \<open>The few bytes unpack to as many encodings, and the search for the first bin leaves them.\<close>

lemma wrapped_match:
  assumes k: "2 \<le> k" "k < 2 ^ 32" and cuckoo: "cuckoo_table_ok loc bins k (hash_keys hl ys) vals ids fids"
    and "ys \<noteq> []" and masks: "length masks = bins"
  defines "m \<equiv> size_mul k (wrapping_size k)"
  shows "\<exists>es. unpack_keys (replicate (m * kReduceStatisticsLen) 0) kReduceStatisticsLen m = Inr es \<and>
    match_bins bins k (wrapping_size k) es fids ids masks = Inl (Undefined_Behaviour ''vector range'')"
proof -
  have "length (replicate (m * kReduceStatisticsLen) (0 :: byte)) = m * kReduceStatisticsLen" by simp
  from unpack_keys_any [OF this wrapped_bytes(4) [OF k, folded m_def]] obtain es where
    es: "unpack_keys (replicate (m * kReduceStatisticsLen) 0) kReduceStatisticsLen m = Inr es" "length es = m"
    by blast
  have "match_bins bins k (wrapping_size k) es fids ids masks = Inl (Undefined_Behaviour ''vector range'')"
    using wrapping_size(3) [OF k] es(2)
    by (intro match_out_of_range [OF cuckoo \<open>ys \<noteq> []\<close> masks]) (simp add: m_def)
  with es(1) show ?thesis by blast
qed

text \<open>C21: With at least two hash functions a peer can announce a number of keys whose product with the
  number of functions wraps around: the receiver then allocates and receives a few bytes, and
  \<open>std::find\<close> over the run of the first occupied bin leaves the vector.\<close>

theorem kkrt_announced_size_wraps:
  assumes "\<not> k_is_sender b" and table: "receiver_table_ok hl pl loc bins b ys"
    and k: "2 \<le> k_num_of_fun b" "k_num_of_fun b < 2 ^ 32" and "ys \<noteq> []" and "length ys < 2 ^ 64"
    and bins: "bins \<le> max_bits"
    and stash: "cuckoo_stash_size hl bins (table_seed pl b) (k_num_of_fun b) (hash_keys hl ys) = 0"
    and oprf: "\<And>inputs. length inputs = bins \<Longrightarrow> \<exists>encoder masks. length masks = bins \<and>
      ideal (Nco_Ot_Send choices base_recv bins) (Nco_Ot_Receive (k_base_send b) inputs) =
        Some (encoder, Nco_Ot_Masks masks)"
  shows "outcomes ideal (start (wrapping_peer choices base_recv bins (k_num_of_fun b))
      (kkrt_process hl pl b Net ys out)) =
    {Conf (Ret ()) (Throw (Undefined_Behaviour ''vector range'')) [] []}"
proof -
  let ?k = "k_num_of_fun b" and ?keys = "hash_keys hl ys" and ?seed = "table_seed pl b"
  let ?n = "wrapping_size ?k" and ?m = "size_mul ?k (wrapping_size ?k)"
  note w = wrapping_size [OF k]
  have seed: "prng_generate pl (k_common_prng b) kRandSeedBytesLen = (?seed, next_common pl b)"
    by (simp add: table_seed_def next_common_def)
  from table have eb: "bins_for (length ys) (k_epsilon b) = Inr bins"
    and cuckoo: "cuckoo_table_ok loc bins ?k ?keys (cuckoo_values hl bins ?seed ?k ?keys)
      (cuckoo_ids hl bins ?seed ?k ?keys) (cuckoo_function_ids hl bins ?seed ?k ?keys)"
    by (simp_all add: receiver_table_ok_def)
  from oprf [of "map block_of (cuckoo_values hl bins ?seed ?k ?keys)"] cuckoo obtain encoder masks where
    masks: "length masks = bins" "ideal (Nco_Ot_Send choices base_recv bins)
      (Nco_Ot_Receive (k_base_send b) (map block_of (cuckoo_values hl bins ?seed ?k ?keys))) =
      Some (encoder, Nco_Ot_Masks masks)"
    by (auto simp: cuckoo_table_ok_def)
  note bytes = wrapped_bytes [OF k]
  from wrapped_match [OF k cuckoo \<open>ys \<noteq> []\<close> masks(1)] obtain es where
    es: "unpack_keys (replicate (?m * kReduceStatisticsLen) 0) kReduceStatisticsLen ?m = Inr es"
      "match_bins bins ?k ?n es (cuckoo_function_ids hl bins ?seed ?k ?keys)
      (cuckoo_ids hl bins ?seed ?k ?keys) masks = Inl (Undefined_Behaviour ''vector range'')" by blast
  have zero: "0 < (2 :: nat) ^ 64" by simp
  note codec = size_codec.enc_width [OF assms(6)] size_codec.dec_enc [OF assms(6)] size_codec.enc_width [OF w(1)]
    size_codec.dec_enc [OF w(1)] size_codec.enc_width [OF zero]
  have run: "reaches ideal
      (Conf (wrapping_peer choices base_recv bins ?k) (receiver_head hl pl b ys) [] [])
      (Conf (Ret ()) (Throw (Undefined_Behaviour ''vector range'')) [] [])"
    unfolding wrapping_peer_def receiver_head_def kkrt_exchange_sizes_def kkrt_receiver_match_def seed
      prod.case Let_def stash
    by (simp add: check_stash_def, rule reaches_send_b, simp, rule reaches_recv_a_all, simp add: codec,
        rule reaches_send_a, simp, rule reaches_recv_b_all, simp add: codec, simp add: codec eb
        stash, rule reaches_send_b, simp, rule reaches_recv_a_all, simp add: codec, rule
        reaches_call, rule masks(2), simp add: bytes vec_size_ok, rule reaches_send_a, simp,
        rule reaches_recv_b_all, simp, simp add: bytes es vec_size_ok bins)
  show ?thesis
    unfolding start_def kkrt_process_roles(2) [OF assms(1)]
    using reaches_bindp [OF run, where f = Ret] by (intro outcomes_eqI) (simp_all add: bindp_Ret)
qed

definition kkrt_three :: "nat list kkrt_psi" where
  "kkrt_three = (toy_kkrt False True)\<lparr>k_num_of_fun := 3\<rparr>"

lemma toy_cuckoo_three:
  "let keys = hash_keys toy_hash toy_ys; ids = cuckoo_ids toy_hash 3 seed 3 keys;
       fids = cuckoo_function_ids toy_hash 3 seed 3 keys; vals = cuckoo_values toy_hash 3 seed 3 keys
   in length vals = 3 \<and> length ids = 3 \<and> length fids = 3 \<and>
     list_all (\<lambda>b. fids ! b < 3 \<longrightarrow> ids ! b < length keys \<and> vals ! b = keys_xor_fun (fids ! b) (keys ! (ids ! b)) \<and>
        toy_loc 3 (fids ! b) (keys ! (ids ! b)) = b) [0..<3] \<and>
     map ((!) ids) (filter (\<lambda>b. fids ! b < 3) [0..<3]) = [1, 0] \<and> [0..<length keys] = [0, 1] \<and>
     cuckoo_stash_size toy_hash 3 seed 3 keys = 0"
  by code_simp

lemma kkrt_three_table: "receiver_table_ok toy_hash toy_prng (toy_loc 3) 3 kkrt_three toy_ys"
  using toy_cuckoo_three [of "table_seed toy_prng kkrt_three"] toy_bins [unfolded numeral_2_eq_2]
  by (simp add: receiver_table_ok_def cuckoo_table_ok_def Let_def kkrt_three_def toy_kkrt_def add_mset_commute)

theorem kkrt_announced_size_wraps_witness:
  "outcomes toy_verse (start (wrapping_peer [] [] 3 3) (kkrt_process toy_hash toy_prng kkrt_three Net toy_ys [])) =
    {Conf (Ret ()) (Throw (Undefined_Behaviour ''vector range'')) [] []}"
proof -
  have k: "k_num_of_fun kkrt_three = 3" by (simp add: kkrt_three_def)
  show ?thesis
  proof (rule kkrt_announced_size_wraps [OF _ kkrt_three_table, unfolded k])
    show "cuckoo_stash_size toy_hash 3 (table_seed toy_prng kkrt_three) 3 (hash_keys toy_hash toy_ys) = 0"
      using toy_cuckoo_three [of "table_seed toy_prng kkrt_three"] by (simp add: Let_def)
    show "\<exists>encoder masks. length masks = 3 \<and> toy_verse (Nco_Ot_Send [] [] 3)
        (Nco_Ot_Receive (k_base_send kkrt_three) inputs) = Some (encoder, Nco_Ot_Masks masks)"
      if "length inputs = 3" for inputs using that by simp
  qed (simp_all add: kkrt_three_def toy_kkrt_def max_bits_def)
qed

end
