(* ===== verification/Csv_Exceptions.thy ===== *)
theory Csv_Exceptions
  imports Csv_States
begin

text \<open>
  What a payload batch leaves behind when \<open>std::stoull\<close> throws out of it: the object and the
  output vectors are not rolled back. The operations are modelled a second time with the state
  at the point of the exception; they agree with the first model on every call, and the state
  they leave is one that no sequence of calls without exceptions reaches.
\<close>

section \<open>Operations with the state of an exception\<close>

text \<open>A state, and the exception that ended the operation there, if any.\<close>

type_synonym 's ended = "'s \<times> error option"

definition payload_row ::
  "string \<Rightarrow> string list \<times> 64 word list \<Rightarrow> (string list \<times> 64 word list) ended" where
  "payload_row line out =
     (case out of (items, payloads) \<Rightarrow>
        let (item, ss) = getline comma (stringstream line) [];
            (column_str, ss') = getline comma ss item
        in case stoull column_str of
             Inl e \<Rightarrow> ((items @ [item], payloads), Some e)
           | Inr v \<Rightarrow> ((items @ [item], payloads @ [v]), None))"

fun payload_fields ::
  "nat \<Rightarrow> nat \<Rightarrow> stream \<times> string \<Rightarrow> 64 word list list \<Rightarrow> 64 word list list ended" where
  "payload_fields 0 idx s payloads = (payloads, None)"
| "payload_fields (Suc n) idx s payloads =
     (let (field, ss) = getline comma (fst s) (snd s) in
      case stoull field of
        Inl e \<Rightarrow> (payloads, Some e)
      | Inr v \<Rightarrow>
          (case push_at payloads idx v of
             Inl e \<Rightarrow> (payloads, Some e)
           | Inr payloads' \<Rightarrow> payload_fields n (Suc idx) (ss, field) payloads'))"

definition payload_row_2d ::
  "nat \<Rightarrow> nat \<Rightarrow> string \<Rightarrow> string list list \<times> 64 word list list \<Rightarrow>
     (string list list \<times> 64 word list list) ended" where
  "payload_row_2d k m line out =
     (case take_fields k (stringstream line, []) (fst out) of
        Inl e \<Rightarrow> (out, Some e)
      | Inr (ss, items) \<Rightarrow>
          (case payload_fields m 0 ss (snd out) of (payloads, e) \<Rightarrow> ((items, payloads), e)))"

text \<open>The \<open>while\<close> loop; the line that throws has left the stream.\<close>

fun lines_until ::
  "(string \<Rightarrow> 'o \<Rightarrow> 'o ended) \<Rightarrow> nat \<Rightarrow> stream \<Rightarrow> string \<Rightarrow> 'o \<Rightarrow> (stream \<times> 'o) ended" where
  "lines_until row 0 st cur_line out = ((st, out), None)"
| "lines_until row (Suc n) st cur_line out =
     (case getline newline st cur_line of (line, st') \<Rightarrow>
        if line \<noteq> []
        then (case row line out of
                (out', Some e) \<Rightarrow> ((st', out'), Some e)
              | (out', None) \<Rightarrow> lines_until row n st' line out')
        else lines_until row n st' line out)"

text \<open>\<open>cur_line_idx_\<close> is only advanced behind the loop.\<close>

definition batch_until ::
  "csv \<Rightarrow> nat \<Rightarrow> (string \<Rightarrow> 'o \<Rightarrow> 'o ended) \<Rightarrow> 'o \<Rightarrow> (csv \<times> 'o) ended" where
  "batch_until self n row out =
     (case lines_until row n (c_stream self) [] out of
        ((st, out'), None) \<Rightarrow> ((advance self n st, out'), None)
      | ((st, out'), Some e) \<Rightarrow> ((self\<lparr>c_stream := st\<rparr>, out'), Some e))"

definition payload_batch ::
  "nat \<Rightarrow> csv \<Rightarrow> string list \<times> 64 word list \<Rightarrow> (csv \<times> string list \<times> 64 word list) ended" where
  "payload_batch batch_size self out =
     (if batch_size = 0 then ((self, out), None)
      else let n = read_lines_count self batch_size in
           case vec_reserve max_strings n of Inl e \<Rightarrow> ((self, out), Some e) | Inr _ \<Rightarrow>
           case vec_reserve max_words n of Inl e \<Rightarrow> ((self, out), Some e) | Inr _ \<Rightarrow>
             batch_until self n payload_row out)"

definition payload_batch_2d ::
  "nat \<Rightarrow> csv \<Rightarrow> string list list \<times> 64 word list list \<Rightarrow>
     (csv \<times> string list list \<times> 64 word list list) ended" where
  "payload_batch_2d batch_size self out =
     (if batch_size = 0 then ((self, out), None)
      else let n = read_lines_count self batch_size; k = c_items_columns_num self;
               m = size_sub (c_columns_num self) k in
           case vec_grow max_vectors k of Inl e \<Rightarrow> ((self, out), Some e) | Inr _ \<Rightarrow>
           case vec_grow max_vectors m of
             Inl e \<Rightarrow> ((self, resize [] k (fst out), snd out), Some e)
           | Inr _ \<Rightarrow> batch_until self n (payload_row_2d k m) (resize [] k (fst out), resize [] m (snd out)))"

section \<open>Agreement with the operations that forget the state\<close>

fun forget :: "'s ended \<Rightarrow> 's res" where
  "forget (s, None) = Inr s"
| "forget (s, Some e) = Inl e"

lemma forget_row: "forget (payload_row line out) = take_item_payload line out"
  by (cases out) (simp add: payload_row_def take_item_payload_def Let_def split: prod.splits sum.splits)

lemma for_upto_first: "for_upto (Suc n) f s = res_bind (f 0 s) (for_upto n (\<lambda>i. f (Suc i)))"
proof (induction n arbitrary: s)
  case (Suc n)
  show ?case
    unfolding for_upto_Suc [of "Suc n" f] Suc.IH
    by (simp add: res_bind_assoc) (simp add: for_upto_Suc)
next
  case 0
  then show ?case by (cases "f 0 s") (simp_all add: for_upto_Suc)
qed

lemma forget_fields:
  "forget (payload_fields n idx s payloads) =
     res_bind (for_upto n (\<lambda>i ((ss, column_str), payloads).
         let (field, ss') = getline comma ss column_str in
         res_bind (stoull field) (\<lambda>v.
         res_bind (push_at payloads (idx + i) v) (\<lambda>payloads'. Inr ((ss', field), payloads'))))
       (s, payloads)) (\<lambda>(ss, payloads'). Inr payloads')"
proof (induction n idx s payloads rule: payload_fields.induct)
  case (2 n idx s payloads)
  obtain field ss where g: "getline comma (fst s) (snd s) = (field, ss)" by (cases "getline comma (fst s) (snd s)")
  show ?case
    unfolding for_upto_first
    by (cases s; cases "stoull field"; cases "push_at payloads idx (projr (stoull field))")
       (use g 2 [OF g [symmetric] refl] in \<open>simp_all add: res_bind_assoc\<close>)
qed simp

lemma forget_row_2d: "forget (payload_row_2d k m line out) = take_row k m line out"
proof -
  have fields: "forget (payload_fields m 0 ss payloads) = take_payloads m ss payloads" for ss payloads
    by (simp add: forget_fields take_payloads_def)
  show ?thesis
  proof (cases "take_fields k (stringstream line, []) (fst out)")
    case (Inr r)
    obtain payloads e where p: "payload_fields m 0 (fst r) (snd out) = (payloads, e)" by fastforce
    then have "take_payloads m (fst r) (snd out) = forget (payloads, e)" using fields by metis
    with Inr p show ?thesis
      by (cases out; cases r; cases e) (auto simp: payload_row_2d_def take_row_def)
  qed (cases out, simp add: payload_row_2d_def take_row_def)
qed

lemma forget_lines:
  assumes "\<And>line out. forget (row line out) = body line out"
  shows "forget (lines_until row n st cur out) =
    res_bind (for_upto n (\<lambda>_. read_line body) (st, cur, out)) (\<lambda>(st', cur', out'). Inr (st', out'))"
proof (induction n arbitrary: st cur out)
  case (Suc n)
  obtain line st' where g: "getline newline st cur = (line, st')" by fastforce
  obtain out' e where r: "row line out = (out', e)" by fastforce
  then have b: "body line out = forget (out', e)" using assms by metis
  have "read_line body (st, cur, out) =
      res_bind (if line \<noteq> [] then body line out else Inr out) (\<lambda>o'. Inr (st', line, o'))"
    by (simp add: read_line_def g)
  then show ?case
    unfolding for_upto_first
    using Suc.IH [of st' line] by (cases "line = []"; cases e) (simp_all add: g r b)
qed simp

lemma forget_batch:
  assumes "\<And>line out. forget (row line out) = body line out"
  shows "forget (batch_until self n row out) =
    res_bind (read_lines body n (c_stream self) out) (\<lambda>(st, out'). Inr (advance self n st, out'))"
proof -
  obtain st out' e where l: "lines_until row n (c_stream self) [] out = ((st, out'), e)" by (metis surj_pair)
  have "read_lines body n (c_stream self) out = forget ((st, out'), e)"
    using forget_lines [of row body n "c_stream self" "[]" out] assms l by (simp add: read_lines_def)
  then show ?thesis by (cases e) (simp_all add: batch_until_def l)
qed

text \<open>A payload batch of either kind returns or throws exactly as in the model that forgets the
  state of an exception, with the same exception, object and output.\<close>

lemma payload_batches_agree:
  "forget (payload_batch b self out) = get_next_batch_with_payloads b self out \<and>
   forget (payload_batch_2d b self out2) = get_next_batch_with_payloads_2d b self out2"
  by (simp add: payload_batch_def get_next_batch_with_payloads_def payload_batch_2d_def
      get_next_batch_with_payloads_2d_def Let_def forget_batch [OF forget_row] forget_batch [OF forget_row_2d]
      vec_reserve_def vec_grow_def)

section \<open>Streams at a text\<close>

definition at_text :: "stream \<Rightarrow> string \<Rightarrow> bool" where
  "at_text st r \<longleftrightarrow> good st \<and> drop (st_pos st) (st_data st) = r"

definition lines_text :: "string list \<Rightarrow> string" where
  "lines_text ls = concat (map (\<lambda>l. l @ [newline]) ls)"

lemma takeWhile_line: "newline \<notin> set w \<Longrightarrow> takeWhile (\<lambda>c. c \<noteq> newline) (w @ newline # r) = w"
  "newline \<notin> set w \<Longrightarrow> takeWhile (\<lambda>c. c \<noteq> newline) w = w"
  by (simp_all add: takeWhile_append takeWhile_eq_all_conv) (auto simp: takeWhile_append)

lemma getline_line:
  assumes "at_text st (w @ newline # r)" and "newline \<notin> set w"
  shows "\<exists>st'. getline newline st s = (w, st') \<and> at_text st' r"
proof -
  have "drop (Suc (st_pos st + length w)) (st_data st) = drop (Suc (length w)) (drop (st_pos st) (st_data st))"
    by (simp add: add.commute)
  with assms show ?thesis by (simp add: at_text_def getline_def Let_def takeWhile_line good_def)
qed

lemma getline_last:
  assumes "at_text st w" and "newline \<notin> set w"
  shows "\<exists>st'. getline newline st s = (w, st') \<and> \<not> good st'"
  using assms by (simp add: at_text_def getline_def Let_def takeWhile_line good_def)

section \<open>Rows with a payload\<close>

definition row_valid :: "string \<Rightarrow> bool" where
  "row_valid line \<longleftrightarrow> line \<noteq> [] \<and> newline \<notin> set line \<and> isl (stoull (field_at line 1)) = False"

definition payload_of :: "string \<Rightarrow> 64 word" where
  "payload_of line = projr (stoull (field_at line 1))"

lemma payload_row_fields:
  "payload_row line (items, payloads) =
     (case stoull (field_at line 1) of
        Inl e \<Rightarrow> ((items @ [field_at line 0], payloads), Some e)
      | Inr v \<Rightarrow> ((items @ [field_at line 0], payloads @ [v]), None))"
proof -
  from at_field_step [OF at_field_start [of line]] obtain ss where
    s: "getline comma (stringstream line) [] = (field_at line 0, ss)" "at_field line (Suc 0) (ss, field_at line 0)"
    by auto
  from at_field_step [OF s(2)] obtain ss' where "getline comma ss (field_at line 0) = (field_at line (Suc 0), ss')"
    by auto
  with s(1) show ?thesis by (simp add: payload_row_def del: field_at.simps)
qed

lemma payload_row_valid:
  "row_valid line \<Longrightarrow> payload_row line (items, payloads) =
     ((items @ [field_at line 0], payloads @ [payload_of line]), None)"
  unfolding payload_row_fields
  by (cases "stoull (field_at line 1)") (simp_all add: row_valid_def payload_of_def del: field_at.simps)

lemma until_valid:
  assumes "list_all row_valid ls" and "at_text st (lines_text ls @ r)"
  shows "\<exists>st' cur'. at_text st' r \<and> lines_until payload_row (length ls + n) st cur (items, payloads) =
    lines_until payload_row n st' cur' (items @ map (\<lambda>l. field_at l 0) ls, payloads @ map payload_of ls)"
  using assms
proof (induction ls arbitrary: st cur items payloads)
  case (Cons l ls)
  from Cons.prems have l: "row_valid l" "l \<noteq> []" "newline \<notin> set l" by (simp_all add: row_valid_def)
  have "at_text st (l @ newline # lines_text ls @ r)" using Cons.prems(2) by (simp add: lines_text_def)
  from getline_line [OF this l(3)] obtain st1 where
    g: "getline newline st cur = (l, st1)" "at_text st1 (lines_text ls @ r)" by blast
  from Cons.IH [OF _ g(2), of l "items @ [field_at l 0]" "payloads @ [payload_of l]"] Cons.prems(1) l g(1)
  show ?case by (simp add: payload_row_valid del: field_at.simps)
qed (auto simp: lines_text_def)

lemma until_over:
  assumes "\<not> good st" and "row_valid l"
  shows "\<exists>st'. lines_until payload_row n st l (items, payloads) =
    ((st', items @ replicate n (field_at l 0), payloads @ replicate n (payload_of l)), None)"
  using assms(1)
proof (induction n arbitrary: st items payloads)
  case (Suc n)
  have "\<not> good (st\<lparr>st_fail := True\<rparr>)" by (simp add: good_def)
  from Suc.IH [OF this, of "items @ [field_at l 0]" "payloads @ [payload_of l]"] Suc.prems assms(2)
    assms(2) [unfolded row_valid_def, THEN conjunct1]
  show ?case by (simp add: getline_def payload_row_valid del: field_at.simps)
qed simp

text \<open>A row whose payload is no number, and a last row that the loop reads more often than it is there.\<close>

lemma until_throws:
  assumes "list_all row_valid gs" and "at_text st (lines_text (gs @ bad # ws) @ l)"
    and bad: "bad \<noteq> []" "newline \<notin> set bad" "stoull (field_at bad 1) = Inl e"
  shows "\<exists>st'. at_text st' (lines_text ws @ l) \<and> lines_until payload_row (length gs + Suc n) st cur (items, payloads) =
    ((st', items @ map (\<lambda>r. field_at r 0) (gs @ [bad]), payloads @ map payload_of gs), Some e)"
proof -
  have "at_text st (lines_text gs @ bad @ newline # lines_text ws @ l)"
    using assms(2) by (simp add: lines_text_def)
  from until_valid [OF assms(1) this] obtain st1 cur1 where
    st1: "at_text st1 (bad @ newline # lines_text ws @ l)"
      "lines_until payload_row (length gs + Suc n) st cur (items, payloads) =
       lines_until payload_row (Suc n) st1 cur1 (items @ map (\<lambda>r. field_at r 0) gs, payloads @ map payload_of gs)"
    by blast
  from getline_line [OF st1(1) bad(2), of cur1] obtain st2 where
    st2: "getline newline st1 cur1 = (bad, st2)" "at_text st2 (lines_text ws @ l)" by blast
  have "payload_row bad (xs, ps) = ((xs @ [field_at bad 0], ps), Some e)" for xs ps
    unfolding payload_row_fields bad(3) by simp
  then show ?thesis
    unfolding st1(2) using st2 bad(1) by (simp del: field_at.simps)
qed

lemma until_end:
  assumes "list_all row_valid (ws @ [l])" and "at_text st (lines_text ws @ l)"
  shows "\<exists>st'. lines_until payload_row (length ws + Suc n) st cur (items, payloads) =
    ((st', items @ map (\<lambda>r. field_at r 0) (ws @ replicate (Suc n) l),
      payloads @ map payload_of (ws @ replicate (Suc n) l)), None)"
proof -
  have ws: "list_all row_valid ws" and l: "row_valid l" "l \<noteq> []" "newline \<notin> set l"
    using assms(1) by (simp_all add: row_valid_def)
  from until_valid [OF ws assms(2)] obtain st1 cur1 where
    st1: "at_text st1 l" "lines_until payload_row (length ws + Suc n) st cur (items, payloads) =
       lines_until payload_row (Suc n) st1 cur1 (items @ map (\<lambda>r. field_at r 0) ws, payloads @ map payload_of ws)"
    by blast
  from getline_last [OF st1(1) l(3), of cur1] obtain st2 where
    st2: "getline newline st1 cur1 = (l, st2)" "\<not> good st2" by blast
  from until_over [OF st2(2) l(1), of n "items @ map (\<lambda>r. field_at r 0) ws @ [field_at l 0]"
      "payloads @ map payload_of ws @ [payload_of l]"] show ?thesis
    unfolding st1(2) using st2(1) l(2) payload_row_valid [OF l(1)]
    by (simp add: map_replicate_const del: field_at.simps)
qed

lemma lines_until_data:
  "lines_until row n st cur out = ((st', out'), e) \<Longrightarrow> st_data st' = st_data st"
proof (induction n arbitrary: st cur out)
  case (Suc n)
  obtain line st1 where g: "getline newline st cur = (line, st1)" by fastforce
  then have d: "st_data st1 = st_data st" using getline_data [of newline st cur] by simp
  obtain o1 e1 where r: "row line out = (o1, e1)" by fastforce
  show ?case
  proof (cases "line = [] \<or> e1 = None")
    case True
    with Suc.prems g r obtain o2 where "lines_until row n st1 line o2 = ((st', out'), e)"
      by (cases "line = []") simp_all
    from Suc.IH [OF this] d show ?thesis by simp
  next
    case False
    with Suc.prems g r d show ?thesis by (cases e1) simp_all
  qed
qed simp

section \<open>After an exception\<close>

text \<open>C23: A payload batch that asks for all remaining rows, over \<open>gs\<close>, a row \<open>bad\<close> whose payload is no
  number, \<open>ws\<close> and a last row without a newline, throws with the rows of \<open>gs\<close> and the item of \<open>bad\<close>
  delivered: one more item than there are payloads. The row index is the one from before the call,
  although the stream has moved past \<open>bad\<close>: a next call of the same size asks for more lines than
  are left, delivers \<open>ws\<close> and then the last row \<open>length gs + 2\<close> times, and brings the index to the
  end. A caller that calls \<open>seek_begin\<close> instead gets the state it would have got before the
  exception.\<close>

theorem csv_exception_desynchronises:
  assumes start: "at_text (c_stream self) (lines_text (gs @ bad # ws) @ l)"
    and valid: "list_all row_valid (gs @ ws @ [l])"
    and bad: "bad \<noteq> []" "newline \<notin> set bad" "stoull (field_at bad 1) = Inl e"
    and rows: "c_rows_num self = c_cur_line_idx self + length gs + length ws + 2" "c_rows_num self \<le> max_strings"
    and b: "length gs + length ws + 2 \<le> b"
  shows "\<exists>self' self''.
    payload_batch b self (items, payloads) =
      ((self', items @ map (\<lambda>r. field_at r 0) (gs @ [bad]), payloads @ map payload_of gs), Some e) \<and>
    c_cur_line_idx self' = c_cur_line_idx self \<and> seek_begin self' = seek_begin self \<and>
    payload_batch b self' ([], []) =
      ((self'', map (\<lambda>r. field_at r 0) (ws @ replicate (length gs + 2) l),
                map payload_of (ws @ replicate (length gs + 2) l)), None) \<and>
    c_cur_line_idx self'' = c_rows_num self"
proof -
  let ?n = "length gs + length ws + 2"
  have big: "c_rows_num self < 2 ^ 64" "?n \<le> max_strings" "?n \<le> max_words"
    using rows by (simp_all add: max_strings_def max_words_def)
  have count: "read_lines_count s b = ?n"
    if "c_rows_num s = c_rows_num self" "c_cur_line_idx s = c_cur_line_idx self" for s
  proof -
    have "size_sub (c_rows_num self) (c_cur_line_idx self) = ?n"
      using rows(1) size_sub_exact [OF _ big(1), of "c_cur_line_idx self"] by simp
    with that b show ?thesis by (simp add: read_lines_count_def)
  qed
  from valid have "list_all row_valid gs" "list_all row_valid (ws @ [l])" by simp_all
  note valid = this
  from until_throws [OF valid(1) start bad, of "Suc (length ws)" "[]" items payloads] obtain st1 where
    st1: "at_text st1 (lines_text ws @ l)" and first: "lines_until payload_row ?n (c_stream self) [] (items, payloads) =
      ((st1, items @ map (\<lambda>r. field_at r 0) (gs @ [bad]), payloads @ map payload_of gs), Some e)"
    by (auto simp del: field_at.simps lines_until.simps)
  let ?s = "self\<lparr>c_stream := st1\<rparr>"
  have batch: "payload_batch b self (items, payloads) =
      ((?s, items @ map (\<lambda>r. field_at r 0) (gs @ [bad]), payloads @ map payload_of gs), Some e)"
    using b count [of self] big(2,3) first by (simp add: payload_batch_def vec_size_ok batch_until_def)
  have rewound: "seek_begin ?s = seek_begin self"
    using lines_until_data [OF first] by (simp add: seek_begin_def rewind)
  from until_end [OF valid(2) st1, of "Suc (length gs)" "[]" "[]" "[]"] obtain st2 where
    second: "lines_until payload_row ?n st1 [] ([], []) =
      ((st2, map (\<lambda>r. field_at r 0) (ws @ replicate (length gs + 2) l),
        map payload_of (ws @ replicate (length gs + 2) l)), None)"
    by (auto simp: add.commute simp del: field_at.simps lines_until.simps)
  then have again: "payload_batch b ?s ([], []) =
      ((advance ?s ?n st2, map (\<lambda>r. field_at r 0) (ws @ replicate (length gs + 2) l),
        map payload_of (ws @ replicate (length gs + 2) l)), None)"
    using b count [of ?s] big(2,3)
    by (simp add: payload_batch_def vec_size_ok batch_until_def del: field_at.simps lines_until.simps)
  have "c_cur_line_idx (advance ?s ?n st2) = c_rows_num self"
    using rows(1) big(1) by (simp add: advance_def)
  with batch rewound again show ?thesis
    by (intro exI [of _ ?s] exI [of _ "advance ?s ?n st2"]) simp
qed

text \<open>The file \<open>a,1\<close>, \<open>b,x\<close>, \<open>c,2\<close> without a final newline.\<close>

abbreviation broken_file :: string where
  "broken_file \<equiv> ''a,1'' @ [newline] @ ''b,x'' @ [newline] @ ''c,2''"

theorem csv_exception_desynchronises_witness:
  "\<exists>self' self''.
     payload_batch 3 (opened False 1 broken_file) ([], []) =
       ((self', [''a'', ''b''], [1]), Some (Invalid_Argument ''stoull'')) \<and>
     payload_batch 3 self' ([], []) = ((self'', [''c'', ''c'', ''c''], [2, 2, 2]), None) \<and>
     seek_begin self' = seek_begin (opened False 1 broken_file)"
proof -
  have parsed: "stoull ''1'' = Inr 1" "stoull ''2'' = Inr 2" "stoull ''x'' = Inl (Invalid_Argument ''stoull'')"
    by (simp_all add: stoull_def is_space_def is_digit_def dec_value_def)
  then have "list_all row_valid ([''a,1''] @ [] @ [''c,2''])" "payload_of ''a,1'' = 1" "payload_of ''c,2'' = 2"
    by (simp_all add: row_valid_def payload_of_def)
  moreover have "at_text (c_stream (opened False 1 broken_file)) (lines_text ([''a,1''] @ ''b,x'' # []) @ ''c,2'')"
    by (simp add: at_text_def opened_def skip_header_def stringstream_def good_def lines_text_def)
  moreover have "c_rows_num (opened False 1 broken_file) = 3" "c_cur_line_idx (opened False 1 broken_file) = 0"
    by (simp_all add: opened_def row_count_def)
  moreover have "3 \<le> max_strings" by (simp add: max_strings_def)
  ultimately show ?thesis
    using csv_exception_desynchronises [of "opened False 1 broken_file" "[''a,1'']" "''b,x''" "[]" "''c,2''"
        "Invalid_Argument ''stoull''" 3 "[]" "[]"] parsed
    by (simp add: numeral_2_eq_2) blast
qed

end
