(* ===== verification/Ecdh_Safety.thy ===== *)
theory Ecdh_Safety
  imports Ecdh_Properties
begin

text \<open>
  A party of ECDH PSI against a peer that does not follow the protocol: the exchange of keys and
  the cardinality mode withstand every peer, whose messages determine the count; \<open>process\<close> withstands the peers that return at least
  as many keys as they were sent, and reads out of range when fewer come back.
\<close>

section \<open>The exchange of keys\<close>

lemma slice_length: "slice xs a b = Inr ys \<Longrightarrow> length ys = b - a"
  by (auto simp: slice_def split: if_splits)

lemma vec_reserve_cases: "vec_reserve m n = (if n \<le> m then Inr () else Inl (Length_Error ''vector::reserve''))"
  by (simp add: vec_reserve_def)

text \<open>
  \<open>keys_received B h w h' r\<close>: after the messages \<open>h\<close> a count that \<open>B\<close> allows has arrived, a buffer
  behind it unless the count is zero, and \<open>r\<close> are the keys of width \<open>w\<close> that the buffer holds.
\<close>

definition keys_received ::
  "(byte list list \<Rightarrow> byte list \<Rightarrow> bool) \<Rightarrow> byte list list \<Rightarrow> nat \<Rightarrow> byte list list \<Rightarrow> byte_vector list \<Rightarrow> bool" where
  "keys_received B h w h' r \<longleftrightarrow> (\<forall>k\<in>set r. length k = w) \<and>
     (\<exists>s data. B h s \<and> length r = size_t_of s \<and> h' = h @ s # (if size_t_of s = 0 then [] else [data]) \<and>
      unpack_keys (if size_t_of s = 0 then [] else data) w (size_t_of s) = Inr r)"

lemma unpack_guarded:
  assumes "w \<le> 48" and "length buffer = (if n = 0 then 0 else size_mul n w)"
    and P: "\<And>r. unpack_keys buffer w n = Inr r \<Longrightarrow> length r = n \<Longrightarrow> \<forall>k\<in>set r. length k = w \<Longrightarrow> P h r"
  shows "guarded A B P (bindp (lift_res (vec_reserve max_vectors n)) (\<lambda>_.
       bindp (lift_res (unpack_keys buffer w n)) Ret)) h"
proof (cases "n \<le> max_vectors")
  case True
  then have "n * w \<le> max_vectors * 48" using assms(1) by (rule mult_le_mono)
  then have "n * w < 2 ^ 64" by (simp add: max_vectors_def)
  moreover from this assms(2) have "length buffer = n * w"
    by (simp add: size_mul_def split: if_splits)
  ultimately obtain ks where "unpack_keys buffer w n = Inr ks" "length ks = n" "\<forall>k\<in>set ks. length k = w"
    using unpack_keys_any by blast
  with True P show ?thesis by (simp add: vec_reserve_cases)
next
  case False
  then show ?thesis by (simp add: vec_reserve_cases)
qed

lemma recv_keys_guarded:
  assumes "w \<le> 48"
  shows "guarded A B (keys_received B h w) (recv_keys Net [] w) h"
  unfolding recv_keys_def Let_def net_ops_simps bindp.simps guarded.simps
proof (intro allI impI)
  fix b assume b: "B h b"
  show "guarded A B (keys_received B h w)
      (bindp (lift_res (vec_grow max_bytes (size_mul (size_t_of b) w))) (\<lambda>_.
       bindp (if size_t_of b \<noteq> 0 then Recv (size_mul (size_t_of b) w) Ret else Ret []) (\<lambda>buffer.
       bindp (lift_res (vec_reserve max_vectors (size_t_of b))) (\<lambda>_.
       bindp (lift_res (unpack_keys buffer w (size_t_of b))) (\<lambda>items. Ret ([] @ items)))))) (h @ [b])"
    using b by (cases "size_t_of b = 0")
      (auto simp: vec_grow_def keys_received_def intro!: unpack_guarded [OF assms])
qed

lemma send_keys_guarded: "P h () \<Longrightarrow> guarded A B P (send_keys Net ks w) h"
  by (simp add: send_keys_def vec_reserve_def)

lemma exchange_guarded:
  assumes "0 < w" and "w \<le> 48"
  shows "guarded A B (keys_received B h w) (exchange_encrypted_keys is_sender Net keys [] w) h"
proof (cases is_sender)
  case True
  have "guarded A B (keys_received B h w) (bindp (send_keys Net keys w) (\<lambda>_. recv_keys Net [] w)) h"
    by (rule guarded_bindp [OF send_keys_guarded [where P = "\<lambda>h' _. h' = h"]])
       (simp_all add: recv_keys_guarded [OF assms(2)])
  with True assms(1) show ?thesis by (simp add: exchange_encrypted_keys_def)
next
  case False
  have "guarded A B (keys_received B h w)
      (bindp (recv_keys Net [] w) (\<lambda>r. bindp (send_keys Net keys w) (\<lambda>_. Ret r))) h"
    by (rule guarded_bindp [OF recv_keys_guarded [OF assms(2)]],
        rule guarded_bindp [OF send_keys_guarded [where P = "\<lambda>h' _. keys_received B h w h' r" for r]])
       simp_all
  with False assms(1) show ?thesis by (simp add: exchange_encrypted_keys_def)
qed

section \<open>Encrypting what the peer sent\<close>

lemma survives_lift_res: "survives P (lift_res r) \<longleftrightarrow> (case r of Inl e \<Rightarrow> \<not> is_ub e | Inr x \<Rightarrow> P x)"
  by (simp add: lift_res_def split: sum.splits)

definition point_check_ok :: "('pt, 'sk, 'g) ec_openssl \<Rightarrow> bool" where
  "point_check_ok c \<longleftrightarrow> (\<forall>bs e. point_from_bytes c bs kEccPointLen = Inl e \<longrightarrow> \<not> is_ub e)"

lemma doublely_encrypt_keys_survives:
  assumes "point_check_ok (e_ecc_cipher self)" and "\<forall>k\<in>set ks. length k = kEccPointLen"
  shows "survives (\<lambda>es. \<forall>k\<in>set es. ec_ok (e_ecc_cipher self) \<longrightarrow> length k = kECCCompareBytesLen)
    (lift_res (doublely_encrypt_keys self ks))"
proof -
  let ?c = "e_ecc_cipher self"
  let ?P = "\<lambda>i t. length t = length ks \<and> (\<forall>j. i \<le> j \<longrightarrow> j < length ks \<longrightarrow> length (t ! j) = kEccPointLen) \<and>
    (\<forall>j<i. ec_ok ?c \<longrightarrow> length (t ! j) = kECCCompareBytesLen)"
  have width: "length (last_bytes kECCCompareBytesLen (point_to_bytes ?c q kEccPointLen)) = kECCCompareBytesLen"
    if "ec_ok ?c" for q
    using that by (simp add: ec_ok_def last_bytes_def defines_simps)
  have "survives (?P n) (lift_res (for_upto n (doublely_encrypt_step self) ks))" if "n \<le> length ks" for n
    using that
  proof (induction n)
    case 0
    then show ?case using assms(2) by simp
  next
    case (Suc n)
    show ?case
    proof (cases "for_upto n (doublely_encrypt_step self) ks")
      case (Inl e)
      with Suc show ?thesis by (simp add: for_upto_Suc)
    next
      case (Inr t)
      with Suc have t: "?P n t" by simp
      then have s: "slice (t ! n) 0 kEccPointLen = Inr (t ! n)" using Suc.prems by (simp add: slice_def)
      show ?thesis
      proof (cases "point_from_bytes ?c (t ! n) kEccPointLen")
        fix e assume "point_from_bytes ?c (t ! n) kEccPointLen = Inl e"
        with Inr t s Suc.prems assms(1) show ?thesis
          unfolding for_upto_Suc Inr res_bind_Inr
            by (simp add: doublely_encrypt_step_def point_check_ok_def)
      next
        fix q assume "point_from_bytes ?c (t ! n) kEccPointLen = Inr q"
        with Inr t s Suc.prems show ?thesis
          unfolding for_upto_Suc Inr res_bind_Inr
            by (simp add: doublely_encrypt_step_def Let_def nth_list_update width less_Suc_eq)
      qed
    qed
  qed
  from this [of "length ks"] show ?thesis
    unfolding doublely_encrypt_keys_def by (rule survives_mono) (auto simp: in_set_conv_nth)
qed

section \<open>A run against any peer\<close>

text \<open>Both rounds: what is left is the comparison of the peer's keys with what came back.\<close>

lemma ecdh_rounds_guarded:
  assumes "point_check_ok (e_ecc_cipher self)"
    and k: "\<And>h received exchanged h' own. keys_received B [] kEccPointLen h received \<Longrightarrow>
      doublely_encrypt_keys self received = Inr exchanged \<Longrightarrow>
      \<forall>e\<in>set exchanged. ec_ok (e_ecc_cipher self) \<longrightarrow> length e = kECCCompareBytesLen \<Longrightarrow>
      keys_received B h kECCCompareBytesLen h' own \<Longrightarrow> guarded A B P (k exchanged own) h'"
  shows "guarded A B P (ecdh_rounds self Net shuffled k) []"
proof -
  have w: "0 < kEccPointLen" "kEccPointLen \<le> 48" "0 < kECCCompareBytesLen" "kECCCompareBytesLen \<le> 48"
    by (simp_all add: defines_simps)
  have second: "guarded A B P (bindp (if e_remote_obtain_result self
        then exchange_encrypted_keys (e_is_sender self) Net exchanged [] kECCCompareBytesLen
        else exchange_encrypted_keys (e_is_sender self) Net [] [] kECCCompareBytesLen) (k exchanged)) h"
    if "keys_received B [] kEccPointLen h received"
      and "doublely_encrypt_keys self received = Inr exchanged"
      and "\<forall>e\<in>set exchanged. ec_ok (e_ecc_cipher self) \<longrightarrow> length e = kECCCompareBytesLen"
    for exchanged received h
    using k [OF that] by (cases "e_remote_obtain_result self")
      (simp_all add: guarded_bindp [OF exchange_guarded [OF w(3,4)]])
  show ?thesis
    unfolding ecdh_rounds_def encrypt_keys_result [OF length_replicate] lift_res_simps bindp.simps
  proof (rule guarded_bindp [OF exchange_guarded [OF w(1,2)]])
    fix h received assume first: "keys_received B [] kEccPointLen h received"
    then have "\<forall>k\<in>set received. length k = kEccPointLen" by (simp add: keys_received_def)
    from doublely_encrypt_keys_survives [OF assms(1) this] second [OF first]
    show "guarded A B P (bindp (lift_res (doublely_encrypt_keys self received)) (\<lambda>exchanged.
        bindp (if e_remote_obtain_result self
          then exchange_encrypted_keys (e_is_sender self) Net exchanged [] kECCCompareBytesLen
          else exchange_encrypted_keys (e_is_sender self) Net [] [] kECCCompareBytesLen) (k exchanged))) h"
      unfolding survives_lift_res by (intro guarded_lift) (simp_all split: sum.splits)
  qed
qed

text \<open>A count announces the keys that come back when it follows the first round of messages.\<close>

fun second_announcement :: "byte list list \<Rightarrow> bool" where
  "second_announcement [s] = (size_t_of s = 0)"
| "second_announcement [s, data] = (size_t_of s \<noteq> 0)"
| "second_announcement _ = False"

definition returns_enough :: "nat \<Rightarrow> byte list list \<Rightarrow> byte list \<Rightarrow> bool" where
  "returns_enough n h b \<longleftrightarrow> (second_announcement h \<longrightarrow> n \<le> size_t_of b)"

lemma second_announcement_received: "keys_received B [] w h r \<Longrightarrow> second_announcement h"
  by (auto simp: keys_received_def)

text \<open>Comparing with at least as many keys as the party has: the rest holds empty vectors, which match nothing.\<close>

lemma compare_returned:
  assumes p: "mset p = mset [0..<length keys]" and own: "length keys \<le> length own"
    and exchanged: "\<forall>e\<in>set exchanged. length e = kECCCompareBytesLen"
  shows "\<exists>unshuffled out. permute_and_undo [] p False own = Inr unshuffled \<and>
    calculate_intersection (sort exchanged) unshuffled keys shuffled = Inr out \<and>
    (subseq out keys \<or> out = shuffled)"
proof -
  obtain us where us: "permute_and_undo [] p False own = Inr us" "length us = length own"
      "drop (length keys) us = replicate (length own - length keys) []"
    using permute_undo_prefix [OF p own, of "[]"] by blast
  show ?thesis
  proof (cases "sort exchanged = [] \<or> us = [] \<or> keys = []")
    case True
    then have "calculate_intersection (sort exchanged) us keys shuffled = Inr shuffled"
      by (rule calculate_intersection_empty)
    with us(1) show ?thesis by simp
  next
    case False
    have "[] \<notin> set exchanged" using exchanged by (auto simp: defines_simps)
    then have "set (drop (length keys) us) \<inter> set (sort exchanged) = {}" by (auto simp: us(3) set_replicate_conv_if)
    with False us(2) own have "calculate_intersection (sort exchanged) us keys shuffled =
        Inr (marked (map (\<lambda>k. k \<in> set (sort exchanged)) (take (length keys) us)) keys)"
      by (intro calculate_intersection_prefix) (simp_all del: set_sort)
    with us(1) show ?thesis by (simp add: subseq_marked)
  qed
qed

text \<open>C15: Against any peer, a party that obtains the result meets no undefined behaviour as long as
  the peer announces at least as many doubly encrypted keys as the party has, and a party that does
  not obtain it withstands every peer; what comes out is a subsequence of the party's own keys, or
  all of them shuffled, or nothing when the result is not obtained.\<close>

theorem ecdh_process_any_peer:
  assumes "uniform_ok draw" and "ec_ok (e_ecc_cipher self)" and "point_check_ok (e_ecc_cipher self)"
  shows "guarded A (\<lambda>h b. e_obtain_result self \<longrightarrow> returns_enough (length keys) h b)
    (\<lambda>_ out. if e_obtain_result self then subseq out keys \<or> mset out = mset keys else out = [])
    (ecdh_process draw g self Net keys) []"
    (is "guarded A ?B ?P _ _")
proof -
  obtain p g' where p: "generate_permutation draw g (length keys) = Inr (p, g')"
      "mset p = mset [0..<length keys]"
    using generate_permutation_perm [OF assms(1)] by blast
  have len: "length (map ((!) keys) p) = length keys"
    using perm_length [OF p(2)] by simp
  show ?thesis
    unfolding ecdh_process_rounds [OF p(1) permute_perm [OF p(2)] len]
  proof (rule ecdh_rounds_guarded [OF assms(3)])
    fix h received h' and exchanged own :: "byte_vector list"
    assume first: "keys_received ?B [] kEccPointLen h received"
      and ex: "\<forall>e\<in>set exchanged. ec_ok (e_ecc_cipher self) \<longrightarrow> length e = kECCCompareBytesLen"
      and second: "keys_received ?B h kECCCompareBytesLen h' own"
    show "guarded A ?B ?P (if e_obtain_result self
        then bindp (lift_res (permute_and_undo [] p False own)) (\<lambda>unshuffled.
               lift_res (calculate_intersection (sort exchanged) unshuffled keys (map ((!) keys) p)))
        else Ret []) h'"
    proof (cases "e_obtain_result self")
      case True
      then have "length keys \<le> length own"
        using second second_announcement_received [OF first]
        by (auto simp: keys_received_def returns_enough_def)
      from compare_returned [OF p(2) this, of exchanged "map ((!) keys) p"] ex assms(2)
      obtain us out where "permute_and_undo [] p False own = Inr us"
        "calculate_intersection (sort exchanged) us keys (map ((!) keys) p) = Inr out"
        "subseq out keys \<or> out = map ((!) keys) p" by blast
      with True mset_map_nth_perm [OF p(2)] show ?thesis by auto
    qed simp
  qed
qed

lemma doublely_encrypt_none: "doublely_encrypt_keys self [] = Inr []"
  by (simp add: doublely_encrypt_keys_def)

text \<open>What both rounds leave in the history bounds any selection of the keys that came back.\<close>

lemma reply_bounded:
  assumes "keys_received B [] w h1 received" and "keys_received B' h1 w' h own"
  shows "(size_t_of (h ! 0) = 0 \<longleftrightarrow> received = []) \<and>
    (received \<noteq> [] \<longrightarrow> length (filter p own) \<le> size_t_of (h ! 2))"
proof -
  from assms obtain s data s' data' where
    "length received = size_t_of s" "h1 = s # (if size_t_of s = 0 then [] else [data])"
    "length own = size_t_of s'" "h = h1 @ s' # (if size_t_of s' = 0 then [] else [data'])"
    unfolding keys_received_def by auto
  moreover from this length_filter_le [of p own] have "length (filter p own) \<le> size_t_of s'" by simp
  ultimately show ?thesis by auto
qed

lemma toy_point_check: "point_check_ok (e_ecc_cipher (toy_party sd ob rm k))"
  by (simp add: point_check_ok_def toy_party_def ecdh_object_def toy_curve_def)

theorem ecdh_process_any_peer_witness:
  "guarded (\<lambda>_ _. False) (\<lambda>h b. True \<longrightarrow> returns_enough (length [''c'', ''h'']) h b)
    (\<lambda>_ out. if True then subseq out [''c'', ''h''] \<or> mset out = mset [''c'', ''h''] else out = [])
    (ecdh_process replay [1] (toy_party True True True 3) Net [''c'', ''h''] :: (unit, unit, _) proc) []"
proof -
  have "e_obtain_result (toy_party True True True 3) = True" "e_ecc_cipher (toy_party True True True 3) = toy_curve"
    by (simp_all add: toy_party_def ecdh_object_def)
  then show ?thesis
    using ecdh_process_any_peer [OF uniform_ok_replay _ toy_point_check [of True True True 3], where
      A = "\<lambda>_ _. False" and g = "[1]" and keys = "[''c'', ''h'']"] toy_curve_ok by simp
qed

text \<open>C16: In the cardinality mode no peer can drive a party into undefined behaviour, whatever counts
  and bytes it sends, as long as the curve library refuses bytes that are no point with an
  exception. What a party that obtains the result returns is determined by the messages it
  received: the number of the keys in the second buffer that occur among its encryptions of the
  points in the first. The count is at most the number announced in the second round, and zero
  when the first announced none; a party that does not obtain the result returns zero.\<close>

theorem ecdh_cardinality_any_peer:
  assumes "uniform_ok draw" and "point_check_ok (e_ecc_cipher self)"
  shows "guarded (\<lambda>_ _. True) (\<lambda>_ _. True)
    (\<lambda>h count. if e_obtain_result self
       then (\<exists>h1 received exchanged own. keys_received (\<lambda>_ _. True) [] kEccPointLen h1 received \<and>
               doublely_encrypt_keys self received = Inr exchanged \<and>
               keys_received (\<lambda>_ _. True) h1 kECCCompareBytesLen h own \<and>
               count = length (filter (\<lambda>k. k \<in> set exchanged) own)) \<and>
            (if size_t_of (h ! 0) = 0 then count = 0 else count \<le> size_t_of (h ! 2))
       else count = 0)
    (ecdh_process_cardinality_only draw g self Net keys) []"
    (is "guarded _ _ ?P _ _")
proof -
  obtain p g' where p: "generate_permutation draw g (length keys) = Inr (p, g')"
      "mset p = mset [0..<length keys]"
    using generate_permutation_perm [OF assms(1)] by blast
  have len: "length (map ((!) keys) p) = length keys"
    using perm_length [OF p(2)] by simp
  show ?thesis
    unfolding ecdh_cardinality_rounds [OF p(1) permute_perm [OF p(2)] len]
  proof (rule ecdh_rounds_guarded [OF assms(2)])
    fix h1 received exchanged h own
    assume first: "keys_received (\<lambda>_ _. True) [] kEccPointLen h1 received"
      and ex: "doublely_encrypt_keys self received = Inr exchanged"
      and second: "keys_received (\<lambda>_ _. True) h1 kECCCompareBytesLen h own"
    let ?count = "length (filter (\<lambda>k. k \<in> set exchanged) own)"
    have "received = [] \<Longrightarrow> exchanged = []" using doublely_encrypt_none [of self] ex by auto
    then have bound: "if size_t_of (h ! 0) = 0 then ?count = 0 else ?count \<le> size_t_of (h ! 2)"
      using reply_bounded [OF first second, of "\<lambda>k. k \<in> set exchanged"] by auto
    show "guarded (\<lambda>_ _. True) (\<lambda>_ _. True) ?P (if e_obtain_result self
        then lift_res (calculate_cardinality_only (sort exchanged) own) else Ret 0) h"
    proof (cases "e_obtain_result self")
      case True
      show ?thesis
        unfolding calculate_cardinality_result [OF sorted_sort] set_sort lift_res_simps if_P [OF True] guarded.simps
        using first ex second bound by blast
    qed simp
  qed
qed

theorem ecdh_cardinality_any_peer_witness:
  "e_obtain_result (toy_party True True True 3) \<and>
    guarded (\<lambda>_ _. True) (\<lambda>_ _. True)
      (\<lambda>h count. (\<exists>h1 received exchanged own. keys_received (\<lambda>_ _. True) [] kEccPointLen h1 received \<and>
           doublely_encrypt_keys (toy_party True True True 3) received = Inr exchanged \<and>
           keys_received (\<lambda>_ _. True) h1 kECCCompareBytesLen h own \<and>
           count = length (filter (\<lambda>k. k \<in> set exchanged) own)) \<and>
         (if size_t_of (h ! 0) = 0 then count = 0 else count \<le> size_t_of (h ! 2)))
      (ecdh_process_cardinality_only replay [1] (toy_party True True True 3) Net
        [''c'', ''h''] :: (unit, unit, _) proc) []"
proof -
  have flag: "e_obtain_result (toy_party True True True 3)" by (simp add: toy_party_def ecdh_object_def)
  show ?thesis
    using ecdh_cardinality_any_peer [OF uniform_ok_replay toy_point_check [of True True True 3],
      where g = "[1]" and keys = "[''c'', ''h'']"] flag by (simp only: flag if_True simp_thms)
qed

text \<open>C39: A peer without keys of its own that sends back fewer keys than it was sent, whatever
  their bytes, makes a party that obtains the result undo its permutation past the end of the
  vector: the number of keys that come back is not compared with the number sent.\<close>

theorem ecdh_short_reply_reads_out_of_range:
  assumes "uniform_ok draw" and "e_obtain_result self" and "key_count_ok (length keys)"
    and m: "m < length keys" and data: "length data = m * kECCCompareBytesLen"
  shows "\<exists>msg. fed (ecdh_process draw g self Net keys) (size_t_bytes 0 @ size_t_bytes m @ data) =
    Some (Inl (Undefined_Behaviour msg))"
proof -
  obtain p g' where p: "generate_permutation draw g (length keys) = Inr (p, g')"
      "mset p = mset [0..<length keys]"
    using generate_permutation_perm [OF assms(1)] by blast
  have len: "length (map ((!) keys) p) = length keys"
    using perm_length [OF p(2)] by simp
  have count: "length keys * kEccPointLen \<le> max_bytes" "length keys * kEccPointLen < 2 ^ 64"
    using assms(3) by (simp_all add: key_count_ok_def max_bytes_def)
  then have small: "m < 2 ^ 64" "m * kECCCompareBytesLen < 2 ^ 64" "m * kECCCompareBytesLen \<le> max_bytes"
      "m \<le> max_vectors"
    using m by (simp_all add: defines_simps max_bytes_def max_vectors_def)
  from unpack_keys_any [OF data small(2)] obtain own where
    own: "unpack_keys data kECCCompareBytesLen m = Inr own" "length own = m" by blast
  obtain msg where undo: "permute_and_undo [] p False own = Inl (Undefined_Behaviour msg)"
    using permute_undo_short [OF p(2), of own] own(2) m by auto
  have pos: "0 < kEccPointLen" "0 < kECCCompareBytesLen" by (simp_all add: defines_simps)
  have none: "unpack_keys [] w 0 = Inr []" "doublely_encrypt_keys self [] = Inr []" for w
    by (simp_all add: unpack_keys_def doublely_encrypt_keys_def)
  note codec = size_codec.enc_width [OF small(1)] size_codec.dec_enc [OF small(1)]
  have "fed (ecdh_rounds self Net (map ((!) keys) p) (\<lambda>exchanged own.
      if e_obtain_result self
      then bindp (lift_res (permute_and_undo [] p False own)) (\<lambda>unshuffled.
             lift_res (calculate_intersection (sort exchanged) unshuffled keys (map ((!) keys) p)))
      else Ret [])) (size_t_bytes 0 @ size_t_bytes m @ data) = Some (Inl (Undefined_Behaviour msg))"
    using assms(2) own undo len count pos small data
    by (cases "m = 0") (simp_all add: ecdh_rounds_def encrypt_keys_result exchange_encrypted_keys_def
        send_keys_def recv_keys_def vec_reserve_def vec_grow_def size_codec.enc_width
        size_codec.dec_enc size_mul_def none codec Let_def)
  then show ?thesis
    unfolding ecdh_process_rounds [OF p(1) permute_perm [OF p(2)] len] by blast
qed

theorem ecdh_short_reply_witness:
  "\<exists>msg. fed (ecdh_process replay [1] (toy_party True True True 3) Net [''c'', ''h''] ::
      (unit, unit, _) proc) (size_t_bytes 0 @ size_t_bytes 1 @ replicate kECCCompareBytesLen 7) =
    Some (Inl (Undefined_Behaviour msg))"
  by (rule ecdh_short_reply_reads_out_of_range [OF uniform_ok_replay])
     (simp_all add: toy_party_def ecdh_object_def key_count_ok_def defines_simps max_bytes_def)

end
