(* ===== verification/Kkrt_Sender_Safety.thy ===== *)
theory Kkrt_Sender_Safety
  imports Kkrt_Safety
begin

text \<open>
  The sender of KKRT PSI against a peer that does not follow the protocol. The peer's first message,
  its number of keys, fixes the size of the sender's table; the serialised result is the only
  other message whose bytes decide what the sender does.
\<close>

section \<open>The sender's half of the run\<close>

text \<open>An announced number of keys from which the library builds a proper simple table.\<close>

definition sender_table_ok ::
  "hash_lib \<Rightarrow> 'r prng_lib \<Rightarrow> (nat \<Rightarrow> nat \<Rightarrow> item \<Rightarrow> nat) \<Rightarrow> 'r kkrt_psi \<Rightarrow> string list \<Rightarrow> nat \<Rightarrow> bool" where
  "sender_table_ok hl pl loc a xs n \<longleftrightarrow>
     (case bins_for n (k_epsilon a) of
        Inl e \<Rightarrow> False
      | Inr bins \<Rightarrow> simple_table_ok (loc bins) bins (k_num_of_fun a) (hash_keys hl xs)
          (bin_entry_values hl bins (table_seed pl a) (k_num_of_fun a) (hash_keys hl xs))
          (bin_entry_function_ids hl bins (table_seed pl a) (k_num_of_fun a) (hash_keys hl xs)))"

lemma sender_oprf_guarded:
  assumes uni: "uniform_ok (prng_standard pl)"
    and simple: "simple_table_ok loc bins (k_num_of_fun a) (hash_keys hl xs)
      (bin_entry_values hl bins (table_seed pl a) (k_num_of_fun a) (hash_keys hl xs))
      (bin_entry_function_ids hl bins (table_seed pl a) (k_num_of_fun a) (hash_keys hl xs))"
  shows "guarded A B (\<lambda>h' a'. length h' = Suc (length h) \<and> k_common_prng a' = next_common pl a)
    (kkrt_sender_oprf hl pl a Net bins (hash_keys hl xs) (length xs)) h"
    (is "guarded _ _ ?P _ _")
proof -
  define k where "k = k_num_of_fun a"
  let ?n = "length xs" and ?keys = "hash_keys hl xs" and ?seed = "table_seed pl a"
  let ?vals = "bin_entry_values hl bins ?seed k ?keys"
  let ?fids = "bin_entry_function_ids hl bins ?seed k ?keys"
  note simple = simple [folded k_def]
  have seed: "prng_generate pl (k_common_prng a) kRandSeedBytesLen = (?seed, next_common pl a)"
    by (simp add: table_seed_def next_common_def)
  have blocks: "table_blocks bins ?vals = Inr (map (map block_of) ?vals)"
    using simple by (intro table_blocks_result) (simp add: simple_table_ok_def)
  have rest: "guarded A B ?P
     (bindp (lift_res (encode_table F k bins ?fids (map (map block_of) ?vals))) (\<lambda>enc_data.
      bindp (lift_res (shuffle_rows (prng_standard pl) k ?n enc_data (k_prng a))) (\<lambda>(rows, prng').
      bindp (lift_res (vec_reserve max_bytes (size_mul (size_mul k ?n) kReduceStatisticsLen))) (\<lambda>_.
      bindp (lift_res (reduce_rows k ?n rows)) (\<lambda>out.
      Send out (Ret (a\<lparr>k_prng := prng', k_common_prng := next_common pl a\<rparr>))))))) h'"
    if "length h' = Suc (length h)" for F h'
  proof -
    obtain out g where out:
      "encode_table F k bins ?fids (map (map block_of) ?vals) =
         Inr (map (encoded F (table_entries ?vals ?fids)) [0..<k])"
      "shuffle_rows (prng_standard pl) k ?n (map (encoded F (table_entries ?vals ?fids)) [0..<k]) (k_prng a) =
         Inr (out, g)"
      "length out = k" "\<forall>f<k. mset (map reduce (out ! f)) = mset (map (encoding hl loc F f) xs)"
      using sender_rows [OF uni simple, of F "k_prng a"] by blast
    have "\<forall>f<k. length (out ! f) = ?n" using out(4) by (metis mset_eq_length length_map)
    from reduce_rows_result [OF out(3) this] that show ?thesis
      by (simp add: out(1,2) vec_reserve_def)
  qed
  show ?thesis
    unfolding kkrt_sender_oprf_def seed prod.case Let_def k_def [symmetric] net_ops_simps bindp.simps guarded.simps
  proof (intro allI impI, rule guarded_check_stash, rule guarded_lift, force simp: vec_create_def split: if_splits,
      unfold blocks lift_res_simps bindp.simps guarded.simps, intro allI impI)
    fix d and b :: "byte list"
    show "guarded A B ?P
      (case d of Nco_Ot_Encoder encode \<Rightarrow>
         bindp (lift_res (vec_create max_vectors k)) (\<lambda>_.
         bindp (lift_res (encode_table encode k bins ?fids (map (map block_of) ?vals))) (\<lambda>enc_data.
         bindp (lift_res (shuffle_rows (prng_standard pl) k ?n enc_data (k_prng a))) (\<lambda>(rows, prng').
         bindp (lift_res (vec_reserve max_bytes (size_mul (size_mul k ?n) kReduceStatisticsLen))) (\<lambda>_.
         bindp (lift_res (reduce_rows k ?n rows)) (\<lambda>out.
         Send out (Ret (a\<lparr>k_prng := prng', k_common_prng := next_common pl a\<rparr>)))))))
       | _ \<Rightarrow> Throw (Runtime_Error ''oprf'')) (h @ [b])"
      by (cases d) (auto simp: vec_create_def intro!: rest)
  qed
qed

text \<open>What the messages of a peer are bound to: the first one and, when a result comes back, the fourth.\<close>

definition sender_peer_ok ::
  "hash_lib \<Rightarrow> 'r prng_lib \<Rightarrow> (nat \<Rightarrow> nat \<Rightarrow> item \<Rightarrow> nat) \<Rightarrow> 'r kkrt_psi \<Rightarrow> string list \<Rightarrow>
     byte list list \<Rightarrow> byte list \<Rightarrow> bool" where
  "sender_peer_ok hl pl loc a xs h b \<longleftrightarrow>
     (h = [] \<longrightarrow> sender_table_ok hl pl loc a xs (size_t_of b)) \<and>
     (length h = 3 \<longrightarrow> terminated (bytes_string b))"

lemma sender_head_guarded:
  assumes "uniform_ok (prng_standard pl)"
    and B: "\<And>b. B [] b \<Longrightarrow> sender_table_ok hl pl loc a xs (size_t_of b)"
  shows "guarded A B (\<lambda>h a'. length h = 2 \<and> k_common_prng a' = next_common pl a) (sender_head hl pl a xs) []"
  unfolding sender_head_def kkrt_exchange_sizes_def if_True bindp_assoc net_ops_simps bindp.simps prod.case guarded.simps
proof (intro allI impI)
  fix b assume "B [] b"
  from B [OF this] obtain bins where bins: "bins_for (size_t_of b) (k_epsilon a) = Inr bins"
    and table: "simple_table_ok (loc bins) bins (k_num_of_fun a) (hash_keys hl xs)
      (bin_entry_values hl bins (table_seed pl a) (k_num_of_fun a) (hash_keys hl xs))
      (bin_entry_function_ids hl bins (table_seed pl a) (k_num_of_fun a) (hash_keys hl xs))"
    by (auto simp: sender_table_ok_def split: sum.splits)
  from sender_oprf_guarded [OF assms(1) table, of A B "[b]"]
  show "guarded A B (\<lambda>h a'. length h = 2 \<and> k_common_prng a' = next_common pl a)
     (bindp (lift_res (bins_for (size_t_of b) (k_epsilon a))) (\<lambda>bs.
        kkrt_sender_oprf hl pl a Net bs (hash_keys hl xs) (length xs))) ([] @ [b])"
    by (simp add: bins numeral_2_eq_2)
qed

text \<open>C17: A sender meets no undefined behaviour in either entry point, whatever the OPRF hands it and
  whatever the peer sends, as long as the number of keys the peer announces gives a number of bins
  of which the library builds a proper simple table, and the serialised result that comes back
  consists of terminated strings. It returns those strings, or the count the peer sent, when it
  obtains the result, and its common generator has moved on by one seed.\<close>

theorem kkrt_sender_any_peer:
  assumes "uniform_ok (prng_standard pl)" and "k_is_sender a"
  shows "guarded A (sender_peer_ok hl pl loc a xs)
      (\<lambda>h (out', a'). k_common_prng a' = next_common pl a \<and>
         (if k_sender_obtain_result a then deserialize_string_from_char (bytes_string (h ! 3)) [] = Inr out'
          else out' = out))
      (kkrt_process hl pl a Net xs out) [] \<and>
    guarded A (\<lambda>h b. h = [] \<longrightarrow> sender_table_ok hl pl loc a xs (size_t_of b))
      (\<lambda>h (cnt, a'). k_common_prng a' = next_common pl a \<and>
         cnt = (if k_sender_obtain_result a then size_t_of (h ! 2) else 0))
      (kkrt_process_cardinality_only hl pl a Net xs) []"
    (is "?process \<and> ?cardinality")
proof
  show ?process
    unfolding kkrt_process_roles(1) [OF assms(2)]
  proof (rule guarded_bindp [OF sender_head_guarded [OF assms(1)]])
    fix h :: "byte list list" and a' assume h: "length h = 2 \<and> k_common_prng a' = next_common pl a"
    show "guarded A (sender_peer_ok hl pl loc a xs)
      (\<lambda>h (out', a'). k_common_prng a' = next_common pl a \<and>
         (if k_sender_obtain_result a then deserialize_string_from_char (bytes_string (h ! 3)) [] = Inr out'
          else out' = out))
      (if k_sender_obtain_result a
       then bindp (recv_data Net 8) (\<lambda>b.
            bindp (lift_res (vec_create max_bytes (size_t_of b))) (\<lambda>_.
            bindp (recv_data Net (size_t_of b)) (\<lambda>serialized_key.
            bindp (lift_res (deserialize_string_from_char (bytes_string serialized_key) []))
              (\<lambda>out. Ret (out, a')))))
       else Ret (out, a')) h"
      using h deserialize_terminated
      by (auto simp: vec_create_def sender_peer_ok_def nth_append dest!: deserialize_terminated)
  qed (simp add: sender_peer_ok_def)
  show ?cardinality
    unfolding kkrt_cardinality_roles(1) [OF assms(2)]
    by (rule guarded_bindp [OF sender_head_guarded [OF assms(1)]]) (auto simp: nth_append)
qed

theorem kkrt_sender_any_peer_witness:
  "sender_table_ok toy_hash toy_prng (\<lambda>_. toy_loc 3) (toy_kkrt True True) toy_xs 2 \<and>
   guarded (\<lambda>_ _. True) (sender_peer_ok toy_hash toy_prng (\<lambda>_. toy_loc 3) (toy_kkrt True True) toy_xs)
      (\<lambda>h (out', a'). k_common_prng a' = next_common toy_prng (toy_kkrt True True) \<and>
         deserialize_string_from_char (bytes_string (h ! 3)) [] = Inr out')
      (kkrt_process toy_hash toy_prng (toy_kkrt True True) Net toy_xs []) []"
proof
  have fields: "k_epsilon (toy_kkrt True True) = 0x3ff8000000000000" "k_num_of_fun (toy_kkrt True True) = 2"
    "k_is_sender (toy_kkrt True True)"
    by (simp_all add: toy_kkrt_def)
  show "sender_table_ok toy_hash toy_prng (\<lambda>_. toy_loc 3) (toy_kkrt True True) toy_xs 2"
    using toy_tables [unfolded numeral_2_eq_2] toy_bins [unfolded numeral_2_eq_2]
    by (simp add: sender_table_ok_def kkrt_tables_ok_def fields numeral_2_eq_2)
  show "guarded (\<lambda>_ _. True) (sender_peer_ok toy_hash toy_prng (\<lambda>_. toy_loc 3) (toy_kkrt True True) toy_xs)
      (\<lambda>h (out', a'). k_common_prng a' = next_common toy_prng (toy_kkrt True True) \<and>
         deserialize_string_from_char (bytes_string (h ! 3)) [] = Inr out')
      (kkrt_process toy_hash toy_prng (toy_kkrt True True) Net toy_xs []) []"
    using kkrt_sender_any_peer [OF toy_uniform fields(3), THEN conjunct1] by (simp add: toy_flag)
qed

text \<open>An announced number for which the number of bins does not fit makes the conversion undefined.\<close>

lemma kkrt_announced_bins_overflow:
  assumes "k_is_sender a" and "n < 2 ^ 64" and "bins_for n (k_epsilon a) = Inl e"
  shows "fed (kkrt_process hl pl a Net xs out) (size_t_bytes n) = Some (Inl e)"
  unfolding kkrt_process_roles(1) [OF assms(1)] sender_head_def kkrt_exchange_sizes_def
  by (simp add: size_codec.enc_width [OF assms(2)] size_codec.dec_enc [OF assms(2)] assms(3))

lemma bins_overflow: "bins_for (2 ^ 64 - 1) 0x3ff451eb851eb852 = Inl (Undefined_Behaviour ''double to size_t'')"
proof -
  have d: "decode 0x3ff451eb851eb852 = Fin False 5719571526760530 (- 52)"
    by (simp add: decode_def)
  show ?thesis unfolding bins_for_def d by (simp add: double_eval size_of_ceil_def)
qed

end
