(* ===== verification/Pjc_Clients.thy ===== *)
theory Pjc_Clients
  imports Circuit_Session Factory
begin

text \<open>
  \<open>pjc/pjc.h\<close>: the abstract class \<open>PJC\<close> behind which a client uses a private-join-and-compute
  scheme, with circuit PSI as its one implementation; the contract of its entry point; and a
  client that goes through the factory.
\<close>

section \<open>The virtual functions\<close>

datatype 'r pjc = Circuit_Instance "'r circuit_psi"

definition pjc_init ::
  "('j, double) json_lib \<Rightarrow> 'r prng_lib \<Rightarrow> 'r \<Rightarrow> pjc_object \<Rightarrow> net \<Rightarrow> 'j \<Rightarrow> 'r pjc verse_proc" where
  "pjc_init js pl prng object net params =
     (case object of
        Circuit_Psi_Object \<Rightarrow>
          bindp (circuit_init js pl prng net params) (\<lambda>self. Ret (Circuit_Instance self)))"

definition pjc_process ::
  "hash_lib \<Rightarrow> 'r prng_lib \<Rightarrow> 'r pjc \<Rightarrow> net \<Rightarrow> string list \<Rightarrow> 64 word list list \<Rightarrow>
     (matrix \<times> 'r pjc) verse_proc" where
  "pjc_process hl pl self net input_keys input_features =
     (case self of
        Circuit_Instance p \<Rightarrow>
          bindp (circuit_process hl pl p net input_keys input_features)
            (\<lambda>(shares, p'). Ret (shares, Circuit_Instance p')))"

text \<open>A client of the factory: build, initialise, run, keep the shares.\<close>

definition pjc_client ::
  "('j, double) json_lib \<Rightarrow> hash_lib \<Rightarrow> 'r prng_lib \<Rightarrow> 'r \<Rightarrow> pjc_scheme \<Rightarrow> net \<Rightarrow> 'j \<Rightarrow>
     string list \<Rightarrow> 64 word list list \<Rightarrow> matrix verse_proc" where
  "pjc_client js hl pl prng scheme net params keys features =
     bindp (lift_res (build_pjc scheme)) (\<lambda>object.
     bindp (pjc_init js pl prng object net params) (\<lambda>self.
     bindp (pjc_process hl pl self net keys features) (\<lambda>(shares, self'). Ret shares)))"

lemma build_pjc_schemes:
  "build_pjc PJC_CIRCUIT_PSI = Inr Circuit_Psi_Object"
  "scheme \<noteq> PJC_CIRCUIT_PSI \<Longrightarrow> build_pjc scheme = Inl creator_not_registered"
  by (cases scheme; simp add: build_pjc_def build_def pjc_factory_def register_pjc_def)+

lemma pjc_client_unregistered:
  "scheme \<noteq> PJC_CIRCUIT_PSI \<Longrightarrow>
     pjc_client js hl pl prng scheme net params keys features = Throw creator_not_registered"
  by (simp add: pjc_client_def build_pjc_schemes)

section \<open>The contract\<close>

text \<open>
  The ideal functionality: a table whose columns are the receiver's keys, each in one column, and
  empty columns between them.
\<close>

definition column_keys :: "string option list \<Rightarrow> string list" where
  "column_keys keys = map the (filter (\<lambda>key. key \<noteq> None) keys)"

definition pjc_result ::
  "string list \<times> 64 word list list \<Rightarrow> string list \<times> 64 word list list \<Rightarrow> matrix \<Rightarrow> bool" where
  "pjc_result x y M \<longleftrightarrow>
     (\<exists>keys. mset (column_keys keys) = mset (fst y) \<and> M = joined_table (fst x) (snd x) (fst y) (snd y) keys)"

text \<open>The ones of its first row count the intersection.\<close>

lemma pjc_result_count:
  assumes "pjc_result x y M"
  shows "length (filter (\<lambda>v. v = 1) (M ! 0)) = length (intersection (fst y) (fst x))"
proof -
  obtain xs xf ys yf where xy: "x = (xs, xf)" "y = (ys, yf)" by (metis surj_pair)
  from assms obtain keys where keys: "mset (column_keys keys) = mset ys" "M = joined_table xs xf ys yf keys"
    by (auto simp: pjc_result_def xy)
  have "[0..<length xf + length yf + 1] ! 0 = 0" by (simp del: upt_Suc)
  then have row: "M ! 0 = map (\<lambda>key. joined_spec xs xf ys yf key 0) keys"
    by (simp add: keys(2) joined_table_def del: upt_Suc)
  have "length (filter (\<lambda>v. v = 1) (M ! 0)) = length (filter (\<lambda>y. y \<in> set xs) (column_keys keys))"
    unfolding row by (induction keys) (auto simp: joined_spec_def column_keys_def)
  also have "\<dots> = size (filter_mset (\<lambda>y. y \<in> set xs) (mset (column_keys keys)))"
    by (simp only: mset_filter [symmetric] size_mset)
  also have "\<dots> = length (intersection ys xs)"
    unfolding keys(1) intersection_def by (simp only: mset_filter [symmetric] size_mset)
  finally show ?thesis by (simp add: xy)
qed

locale two_party_pjc =
  fixes ideal :: "(verse_request, verse_answer) ideal"
    and process :: "'o \<Rightarrow> 'i \<Rightarrow> (matrix \<times> 'o) verse_proc"
    and matched :: "'o \<Rightarrow> 'o \<Rightarrow> 'i \<Rightarrow> 'i \<Rightarrow> bool"
    and result :: "'i \<Rightarrow> 'i \<Rightarrow> matrix \<Rightarrow> bool"
  assumes process_joint: "matched a b x y \<Longrightarrow>
      \<exists>Sa Sb a' b' M. joint ideal (process a x) (process b y) (Sa, a') (Sb, b') \<and>
        join_shares Sa Sb = Inr M \<and> result x y M"
begin

text \<open>A client that initialises, runs and keeps the shares.\<close>

lemma client_joint:
  assumes "joint ideal p q a b" and "matched a b x y"
  shows "\<exists>Sa Sb M. joint ideal
      (bindp p (\<lambda>s. bindp (process s x) (\<lambda>(shares, s'). Ret shares)))
      (bindp q (\<lambda>s. bindp (process s y) (\<lambda>(shares, s'). Ret shares))) Sa Sb \<and>
    join_shares Sa Sb = Inr M \<and> result x y M"
proof -
  from process_joint [OF assms(2)] obtain Sa Sb a' b' M where
    r: "joint ideal (process a x) (process b y) (Sa, a') (Sb, b')" "join_shares Sa Sb = Inr M" "result x y M"
    by blast
  have "joint ideal
      (bindp p (\<lambda>s. bindp (process s x) (\<lambda>(shares, s'). Ret shares)))
      (bindp q (\<lambda>s. bindp (process s y) (\<lambda>(shares, s'). Ret shares))) Sa Sb"
    by (rule joint_bindp [OF assms(1)], rule joint_bindp [OF r(1)]) (simp add: joint_Ret)
  with r(2,3) show ?thesis by blast
qed

end

section \<open>Circuit PSI meets it\<close>

definition circuit_matched ::
  "hash_lib \<Rightarrow> 'r prng_lib \<Rightarrow> (verse_request, verse_answer) ideal \<Rightarrow> 'r circuit_psi \<Rightarrow> 'r circuit_psi \<Rightarrow>
     string list \<times> 64 word list list \<Rightarrow> string list \<times> 64 word list list \<Rightarrow> bool" where
  "circuit_matched hl pl ideal a b x y \<longleftrightarrow>
     (\<exists>loc hloc F bins hint_bins T.
        circuit_run_ok hl pl ideal loc hloc F bins hint_bins T a b (fst x) (snd x) (fst y) (snd y))"

text \<open>Every key of the receiver stands in one bin.\<close>

lemma column_keys_bins:
  assumes "circuit_run_ok hl pl ideal loc hloc F bins hint_bins T a b xs xf ys yf"
  shows "mset (column_keys (bin_keys T ys bins)) = mset ys"
proof -
  let ?k = "p_num_of_fun a"
  let ?occ = "filter (\<lambda>b. t_cfids T ! b < ?k) [0..<bins]"
  from assms have cuckoo: "cuckoo_table_ok loc bins ?k (hash_keys hl ys) (t_cvals T) (t_cids T) (t_cfids T)"
    and occ: "\<forall>b\<in>set [0..<bins]. t_cocc T ! b \<longleftrightarrow> t_cfids T ! b < ?k"
    by (auto simp: circuit_run_ok_def circuit_tables_ok_def list_all_iff)
  have "column_keys (bin_keys T ys bins) = map (\<lambda>b. ys ! (t_cids T ! b)) (filter ((!) (t_cocc T)) [0..<bins])"
    by (simp add: column_keys_def bin_key_def filter_map comp_def)
  also have "filter ((!) (t_cocc T)) [0..<bins] = ?occ" using occ by (intro filter_cong) auto
  finally have "mset (column_keys (bin_keys T ys bins)) = mset (map ((!) ys) (map ((!) (t_cids T)) ?occ))"
    by (simp add: comp_def)
  also have "\<dots> = mset (map ((!) ys) [0..<length ys])"
    unfolding mset_map using cuckoo_facts(1) [OF cuckoo] by simp
  finally show ?thesis by (simp add: map_nth)
qed

interpretation circuit_contract: two_party_pjc ideal "\<lambda>s x. circuit_process hl pl s Net (fst x) (snd x)"
    "circuit_matched hl pl ideal" pjc_result
  for ideal hl and pl :: "'r prng_lib"
proof unfold_locales
  fix a b :: "'r circuit_psi" and x y
  assume "circuit_matched hl pl ideal a b x y"
  then obtain loc hloc F bins hint_bins T where
    run: "circuit_run_ok hl pl ideal loc hloc F bins hint_bins T a b (fst x) (snd x) (fst y) (snd y)"
    by (auto simp: circuit_matched_def)
  from circuit_shares_joint [OF run] column_keys_bins [OF run] show "\<exists>Sa Sb a' b' M.
      joint ideal (circuit_process hl pl a Net (fst x) (snd x)) (circuit_process hl pl b Net (fst y) (snd y))
        (Sa, a') (Sb, b') \<and> join_shares Sa Sb = Inr M \<and> pjc_result x y M"
    unfolding pjc_result_def by blast
qed

section \<open>Behind the virtual functions\<close>

primrec circuit_of :: "'r pjc \<Rightarrow> 'r circuit_psi" where
  "circuit_of (Circuit_Instance p) = p"

lemma pjc_process_scheme:
  "pjc_process hl pl s net keys features =
     bindp (circuit_process hl pl (circuit_of s) net keys features) (\<lambda>(r, p). Ret (r, Circuit_Instance p))"
  by (cases s) (simp add: pjc_process_def)

interpretation pjc_contract: two_party_pjc ideal "\<lambda>s x. pjc_process hl pl s Net (fst x) (snd x)"
    "\<lambda>s t. circuit_matched hl pl ideal (circuit_of s) (circuit_of t)" pjc_result
  for ideal hl and pl :: "'r prng_lib"
proof unfold_locales
  fix s t :: "'r pjc" and x y
  assume m: "circuit_matched hl pl ideal (circuit_of s) (circuit_of t) x y"
  from circuit_contract.process_joint [OF m] obtain Sa Sb a' b' M where
    j: "joint ideal (circuit_process hl pl (circuit_of s) Net (fst x) (snd x))
      (circuit_process hl pl (circuit_of t) Net (fst y) (snd y)) (Sa, a') (Sb, b')"
      "join_shares Sa Sb = Inr M" "pjc_result x y M" by blast
  have "joint ideal (pjc_process hl pl s Net (fst x) (snd x)) (pjc_process hl pl t Net (fst y) (snd y))
      (Sa, Circuit_Instance a') (Sb, Circuit_Instance b')"
    unfolding pjc_process_scheme by (rule joint_bindp [OF j(1)]) (simp add: joint_Ret)
  with j(2,3) show "\<exists>Sa Sb a' b' M.
      joint ideal (pjc_process hl pl s Net (fst x) (snd x)) (pjc_process hl pl t Net (fst y) (snd y))
        (Sa, a') (Sb, b') \<and> join_shares Sa Sb = Inr M \<and> pjc_result x y M"
    by blast
qed

section \<open>Clients of the factory\<close>

text \<open>C20: Two clients that build the same registered scheme through the factory, initialise it and
  run it behind the abstract class end, under every schedule, with shares of the ideal result:
  joined, they are a table whose columns are the receiver's keys, each in one column, with the
  features of both parties; the ones of its first row are as many as there are common keys.\<close>

theorem pjc_client_correct:
  assumes "build_pjc scheme = Inr object"
    and "outcomes ideal (start (pjc_init js pl ga object Net pa) (pjc_init js pl gb object Net pb)) =
      {Conf (Ret s) (Ret t) [] []}"
    and "circuit_matched hl pl ideal (circuit_of s) (circuit_of t) (xs, xf) (ys, yf)"
  shows "\<exists>Sa Sb M.
    outcomes ideal (start (pjc_client js hl pl ga scheme Net pa xs xf) (pjc_client js hl pl gb scheme Net pb ys yf)) =
      {Conf (Ret Sa) (Ret Sb) [] []} \<and>
    join_shares Sa Sb = Inr M \<and> pjc_result (xs, xf) (ys, yf) M \<and>
    length (filter (\<lambda>v. v = 1) (M ! 0)) = length (intersection ys xs)"
proof -
  from pjc_contract.client_joint [OF outcomes_joint [OF assms(2)] assms(3)] obtain Sa Sb M where
    run: "joint ideal (pjc_client js hl pl ga scheme Net pa xs xf) (pjc_client js hl pl gb scheme Net pb ys yf) Sa Sb"
    and M: "join_shares Sa Sb = Inr M" "pjc_result (xs, xf) (ys, yf) M"
    unfolding pjc_client_def assms(1) lift_res_simps bindp.simps fst_conv snd_conv by blast
  from joint_outcomes [OF run] M pjc_result_count [OF M(2)] show ?thesis by (metis fst_conv)
qed

theorem pjc_client_correct_witness:
  "\<exists>Sa Sb M.
    outcomes toy_duet
      (start (pjc_client circuit_json session_hash toy_prng (replicate 80 0 @ [1]) PJC_CIRCUIT_PSI Net
                (True, False, False) session_xs [[12]])
             (pjc_client circuit_json session_hash toy_prng (replicate 16 2) PJC_CIRCUIT_PSI Net
                (False, False, False) session_ys [[18, 19]])) =
      {Conf (Ret Sa) (Ret Sb) [] []} \<and>
    join_shares Sa Sb = Inr M \<and> pjc_result (session_xs, [[12]]) (session_ys, [[18, 19]]) M \<and>
    length (filter (\<lambda>v. v = 1) (M ! 0)) = 1"
proof -
  from circuit_session_init obtain a b where
    j: "joint toy_duet (circuit_init circuit_json toy_prng (replicate 80 0 @ [1]) Net (True, False, False))
      (circuit_init circuit_json toy_prng (replicate 16 2) Net (False, False, False)) a b"
    and run: "circuit_run_ok session_hash toy_prng toy_duet (toy_loc 3) (toy_loc 5) toy_encode 3 5
      session_tables a b session_xs [[12]] session_ys [[18, 19]]" by blast
  have "joint toy_duet
      (pjc_init circuit_json toy_prng (replicate 80 0 @ [1]) Circuit_Psi_Object Net (True, False, False))
      (pjc_init circuit_json toy_prng (replicate 16 2) Circuit_Psi_Object Net (False, False, False))
      (Circuit_Instance a) (Circuit_Instance b)"
    unfolding pjc_init_def pjc_object.case by (rule joint_bindp [OF j]) (rule joint_Ret)
  note init = joint_outcomes [OF this]
  have m: "circuit_matched session_hash toy_prng toy_duet (circuit_of (Circuit_Instance a))
      (circuit_of (Circuit_Instance b)) (session_xs, [[12]]) (session_ys, [[18, 19]])"
    unfolding circuit_matched_def circuit_of.simps fst_conv snd_conv using run by blast
  have "length (intersection session_ys session_xs) = 1"
    using made_up_keys_differ by (simp add: intersection_def)
  with pjc_client_correct [OF build_pjc_schemes(1) init m] show ?thesis by simp
qed

end
