(* ===== verification/Circuit_Peer.thy ===== *)
theory Circuit_Peer
  imports Circuit_Safety Kkrt_Safety
begin

text \<open>
  What the two parties of the circuit protocol share against a peer that does not follow it: the
  contract of the sub-protocols, the operations on share matrices of the right shape, the sender's
  computation on shares, feature tables with repeated keys, and what a party returns.
\<close>

section \<open>Contracts\<close>

text \<open>The sub-protocols answer in the shape of what they were given.\<close>

fun answers_shaped :: "verse_request \<Rightarrow> verse_answer \<Rightarrow> bool" where
  "answers_shaped (Nco_Ot_Receive _ inputs) (Nco_Ot_Masks masks) = (length masks = length inputs)"
| "answers_shaped (Duet_Equal x y) (Duet_Shares r) = (map length r = map length x)"
| "answers_shaped (Duet_Multiplexer b s) (Duet_Shares m) = (map length m = map length s)"
| "answers_shaped _ _ = True"

lemma shaped_map_length: "shaped n h m \<longleftrightarrow> map length m = replicate n h"
proof
  assume "map length m = replicate n h"
  then have "length m = n" "\<forall>i<n. length (m ! i) = h" by (metis length_map length_replicate, metis length_map length_replicate nth_map nth_replicate)
  then show "shaped n h m" by (simp add: shaped_def list_all_length)
next
  assume "shaped n h m"
  then show "map length m = replicate n h" by (auto simp: shaped_def list_all_length intro: nth_equalityI)
qed

text \<open>The first two messages are the announced sizes.\<close>

definition announced :: "byte list \<Rightarrow> byte list \<Rightarrow> byte list list \<Rightarrow> bool" where
  "announced n f h \<longleftrightarrow> (\<exists>t. h = n # f # t)"

lemma announced_simps [simp]:
  "announced n f [n, f]" "announced n f h \<Longrightarrow> announced n f (h @ [b])"
  by (auto simp: announced_def)

lemma announcedD: "announced n f h \<Longrightarrow> h ! 0 = n \<and> h ! 1 = f"
  by (auto simp: announced_def)

section \<open>Operations on a matrix of the right shape\<close>

lemma update_share_full:
  "shaped rows cols s \<Longrightarrow> k < rows \<Longrightarrow> i < cols \<Longrightarrow> \<exists>s'. update_share f k i v s = Inr s' \<and> shaped rows cols s'"
  by (auto simp: update_share_def shaped_def list_all_length nth_list_update)

lemma for_upto_full:
  assumes "shaped rows cols s"
    and "\<And>i s. i < n \<Longrightarrow> shaped rows cols s \<Longrightarrow> \<exists>s'. f i s = Inr s' \<and> shaped rows cols s'"
  shows "\<exists>s'. for_upto n f s = Inr s' \<and> shaped rows cols s'"
  using assms by (rule for_upto_invariant [where P = "\<lambda>_. shaped rows cols"])

lemma matrix_at_shaped: "shaped n h m \<Longrightarrow> i < n \<Longrightarrow> j < h \<Longrightarrow> \<exists>v. matrix_at m i j = Inr v"
  by (simp add: matrix_at_def shaped_def list_all_length)

lemma share_bits_full:
  assumes "shaped rows bins s" and "0 < rows" and "shaped bins h result"
  shows "\<exists>s'. share_bits bins h result s = Inr s' \<and> shaped rows bins s'"
  unfolding share_bits_def
proof (intro for_upto_full assms(1))
  fix i j s assume "i < bins" "j < h" and s: "shaped rows bins s"
  then obtain v where "matrix_at result i j = Inr v" using matrix_at_shaped [OF assms(3)] by blast
  with update_share_full [OF s assms(2) \<open>i < bins\<close>]
  show "\<exists>s'. res_bind (matrix_at result i j) (\<lambda>b. update_share (XOR) 0 i b s) = Inr s' \<and> shaped rows bins s'"
    by simp
qed

lemma add_selected_full:
  assumes "shaped rows bins s" and "sf < rows" and "length ms = sf" "list_all (shaped bins h) ms"
    and "i < bins" and "j < h"
  shows "\<exists>s'. add_selected sf ms i j s = Inr s' \<and> shaped rows bins s'"
  unfolding add_selected_def
proof (rule for_upto_full [OF assms(1)])
  fix k s assume k: "k < sf" and s: "shaped rows bins s"
  then obtain v where "matrix_at (ms ! k) i j = Inr v"
    using matrix_at_shaped assms(3-6) by (metis list_all_length)
  with k assms(2,3) update_share_full [OF s, of "k + 1" i] assms(5)
  show "\<exists>s'. res_bind (vec_at ms k) (\<lambda>m. res_bind (matrix_at m i j) (\<lambda>v. update_share (+) (k + 1) i v s)) = Inr s' \<and>
    shaped rows bins s'" by simp
qed

lemma add_own_full:
  assumes "shaped rows bins s" and "sf + rf < rows" and "length occ = bins" and "length src = bins" and "i < bins"
    and feat: "occ ! i \<Longrightarrow> \<exists>fs. features (src ! i) = Some fs \<and> length fs = rf"
  shows "\<exists>s'. add_own sf rf occ src features i s = Inr s' \<and> shaped rows bins s'"
proof (cases "occ ! i")
  case True
  from feat [OF this] obtain fs where fs: "features (src ! i) = Some fs" "length fs = rf" by blast
  have "\<exists>s'. for_upto rf (\<lambda>k shares. res_bind (vec_at src i) (\<lambda>element.
      res_bind (vec_at (lookup [] features element) k) (\<lambda>v. update_share (+) (sf + k + 1) i v shares))) s = Inr s' \<and>
    shaped rows bins s'"
  proof (rule for_upto_full [OF assms(1)])
    fix k s assume "k < rf" and s: "shaped rows bins s"
    with update_share_full [OF s, of "sf + k + 1" i] assms fs
    show "\<exists>s'. res_bind (vec_at src i) (\<lambda>element. res_bind (vec_at (lookup [] features element) k)
        (\<lambda>v. update_share (+) (sf + k + 1) i v s)) = Inr s' \<and> shaped rows bins s'"
      by (simp add: lookup_def)
  qed
  with True assms(3,5) show ?thesis by (simp add: add_own_def)
qed (use assms in \<open>simp add: add_own_def\<close>)

lemma init_shares_full:
  "sf + rf + 1 < 2 ^ 64 \<Longrightarrow> init_shares sf rf bins = Inr s \<Longrightarrow> shaped (sf + rf + 1) bins s"
  using init_shares_shaped [of sf rf bins s] by simp

lemma init_shares_no_ub: "init_shares sf rf bins = Inl e \<Longrightarrow> \<not> is_ub e"
  by (auto simp: init_shares_def Let_def vec_grow_def split: if_splits)

text \<open>Both parties: the equality test, the matrix of shares, and the rest.\<close>

lemma equality_guarded:
  assumes "shaped n h x"
  shows "guarded answers_shaped B (\<lambda>h' r. h' = h0 \<and> shaped n h r) (equality x y) h0"
  using assms unfolding equality_def shaped_map_length by (auto split: verse_answer.split)

lemma multiplex_guarded:
  assumes "length shares = n" and "list_all (shaped rows h) shares"
  shows "guarded answers_shaped B (\<lambda>h' ms. h' = h0 \<and> length ms = n \<and> list_all (shaped rows h) ms)
    (multiplex_all result shares n) h0"
  unfolding multiplex_all_def
proof (rule guarded_loop [where P = "\<lambda>i h' ms. h' = h0 \<and> length ms = i \<and> list_all (shaped rows h) ms"])
  fix i h' ms assume i: "i < n" and inv: "h' = h0 \<and> length ms = i \<and> list_all (shaped rows h) ms"
  have s: "shaped rows h (shares ! i)" using i assms by (simp add: list_all_length)
  with i assms(1) inv show "guarded answers_shaped B
      (\<lambda>h' ms. h' = h0 \<and> length ms = Suc i \<and> list_all (shaped rows h) ms)
      (bindp (lift_res (vec_at shares i)) (\<lambda>share. bindp (multiplexer result share) (\<lambda>m. Ret (ms @ [m])))) h'"
    by (auto simp: multiplexer_def shaped_map_length split: verse_answer.split)
qed simp

lemma sender_shares_guarded:
  assumes "length contents = bins" and "length fs = sf" and "list_all (shaped bins h) fs"
    and "sf + rf + 1 < 2 ^ 64"
  shows "guarded answers_shaped B (\<lambda>h' s. h' = h0 \<and> shaped (sf + rf + 1) bins s)
    (circuit_sender_shares bins h sf rf contents fs) h0"
  unfolding circuit_sender_shares_def
proof (rule guarded_bindp [OF equality_guarded [where n = bins and h = h]])
  show "shaped bins h (map (\<lambda>c. replicate h (c AND kReduceBitsLen)) contents)"
    using assms(1) by (simp add: shaped_def list_all_length)
  fix h' result assume r: "h' = h0 \<and> shaped bins h result"
  have sums: "\<exists>s'. for_upto bins (\<lambda>i. for_upto h (\<lambda>j shares. res_bind (add_selected sf ms i j shares)
      (for_upto rf (\<lambda>k. update_share (+) (sf + k + 1) i 0)))) s = Inr s' \<and> shaped (sf + rf + 1) bins s'"
    if s: "shaped (sf + rf + 1) bins s" and ms: "length ms = sf" "list_all (shaped bins h) ms" for s ms
  proof (intro for_upto_full s)
    fix i j s assume ij: "i < bins" "j < h" and s: "shaped (sf + rf + 1) bins s"
    from add_selected_full [OF s _ ms ij] obtain t where
      t: "add_selected sf ms i j s = Inr t" "shaped (sf + rf + 1) bins t" by auto
    have "\<exists>s'. for_upto rf (\<lambda>k. update_share (+) (sf + k + 1) i 0) t = Inr s' \<and> shaped (sf + rf + 1) bins s'"
      by (intro for_upto_full t(2) update_share_full ij) simp_all
    with t(1) show "\<exists>s'. res_bind (add_selected sf ms i j s) (for_upto rf (\<lambda>k. update_share (+) (sf + k + 1) i 0)) =
      Inr s' \<and> shaped (sf + rf + 1) bins s'" by simp
  qed
  show "guarded answers_shaped B (\<lambda>h' s. h' = h0 \<and> shaped (sf + rf + 1) bins s)
    (bindp (lift_res (init_shares sf rf bins)) (\<lambda>shares. bindp (lift_res (share_bits bins h result shares)) (\<lambda>shares.
     if sf \<noteq> 0 \<or> rf \<noteq> 0
     then bindp (multiplex_all result fs sf) (\<lambda>feature_result.
          lift_res (for_upto bins (\<lambda>i. for_upto h (\<lambda>j shares. res_bind (add_selected sf feature_result i j shares)
              (for_upto rf (\<lambda>k. update_share (+) (sf + k + 1) i 0)))) shares))
     else Ret shares))) h'"
  proof (rule guarded_lift, erule init_shares_no_ub, drule init_shares_full [OF assms(4)],
      rule guarded_ok, rule share_bits_full, assumption, simp, rule r [THEN conjunct2])
    fix s assume s: "shaped (sf + rf + 1) bins s"
    show "guarded answers_shaped B (\<lambda>h' s. h' = h0 \<and> shaped (sf + rf + 1) bins s)
     (if sf \<noteq> 0 \<or> rf \<noteq> 0
      then bindp (multiplex_all result fs sf) (\<lambda>feature_result.
          lift_res (for_upto bins (\<lambda>i. for_upto h (\<lambda>j shares. res_bind (add_selected sf feature_result i j shares)
              (for_upto rf (\<lambda>k. update_share (+) (sf + k + 1) i 0)))) s))
      else Ret s) h'"
    proof (cases "sf \<noteq> 0 \<or> rf \<noteq> 0")
      case True
      have "guarded answers_shaped B (\<lambda>h' s. h' = h0 \<and> shaped (sf + rf + 1) bins s)
        (bindp (multiplex_all result fs sf) (\<lambda>feature_result.
          lift_res (for_upto bins (\<lambda>i. for_upto h (\<lambda>j shares. res_bind (add_selected sf feature_result i j shares)
              (for_upto rf (\<lambda>k. update_share (+) (sf + k + 1) i 0)))) s))) h'"
        by (rule guarded_bindp [OF multiplex_guarded [OF assms(2,3)]]) (use sums [OF s] r in force)
      with True show ?thesis by (simp only: if_True)
    qed (use s r in simp)
  qed
qed

section \<open>Feature tables, with repeated keys too\<close>

lemma fold_emplace_rows:
  "(\<forall>v row. t v = Some row \<longrightarrow> length row = n) \<Longrightarrow> length r = n \<Longrightarrow>
     (\<forall>v row. fold (\<lambda>name t. emplace t name r) names t v = Some row \<longrightarrow> length row = n) \<and>
     dom (fold (\<lambda>name t. emplace t name r) names t) = dom t \<union> set names"
proof (induction names arbitrary: t)
  case (Cons name names)
  have "\<forall>v row. emplace t name r v = Some row \<longrightarrow> length row = n" "dom (emplace t name r) = insert name (dom t)"
    using Cons.prems by (auto simp: emplace_def split: option.splits)
  from Cons.IH [OF this(1) Cons.prems(2)] this(2) show ?case by simp
qed simp

lemma feature_table_rows:
  assumes "features_ok (length keys) features"
  shows "\<exists>t. feature_table names keys features (length features) (length keys) = Inr t \<and>
    (\<forall>key\<in>set keys. \<forall>name\<in>set (names key). \<exists>row. t name = Some row \<and> length row = length features)"
proof -
  let ?P = "\<lambda>i t. (\<forall>v row. t v = Some row \<longrightarrow> length row = length features) \<and>
      (\<forall>p<i. set (names (keys ! p)) \<subseteq> dom t)"
  have "\<exists>t. feature_table names keys features (length features) (length keys) = Inr t \<and> ?P (length keys) t"
    unfolding feature_table_def
  proof (rule for_upto_invariant [where P = ?P])
    fix i and t :: "item \<Rightarrow> 64 word list option"
    assume i: "i < length keys" and inv: "?P i t"
    let ?r = "map (\<lambda>column. column ! i) features"
    let ?t = "fold (\<lambda>name t. emplace t name ?r) (names (keys ! i)) t"
    have t: "(\<forall>v row. ?t v = Some row \<longrightarrow> length row = length features) \<and> dom ?t = dom t \<union> set (names (keys ! i))"
      by (rule fold_emplace_rows) (use inv in simp_all)
    then have "?P (Suc i) ?t" using inv by (auto simp only: less_Suc_eq)
    moreover have "res_bind (map_res (\<lambda>j. res_bind (vec_at features j) (\<lambda>column. vec_at column i)) [0..<length features])
        (\<lambda>feature. res_bind (vec_at keys i) (\<lambda>key. Inr (fold (\<lambda>name t. emplace t name feature) (names key) t))) = Inr ?t"
      using i by (simp add: feature_row [OF assms i])
    ultimately show "\<exists>t'. res_bind (map_res (\<lambda>j. res_bind (vec_at features j) (\<lambda>column. vec_at column i)) [0..<length features])
        (\<lambda>feature. res_bind (vec_at keys i) (\<lambda>key. Inr (fold (\<lambda>name t. emplace t name feature) (names key) t))) = Inr t' \<and>
      ?P (Suc i) t'" by blast
  qed simp
  then obtain t where t: "feature_table names keys features (length features) (length keys) = Inr t" "?P (length keys) t"
    by blast
  have "\<exists>row. t name = Some row \<and> length row = length features" if "key \<in> set keys" "name \<in> set (names key)" for key name
  proof -
    from that(1) obtain p where "p < length keys" "key = keys ! p" by (auto simp: in_set_conv_nth)
    with that(2) t(2) have "name \<in> dom t" by blast
    then obtain row where "t name = Some row" by blast
    with t(2) show ?thesis by blast
  qed
  with t(1) show ?thesis by blast
qed

section \<open>What a party returns\<close>

text \<open>Shares of the announced size, and the common generator two seeds further.\<close>

definition shares_returned ::
  "'r prng_lib \<Rightarrow> 'r circuit_psi \<Rightarrow> nat \<Rightarrow> nat \<Rightarrow> byte list list \<Rightarrow> matrix \<times> 'r circuit_psi \<Rightarrow> bool" where
  "shares_returned pl self f bins = (\<lambda>h (shares, self'). shaped (f + size_t_of (h ! 1) + 1) bins shares \<and>
     p_common_prng self' = advanced pl 2 (p_common_prng self))"

end
