(* ===== verification/Circuit_Receiver_Safety.thy ===== *)
theory Circuit_Receiver_Safety
  imports Circuit_Peer
begin

text \<open>
  The receiver of the circuit protocol against a peer that does not follow it: what its own
  table and the announced sizes must satisfy so that no garbled table leads it out of range.
\<close>

section \<open>Reading arbitrary garbled tables\<close>

lemma content_matrix_full:
  assumes "length content = bins * h" and "bins * h < 2 ^ 64"
  shows "\<exists>m. content_matrix bins h f content = Inr m \<and> shaped bins h m"
  unfolding content_matrix_result [OF assms] by (auto simp: shaped_def list_all_length)

lemma ungarble_full:
  assumes "length masks = bins" and "length addresses = bins * h" and "bins * h < 2 ^ 64"
    and "\<forall>a\<in>set addresses. a < length garbled"
  shows "\<exists>content. ungarble pl bins h addresses garbled masks tweak = Inr content \<and> length content = bins * h"
  unfolding ungarble_result [OF assms] by simp

lemma recv_garbled_guarded:
  assumes "announced n f h'"
  shows "guarded A (B :: byte list list \<Rightarrow> byte list \<Rightarrow> bool) (\<lambda>h' garbled. announced n f h' \<and> length garbled = hint_bins)
    (recv_garbled Net hint_bins) h'"
  unfolding recv_garbled_def
  by (rule guarded_lift) (auto simp: vec_create_def u64s_of_def assms split: if_splits)

lemma receiver_shares_guarded:
  assumes content: "length content = bins * h" "bins * h < 2 ^ 64"
    and contents: "length contents = sf" "list_all (\<lambda>c. length c = bins * h) contents"
    and rows: "sf + rf + 1 < 2 ^ 64" and len: "length occ = bins" "length src = bins"
    and feat: "\<And>i. sf \<noteq> 0 \<or> rf \<noteq> 0 \<Longrightarrow> i < bins \<Longrightarrow> occ ! i \<Longrightarrow> \<exists>fs. features (src ! i) = Some fs \<and> length fs = rf"
  shows "guarded answers_shaped B (\<lambda>h' s. h' = h0 \<and> shaped (sf + rf + 1) bins s)
    (circuit_receiver_shares bins h sf rf content contents occ src features) h0"
  unfolding circuit_receiver_shares_def
proof (rule guarded_ok [OF content_matrix_full [OF content]], rule guarded_bindp [OF equality_guarded])
  show "shaped bins h (replicate bins (replicate h 0))" by (simp add: shaped_def list_all_length)
  fix data h' result assume r: "h' = h0 \<and> shaped bins h result"
  show "guarded answers_shaped B (\<lambda>h' s. h' = h0 \<and> shaped (sf + rf + 1) bins s)
    (bindp (lift_res (init_shares sf rf bins)) (\<lambda>shares. bindp (lift_res (share_bits bins h result shares)) (\<lambda>shares.
     if sf \<noteq> 0 \<or> rf \<noteq> 0
     then bindp (lift_res (map_res (\<lambda>i. res_bind (vec_at contents i)
                   (content_matrix bins h (\<lambda>v. v))) [0..<sf])) (\<lambda>feature_shares.
          bindp (multiplex_all result feature_shares sf) (\<lambda>feature_result.
          lift_res (for_upto bins (\<lambda>i shares.
            res_bind (for_upto h (\<lambda>j. add_selected sf feature_result i j) shares)
              (add_own sf rf occ src features i)) shares)))
     else Ret shares))) h'"
  proof (rule guarded_lift, erule init_shares_no_ub, drule init_shares_full [OF rows],
      rule guarded_ok, rule share_bits_full, assumption, simp, rule r [THEN conjunct2])
    fix s assume s: "shaped (sf + rf + 1) bins s"
    show "guarded answers_shaped B (\<lambda>h' s. h' = h0 \<and> shaped (sf + rf + 1) bins s)
     (if sf \<noteq> 0 \<or> rf \<noteq> 0
      then bindp (lift_res (map_res (\<lambda>i. res_bind (vec_at contents i)
                   (content_matrix bins h (\<lambda>v. v))) [0..<sf])) (\<lambda>feature_shares.
          bindp (multiplex_all result feature_shares sf) (\<lambda>feature_result.
          lift_res (for_upto bins (\<lambda>i shares.
            res_bind (for_upto h (\<lambda>j. add_selected sf feature_result i j) shares)
              (add_own sf rf occ src features i)) s)))
      else Ret s) h'"
    proof (cases "sf \<noteq> 0 \<or> rf \<noteq> 0")
      case True
      let ?m = "\<lambda>i. map (\<lambda>r. map (\<lambda>j. contents ! i ! (r * h + j)) [0..<h]) [0..<bins]"
      have shares: "map_res (\<lambda>i. res_bind (vec_at contents i) (content_matrix bins h (\<lambda>v. v))) [0..<sf] =
          Inr (map ?m [0..<sf])"
        using contents content(2) by (intro map_res_Inr) (simp add: content_matrix_result list_all_length)
      have shapes: "length (map ?m [0..<sf]) = sf" "list_all (shaped bins h) (map ?m [0..<sf])"
        by (simp_all add: shaped_def list_all_length)
      have sums: "\<exists>s'. for_upto bins (\<lambda>i shares. res_bind (for_upto h (\<lambda>j. add_selected sf ms i j) shares)
          (add_own sf rf occ src features i)) s = Inr s' \<and> shaped (sf + rf + 1) bins s'"
        if ms: "length ms = sf" "list_all (shaped bins h) ms" for ms
      proof (rule for_upto_full [OF s])
        fix i s assume i: "i < bins" and s: "shaped (sf + rf + 1) bins s"
        have "\<exists>t. for_upto h (\<lambda>j. add_selected sf ms i j) s = Inr t \<and> shaped (sf + rf + 1) bins t"
          by (rule for_upto_full [OF s], rule add_selected_full [OF _ _ ms i]) simp_all
        then obtain t where t: "for_upto h (\<lambda>j. add_selected sf ms i j) s = Inr t" "shaped (sf + rf + 1) bins t"
          by blast
        have "\<exists>s'. add_own sf rf occ src features i t = Inr s' \<and> shaped (sf + rf + 1) bins s'"
          by (rule add_own_full [OF t(2) _ len i]) (use feat [OF True i] in simp_all)
        with t(1) show "\<exists>s'. res_bind (for_upto h (\<lambda>j. add_selected sf ms i j) s) (add_own sf rf occ src features i) = Inr s' \<and>
          shaped (sf + rf + 1) bins s'" by simp
      qed
      have "guarded answers_shaped B (\<lambda>h' s. h' = h0 \<and> shaped (sf + rf + 1) bins s)
        (bindp (multiplex_all result (map ?m [0..<sf]) sf) (\<lambda>feature_result.
          lift_res (for_upto bins (\<lambda>i shares.
            res_bind (for_upto h (\<lambda>j. add_selected sf feature_result i j) shares)
              (add_own sf rf occ src features i)) s))) h'"
        by (rule guarded_bindp [OF multiplex_guarded [OF shapes]]) (use sums r in force)
      with True show ?thesis by (simp only: if_True shares lift_res_simps bindp.simps)
    qed (use s r in simp)
  qed
qed

section \<open>A receiver and any peer\<close>

text \<open>What the receiver's own table is like, and what its two announced sizes must satisfy.\<close>

definition receiver_bins_ok :: "hash_lib \<Rightarrow> 'r prng_lib \<Rightarrow> 'r circuit_psi \<Rightarrow> string list \<Rightarrow> nat \<Rightarrow> bool" where
  "receiver_bins_ok hl pl b ys bins \<longleftrightarrow>
     (let seed = seed_at pl 0 (p_common_prng b); k = p_num_of_fun b; keys = hash_keys hl ys;
          occ = cuckoo_occupancy hl bins seed k keys; src = cuckoo_source_values hl bins seed k keys
      in bins * p_num_of_fun_hint b < 2 ^ 64 \<and> length (cuckoo_values hl bins seed k keys) = bins \<and>
         length occ = bins \<and> length src = bins \<and>
         list_all (\<lambda>i. occ ! i \<longrightarrow> src ! i \<in> set keys) [0..<bins])"

definition hint_addresses ::
  "hash_lib \<Rightarrow> 'r prng_lib \<Rightarrow> 'r circuit_psi \<Rightarrow> string list \<Rightarrow> nat \<Rightarrow> nat \<Rightarrow> nat list" where
  "hint_addresses hl pl b ys bins hint_bins =
     element_addresses hl hint_bins (seed_at pl 1 (p_common_prng b)) (p_num_of_fun_hint b)
       (cuckoo_values hl bins (seed_at pl 0 (p_common_prng b)) (p_num_of_fun b) (hash_keys hl ys))"

definition receiver_peer_ok ::
  "hash_lib \<Rightarrow> 'r prng_lib \<Rightarrow> 'r circuit_psi \<Rightarrow> string list \<Rightarrow> nat \<Rightarrow> nat \<Rightarrow> byte list list \<Rightarrow> byte list \<Rightarrow> bool" where
  "receiver_peer_ok hl pl b ys bins rf h m \<longleftrightarrow>
     (h = [] \<longrightarrow> (case hint_bins_for (size_t_of m) (p_num_of_fun b) bins (p_epsilon_hint b) of
        Inl e \<Rightarrow> False
      | Inr hint_bins \<Rightarrow> length (hint_addresses hl pl b ys bins hint_bins) = bins * p_num_of_fun_hint b \<and>
          list_all (\<lambda>a. a < hint_bins) (hint_addresses hl pl b ys bins hint_bins))) \<and>
     (length h = 1 \<longrightarrow> rf + size_t_of m + 1 < 2 ^ 64)"

text \<open>The phases before the computation on shares.\<close>

lemma receiver_oprf_guarded:
  assumes "receiver_bins_ok hl pl b ys bins"
  shows "guarded answers_shaped B (\<lambda>h' (seed, masks, b'). h' = h0 \<and> seed = seed_at pl 0 (p_common_prng b) \<and>
      length masks = bins \<and> b' = b\<lparr>p_common_prng := advanced pl 1 (p_common_prng b)\<rparr>)
    (circuit_receiver_oprf hl pl b Net bins (hash_keys hl ys)) h0"
  unfolding circuit_receiver_oprf_def draw_seed Let_def prod.case net_ops_simps bindp.simps guarded.simps
  by (rule guarded_check_stash)
     (use assms in \<open>auto simp: receiver_bins_ok_def Let_def split: verse_answer.split\<close>)

lemma receiver_hint_guarded:
  assumes own: "receiver_bins_ok hl pl b ys bins" and masks: "length masks = bins"
    and adr: "length (hint_addresses hl pl b ys bins hint_bins) = bins * p_num_of_fun_hint b"
      "list_all (\<lambda>a. a < hint_bins) (hint_addresses hl pl b ys bins hint_bins)"
    and ann: "announced n f h0"
  shows "guarded answers_shaped B (\<lambda>h' (content, addresses, b'). announced n f h' \<and>
      length content = bins * p_num_of_fun_hint b \<and> addresses = hint_addresses hl pl b ys bins hint_bins \<and>
      b' = b\<lparr>p_common_prng := advanced pl 2 (p_common_prng b)\<rparr>)
    (circuit_receiver_hint hl pl (b\<lparr>p_common_prng := advanced pl 1 (p_common_prng b)\<rparr>) Net bins hint_bins
       (cuckoo_values hl bins (seed_at pl 0 (p_common_prng b)) (p_num_of_fun b) (hash_keys hl ys)) masks) h0"
  unfolding circuit_receiver_hint_def net_ops_simps bindp.simps guarded.simps
proof (intro allI impI, rule guarded_check_stash, rule guarded_bindp [OF recv_garbled_guarded])
  fix m :: "byte list" show "announced n f (h0 @ [m])" using ann by simp
next
  fix h' garbled assume g: "announced n f h' \<and> length (garbled :: 64 word list) = hint_bins"
  let ?h = "p_num_of_fun_hint b" and ?adr = "hint_addresses hl pl b ys bins hint_bins"
  have small: "bins * ?h < 2 ^ 64" using own by (simp add: receiver_bins_ok_def Let_def)
  from ungarble_full [OF masks adr(1) small, of garbled pl 0] adr(2) g obtain content where
    "ungarble pl bins ?h ?adr garbled masks 0 = Inr content" "length content = bins * ?h"
    by (auto simp: list_all_iff)
  with g show "guarded answers_shaped B (\<lambda>h' (content, addresses, b'). announced n f h' \<and>
      length content = bins * ?h \<and> addresses = ?adr \<and> b' = b\<lparr>p_common_prng := advanced pl 2 (p_common_prng b)\<rparr>)
    (let (seed, common') = prng_generate pl
           (p_common_prng (b\<lparr>p_common_prng := advanced pl 1 (p_common_prng b)\<rparr>)) kRandSeedBytesLen;
         h = p_num_of_fun_hint (b\<lparr>p_common_prng := advanced pl 1 (p_common_prng b)\<rparr>);
         addresses = element_addresses hl hint_bins seed h
           (cuckoo_values hl bins (seed_at pl 0 (p_common_prng b)) (p_num_of_fun b) (hash_keys hl ys))
     in bindp (lift_res (vec_create max_u64s (size_mul bins h))) (\<lambda>_.
        bindp (lift_res (ungarble pl bins h addresses garbled masks 0)) (\<lambda>contents.
          Ret (contents, addresses, b\<lparr>p_common_prng := advanced pl 1 (p_common_prng b), p_common_prng := common'\<rparr>)))) h'"
    by (auto simp: draw_seed(2) hint_addresses_def vec_create_def Let_def simp del: One_nat_def)
qed

lemma receiver_features_guarded:
  assumes own: "receiver_bins_ok hl pl b ys bins" and masks: "length masks = bins"
    and adr: "length adr = bins * p_num_of_fun_hint b" "list_all (\<lambda>a. a < hint_bins) adr"
    and yf: "features_ok (length ys) yf" and ann: "announced n f h0" and b': "p_num_of_fun_hint b' = p_num_of_fun_hint b"
  shows "guarded answers_shaped B (\<lambda>h' (features, contents). announced n f h' \<and> length contents = sf \<and>
      list_all (\<lambda>c. length c = bins * p_num_of_fun_hint b) contents \<and>
      (sf \<noteq> 0 \<or> length yf \<noteq> 0 \<longrightarrow> (\<forall>key\<in>set (hash_keys hl ys). \<exists>row. features key = Some row \<and> length row = length yf)))
    (circuit_receiver_features pl b' Net bins hint_bins (hash_keys hl ys) yf sf (length yf) adr masks) h0"
    (is "guarded _ _ ?Q _ _")
  unfolding circuit_receiver_features_def b'
proof (rule guarded_lift)
  show "vec_create max_vectors sf = Inl e \<Longrightarrow> \<not> is_ub e" for e by (auto simp: vec_create_def split: if_splits)
  let ?h = "p_num_of_fun_hint b"
  have small: "bins * ?h < 2 ^ 64" using own by (simp add: receiver_bins_ok_def Let_def)
  from feature_table_rows [of "hash_keys hl ys" yf "\<lambda>key. [key]"] yf obtain t where
    t: "feature_table (\<lambda>key. [key]) (hash_keys hl ys) yf (length yf) (length (hash_keys hl ys)) = Inr t"
      "\<forall>key\<in>set (hash_keys hl ys). \<exists>row. t key = Some row \<and> length row = length yf" by auto
  let ?P = "\<lambda>i h' contents. announced n f h' \<and> length contents = i \<and>
      list_all (\<lambda>c :: 64 word list. length c = bins * ?h) contents"
  have loop: "guarded answers_shaped B (?P sf)
      (fold_proc (circuit_receiver_feature pl Net bins hint_bins ?h adr masks) [0..<sf] []) h0"
  proof (rule guarded_loop [where P = ?P])
    fix i h' and contents :: "64 word list list" assume inv: "?P i h' contents"
    show "guarded answers_shaped B (?P (Suc i))
      (circuit_receiver_feature pl Net bins hint_bins ?h adr masks i contents) h'"
      unfolding circuit_receiver_feature_def
    proof (rule guarded_bindp [OF recv_garbled_guarded])
      fix h' garbled assume g: "announced n f h' \<and> length (garbled :: 64 word list) = hint_bins"
      from ungarble_full [OF masks adr(1) small, of garbled pl "fid_block i"] adr(2) g obtain content where
        "ungarble pl bins ?h adr garbled masks (fid_block i) = Inr content" "length content = bins * ?h"
        by (auto simp: list_all_iff)
      with g inv show "guarded answers_shaped B (?P (Suc i))
        (bindp (lift_res (ungarble pl bins ?h adr garbled masks (fid_block i)))
          (\<lambda>content. Ret (contents @ [content]))) h'" by simp
    qed (use inv in simp)
  qed (simp add: ann)
  show "guarded answers_shaped B ?Q
    (if sf \<noteq> 0 \<or> length yf \<noteq> 0
     then bindp (lift_res (feature_table (\<lambda>key. [key]) (hash_keys hl ys) yf (length yf) (length (hash_keys hl ys))))
            (\<lambda>features. bindp (fold_proc (circuit_receiver_feature pl Net bins hint_bins ?h adr masks) [0..<sf] [])
              (\<lambda>contents. Ret (features, contents)))
     else Ret (Map.empty, [])) h0"
    using guarded_bindp [OF loop, of ?Q "\<lambda>contents. Ret (t, contents)"] t ann by simp
qed

text \<open>The receiver after the sizes are known, and its second half.\<close>

definition receiver_end ::
  "hash_lib \<Rightarrow> 'r prng_lib \<Rightarrow> 'r circuit_psi \<Rightarrow> 'r circuit_psi \<Rightarrow> nat \<Rightarrow> nat \<Rightarrow> string list \<Rightarrow> 64 word list list \<Rightarrow>
     nat \<Rightarrow> block list \<Rightarrow> 64 word list \<Rightarrow> nat list \<Rightarrow> (matrix \<times> 'r circuit_psi) verse_proc" where
  "receiver_end hl pl b b' bins hint_bins ys yf sf masks content addresses =
     (let keys = hash_keys hl ys; seed = seed_at pl 0 (p_common_prng b); k = p_num_of_fun b in
      bindp (circuit_receiver_features pl b' Net bins hint_bins keys yf sf (length yf) addresses masks)
        (\<lambda>(features, contents).
      bindp (circuit_receiver_shares bins (p_num_of_fun_hint b) sf (length yf) content contents
               (cuckoo_occupancy hl bins seed k keys) (cuckoo_source_values hl bins seed k keys) features)
        (\<lambda>shares. Ret (shares, b'))))"

definition receiver_run ::
  "hash_lib \<Rightarrow> 'r prng_lib \<Rightarrow> 'r circuit_psi \<Rightarrow> nat \<Rightarrow> nat \<Rightarrow> string list \<Rightarrow> 64 word list list \<Rightarrow> nat \<Rightarrow>
     (matrix \<times> 'r circuit_psi) verse_proc" where
  "receiver_run hl pl b bins hint_bins ys yf sf =
     (let keys = hash_keys hl ys; h = p_num_of_fun_hint b; k = p_num_of_fun b in
      bindp (circuit_receiver_oprf hl pl b Net bins keys) (\<lambda>(seed, masks, self1).
      bindp (circuit_receiver_hint hl pl self1 Net bins hint_bins (cuckoo_values hl bins seed k keys) masks)
        (\<lambda>(content, addresses, self2).
      bindp (circuit_receiver_features pl self2 Net bins hint_bins keys yf sf (length yf) addresses masks)
        (\<lambda>(features, contents).
      bindp (circuit_receiver_shares bins h sf (length yf) content contents
               (cuckoo_occupancy hl bins seed k keys) (cuckoo_source_values hl bins seed k keys) features)
        (\<lambda>shares. Ret (shares, self2))))))"

lemma circuit_process_receiver:
  assumes "\<not> p_is_sender b"
  shows "circuit_process hl pl b Net ys yf =
    Send (size_t_bytes (length ys)) (Send (size_t_bytes (length yf)) (Recv 8 (\<lambda>n. Recv 8 (\<lambda>f.
      bindp (lift_res (bins_for (length ys) (p_epsilon b))) (\<lambda>bins.
      bindp (lift_res (hint_bins_for (size_t_of n) (p_num_of_fun b) bins (p_epsilon_hint b))) (\<lambda>hint_bins.
        receiver_run hl pl b bins hint_bins ys yf (size_t_of f)))))))"
  using assms by (simp add: circuit_process_def circuit_exchange_sizes_def receiver_run_def)

lemma receiver_end_guarded:
  assumes own: "receiver_bins_ok hl pl b ys bins" and masks: "length masks = bins"
    and content: "length content = bins * p_num_of_fun_hint b"
    and adr: "length adr = bins * p_num_of_fun_hint b" "list_all (\<lambda>a. a < hint_bins) adr"
    and yf: "features_ok (length ys) yf" and ann: "announced n f h0"
    and rows: "length yf + size_t_of f + 1 < 2 ^ 64" and b': "p_num_of_fun_hint b' = p_num_of_fun_hint b"
      "p_common_prng b' = advanced pl 2 (p_common_prng b)"
  shows "guarded answers_shaped B (shares_returned pl b (length yf) bins)
    (receiver_end hl pl b b' bins hint_bins ys yf (size_t_of f) masks content adr) h0"
  unfolding receiver_end_def Let_def
proof (rule guarded_bindp2 [OF receiver_features_guarded [OF own masks adr yf ann b'(1)]])
  let ?h = "p_num_of_fun_hint b" and ?keys = "hash_keys hl ys" and ?sf = "size_t_of f"
  let ?occ = "cuckoo_occupancy hl bins (seed_at pl 0 (p_common_prng b)) (p_num_of_fun b) ?keys"
  let ?src = "cuckoo_source_values hl bins (seed_at pl 0 (p_common_prng b)) (p_num_of_fun b) ?keys"
  have t: "bins * ?h < 2 ^ 64" "length ?occ = bins" "length ?src = bins" "\<forall>i<bins. ?occ ! i \<longrightarrow> ?src ! i \<in> set ?keys"
    using own by (simp_all add: receiver_bins_ok_def Let_def list_all_iff)
  have rows': "?sf + length yf + 1 < 2 ^ 64" using rows by simp
  fix h' and features :: "item \<Rightarrow> 64 word list option" and contents :: "64 word list list"
  assume u: "announced n f h' \<and> length contents = ?sf \<and> list_all (\<lambda>c. length c = bins * ?h) contents \<and>
    (?sf \<noteq> 0 \<or> length yf \<noteq> 0 \<longrightarrow> (\<forall>key\<in>set ?keys. \<exists>row. features key = Some row \<and> length row = length yf))"
  have "guarded answers_shaped B (\<lambda>h'' s. h'' = h' \<and> shaped (?sf + length yf + 1) bins s)
    (circuit_receiver_shares bins ?h ?sf (length yf) content contents ?occ ?src features) h'"
    by (rule receiver_shares_guarded [OF content t(1) _ _ rows' t(2,3)]) (use u t(4) in auto)
  then show "guarded answers_shaped B (shares_returned pl b (length yf) bins)
    (bindp (circuit_receiver_shares bins ?h ?sf (length yf) content contents ?occ ?src features)
      (\<lambda>shares. Ret (shares, b'))) h'"
    by (rule guarded_bindp) (use u b'(2) announcedD in \<open>auto simp: shares_returned_def add.commute\<close>)
qed

lemma receiver_run_guarded:
  assumes own: "receiver_bins_ok hl pl b ys bins" and yf: "features_ok (length ys) yf"
    and adr: "length (hint_addresses hl pl b ys bins hint_bins) = bins * p_num_of_fun_hint b"
      "list_all (\<lambda>a. a < hint_bins) (hint_addresses hl pl b ys bins hint_bins)"
    and rows: "length yf + size_t_of f + 1 < 2 ^ 64"
  shows "guarded answers_shaped B (shares_returned pl b (length yf) bins)
    (receiver_run hl pl b bins hint_bins ys yf (size_t_of f)) [n, f]"
proof -
  let ?k = "p_num_of_fun b" and ?keys = "hash_keys hl ys" and ?seed = "seed_at pl 0 (p_common_prng b)"
  let ?b = "\<lambda>i. b\<lparr>p_common_prng := advanced pl i (p_common_prng b)\<rparr>"
  have ann: "announced n f [n, f]" by simp
  have main: "guarded answers_shaped B (shares_returned pl b (length yf) bins)
    (bindp (circuit_receiver_hint hl pl (?b 1) Net bins hint_bins (cuckoo_values hl bins ?seed ?k ?keys) masks)
      (\<lambda>(content, addresses, self2).
        receiver_end hl pl b self2 bins hint_bins ys yf (size_t_of f) masks content addresses)) [n, f]"
    if masks: "length masks = bins" for masks
  proof (rule guarded_bindp3 [OF receiver_hint_guarded [OF own masks adr ann]], elim conjE, simp only:)
    fix h' content assume "announced n f h'" "length (content :: 64 word list) = bins * p_num_of_fun_hint b"
    from receiver_end_guarded [OF own masks this(2) adr yf this(1) rows]
    show "guarded answers_shaped B (shares_returned pl b (length yf) bins)
      (receiver_end hl pl b (?b 2) bins hint_bins ys yf (size_t_of f) masks content
        (hint_addresses hl pl b ys bins hint_bins)) h'" by simp
  qed
  show ?thesis
    unfolding receiver_run_def Let_def
    by (rule guarded_bindp3 [OF receiver_oprf_guarded [OF own]], elim conjE,
        simp only: main [unfolded receiver_end_def Let_def])
qed

text \<open>The contracts of a run of two honest parties give the receiver's side and the honest sizes.\<close>

lemma receiver_of_run:
  assumes run: "circuit_run_ok hl pl ideal loc hloc F bins hint_bins T a b xs xf ys yf"
  shows "receiver_bins_ok hl pl b ys bins"
    "receiver_peer_ok hl pl b ys bins (length yf) [] (size_t_bytes (length xs))"
    "receiver_peer_ok hl pl b ys bins (length yf) [m] (size_t_bytes (length xf))"
proof -
  note r = circuit_runD [OF run]
  let ?keys = "hash_keys hl ys" and ?k = "p_num_of_fun a" and ?h = "p_num_of_fun_hint a"
  have eq: "p_common_prng b = p_common_prng a" "p_num_of_fun b = ?k" "p_num_of_fun_hint b = ?h"
    "p_epsilon_hint b = p_epsilon_hint a" using r(1) by (simp_all add: circuit_paired_def)
  have tabs: "cuckoo_values hl bins (seed_at pl 0 (p_common_prng a)) ?k ?keys = t_cvals T"
    "cuckoo_occupancy hl bins (seed_at pl 0 (p_common_prng a)) ?k ?keys = t_cocc T"
    "cuckoo_source_values hl bins (seed_at pl 0 (p_common_prng a)) ?k ?keys = t_csrc T"
    "hint_addresses hl pl b ys bins hint_bins = t_addresses T"
    by (simp_all add: r(7) run_tables_def Let_def hint_addresses_def eq)
  have ok: "cuckoo_table_ok loc bins ?k ?keys (t_cvals T) (t_cids T) (t_cfids T)"
    "length (t_cocc T) = bins" "length (t_csrc T) = bins"
    "\<forall>b<bins. (t_cocc T ! b \<longleftrightarrow> t_cfids T ! b < ?k) \<and> (t_cocc T ! b \<longrightarrow> t_csrc T ! b = ?keys ! (t_cids T ! b))"
    and adr: "t_addresses T = concat (map (\<lambda>e. map (\<lambda>j. hloc j e) [0..<?h]) (t_cvals T))"
      "list_all (\<lambda>a. a < hint_bins) (t_addresses T)"
    using r(8) unfolding circuit_tables_ok_def list_all_iff by auto
  have cvals: "length (t_cvals T) = bins" using ok(1) by (simp add: cuckoo_table_ok_def)
  have "t_csrc T ! i \<in> set ?keys" if "i < bins" "t_cocc T ! i" for i
    using cuckoo_facts(3) [OF ok(1) that(1) _ refl] ok(4) that by auto
  then show "receiver_bins_ok hl pl b ys bins"
    using circuit_sizesD(3) [OF r(6)] ok(2,3) cvals
    by (simp add: receiver_bins_ok_def Let_def eq tabs list_all_iff)
  have "length (t_addresses T) = bins * ?h" unfolding adr(1)
    using length_runs [of "map (\<lambda>e. map (\<lambda>j. hloc j e) [0..<?h]) (t_cvals T)" ?h] cvals by simp
  moreover have "length xs < 2 ^ 64" using r(6) by (simp add: circuit_sizes_ok_def)
  ultimately show "receiver_peer_ok hl pl b ys bins (length yf) [] (size_t_bytes (length xs))"
    using adr(2) r(5) by (simp add: receiver_peer_ok_def size_codec.dec_enc eq tabs(4))
  show "receiver_peer_ok hl pl b ys bins (length yf) [m] (size_t_bytes (length xf))"
    using r(6) circuit_sizesD(5) [OF r(6)]
    by (simp add: receiver_peer_ok_def size_codec.dec_enc circuit_sizes_ok_def max_vectors_def)
qed

text \<open>C18: The receiver of the circuit protocol against any peer: garbled tables, announced stash and
  feature contents may be any bytes and the answers of the sub-protocols any shares of the right
  shape. As long as the announced number of keys gives a hint table whose addresses lie inside it
  and the announced number of feature columns does not make the number of rows wrap around, the
  receiver meets no undefined behaviour; shares it returns are a full matrix of the announced size,
  and its common generator has moved on by two seeds.\<close>

theorem circuit_receiver_any_peer:
  assumes "\<not> p_is_sender b" and "bins_for (length ys) (p_epsilon b) = Inr bins"
    and "receiver_bins_ok hl pl b ys bins" and "features_ok (length ys) yf"
  shows "guarded answers_shaped (receiver_peer_ok hl pl b ys bins (length yf))
    (shares_returned pl b (length yf) bins) (circuit_process hl pl b Net ys yf) []"
    (is "guarded _ ?B ?P _ _")
  unfolding circuit_process_receiver [OF assms(1)] assms(2) lift_res_simps bindp.simps guarded.simps
proof (intro allI impI)
  fix n f assume n: "?B [] n" and f: "?B ([] @ [n]) f"
  from n obtain hint_bins where hb: "hint_bins_for (size_t_of n) (p_num_of_fun b) bins (p_epsilon_hint b) = Inr hint_bins"
    and adr: "length (hint_addresses hl pl b ys bins hint_bins) = bins * p_num_of_fun_hint b"
      "list_all (\<lambda>a. a < hint_bins) (hint_addresses hl pl b ys bins hint_bins)"
    by (auto simp: receiver_peer_ok_def split: sum.splits)
  from f have rows: "length yf + size_t_of f + 1 < 2 ^ 64" by (simp add: receiver_peer_ok_def)
  show "guarded answers_shaped ?B ?P
    (bindp (lift_res (hint_bins_for (size_t_of n) (p_num_of_fun b) bins (p_epsilon_hint b))) (\<lambda>hint_bins.
       receiver_run hl pl b bins hint_bins ys yf (size_t_of f))) (([] @ [n]) @ [f])"
    using receiver_run_guarded [OF assms(3,4) adr rows, of ?B n] by (simp add: hb)
qed

theorem circuit_receiver_any_peer_witness:
  "receiver_peer_ok toy_hash toy_prng (toy_circuit False) [''b'', ''a''] 3 1 [] (size_t_bytes 1) \<and>
   receiver_peer_ok toy_hash toy_prng (toy_circuit False) [''b'', ''a''] 3 1 [size_t_bytes 1] (size_t_bytes 1) \<and>
   guarded answers_shaped (receiver_peer_ok toy_hash toy_prng (toy_circuit False) [''b'', ''a''] 3 1)
     (shares_returned toy_prng (toy_circuit False) 1 3)
     (circuit_process toy_hash toy_prng (toy_circuit False) Net [''b'', ''a''] [[8, 9]]) []"
proof -
  have role: "\<not> p_is_sender (toy_circuit False)" by (simp add: toy_circuit_def)
  have bins: "bins_for (length [''b'', ''a'']) (p_epsilon (toy_circuit False)) = Inr 3"
    using toy_circuit_bins(1) by (simp add: toy_circuit_fields numeral_2_eq_2)
  note own = receiver_of_run [OF toy_circuit_run]
  have "features_ok (length [''b'', ''a'']) [[8, 9]]" by (simp add: features_ok_def)
  from circuit_receiver_any_peer [OF role bins own(1) this] own(2) own(3) [of "size_t_bytes 1"]
  show ?thesis by simp
qed

end
