(* ===== verification/Circuit_Sender_Safety.thy ===== *)
theory Circuit_Sender_Safety
  imports Circuit_Peer
begin

text \<open>
  The sender of the circuit protocol against a peer that does not follow it: the announced
  number of keys fixes the sender's tables, the announced number of columns the rows of the
  shares; no other message decides what the sender does.
\<close>

section \<open>The tables of the sender\<close>

definition sender_values :: "hash_lib \<Rightarrow> 'r prng_lib \<Rightarrow> 'r circuit_psi \<Rightarrow> string list \<Rightarrow> nat \<Rightarrow> item list list" where
  "sender_values hl pl a xs bins =
     bin_entry_values hl bins (seed_at pl 0 (p_common_prng a)) (p_num_of_fun a) (hash_keys hl xs)"

definition hint_columns ::
  "hash_lib \<Rightarrow> 'r prng_lib \<Rightarrow> 'r circuit_psi \<Rightarrow> nat \<Rightarrow> item list \<Rightarrow> bool list \<times> item list \<times> nat list" where
  "hint_columns hl pl a hint_bins inputs =
     (let seed = seed_at pl 1 (p_common_prng a); h = p_num_of_fun_hint a in
      (cuckoo_occupancy hl hint_bins seed h inputs, cuckoo_source_values hl hint_bins seed h inputs,
       cuckoo_function_ids hl hint_bins seed h inputs))"

text \<open>
  The library builds a proper simple table for \<open>bins\<close> bins, and from its values a proper hint table,
  unless that needs a stash.
\<close>

definition sender_tables_ok ::
  "hash_lib \<Rightarrow> 'r prng_lib \<Rightarrow> (nat \<Rightarrow> item \<Rightarrow> nat) \<Rightarrow> (nat \<Rightarrow> item \<Rightarrow> nat) \<Rightarrow> 'r circuit_psi \<Rightarrow> string list \<Rightarrow>
     nat \<Rightarrow> nat \<Rightarrow> bool" where
  "sender_tables_ok hl pl loc hloc a xs bins hint_bins \<longleftrightarrow>
     (let k = p_num_of_fun a; h = p_num_of_fun_hint a; vals = sender_values hl pl a xs bins in
      bins \<le> 2 ^ 31 \<and>
      simple_table_ok loc bins k (hash_keys hl xs) vals
        (bin_entry_function_ids hl bins (seed_at pl 0 (p_common_prng a)) k (hash_keys hl xs)) \<and>
      (cuckoo_stash_size hl hint_bins (seed_at pl 1 (p_common_prng a)) h (concat vals) = 0 \<longrightarrow>
       (case hint_columns hl pl a hint_bins (concat vals) of (occ, src, fids) \<Rightarrow>
          hint_table_ok hloc hint_bins h (concat vals) occ src fids)))"

text \<open>Garbling meets no error when every value has a content in its bin.\<close>

lemma garble_full:
  assumes hint: "hint_table_ok hloc hint_bins h (concat vals) occ src fids" and len: "length vals = bins"
    and find: "\<forall>i<bins. \<forall>j<length (vals ! i). tloc (vals ! i ! j) = Some (i, j)"
    and content: "\<And>i v. i < bins \<Longrightarrow> v \<in> set (vals ! i) \<Longrightarrow> \<exists>c. content v i = Inr c"
  shows "\<exists>garbled g'. garble pl hint_bins occ src fids tloc (sender_masks F bins vals) tweak content g =
    Inr (garbled, g')"
proof -
  let ?masks = "sender_masks F bins vals" and ?i = "\<lambda>b. fst (the (tloc (src ! b)))"
  let ?m = "\<lambda>b. F (?i b) (block_of (src ! b))" and ?c = "\<lambda>b. projr (content (src ! b) (?i b))"
  have "\<exists>i j. tloc (src ! b) = Some (i, j) \<and> i < length ?masks \<and> j < length (?masks ! i) \<and>
      content (src ! b) i = Inr (?c b) \<and> ?masks ! i ! j = ?m b" if b: "b < hint_bins" "occ ! b" for b
  proof -
    from hint_placed [OF hint len find b] obtain i j where ij: "tloc (src ! b) = Some (i, j)" "i < bins"
        "j < length (vals ! i)" "vals ! i ! j = src ! b" by blast
    then have "src ! b \<in> set (vals ! i)" by (metis nth_mem)
    from content [OF ij(2) this] ij show ?thesis by (auto simp: sender_masks_def)
  qed
  moreover have "length occ = hint_bins" "length src = hint_bins" "length fids = hint_bins"
    using hint by (simp_all add: hint_table_ok_def)
  ultimately show ?thesis
    using garble_result [of occ hint_bins src fids tloc ?masks content ?c ?m pl tweak g] by blast
qed

section \<open>The phases\<close>

lemma sender_oprf_full:
  assumes tabs: "sender_tables_ok hl pl loc hloc a xs bins hint_bins" and ann: "announced n f h0"
  shows "guarded A B (\<lambda>h' (values, masks, a'). announced n f h' \<and> values = sender_values hl pl a xs bins \<and>
      (\<exists>F. masks = sender_masks F bins values) \<and> a' = a\<lparr>p_common_prng := advanced pl 1 (p_common_prng a)\<rparr>)
    (circuit_sender_oprf hl pl a Net bins (hash_keys hl xs)) h0"
proof -
  have len: "length (sender_values hl pl a xs bins) = bins"
    using tabs by (simp add: sender_tables_ok_def Let_def simple_table_ok_def)
  show ?thesis
    unfolding circuit_sender_oprf_def draw_seed Let_def prod.case net_ops_simps bindp.simps guarded.simps
      sender_values_def [symmetric]
    by (intro allI impI, rule guarded_check_stash, rule guarded_lift, force simp: vec_create_def split: if_splits)
       (auto simp: table_blocks_result [OF len] encode_masks_sender [OF len] ann split: verse_answer.split)
qed

text \<open>What the membership hint leaves: contents, the located values, and a proper hint table.\<close>

definition hint_ready :: "(nat \<Rightarrow> item \<Rightarrow> nat) \<Rightarrow> nat \<Rightarrow> nat \<Rightarrow> nat \<Rightarrow> item list list \<Rightarrow> hint_tables \<Rightarrow> bool" where
  "hint_ready hloc h bins hint_bins vals tables \<longleftrightarrow>
     length (h_contents tables) = bins \<and> length vals = bins \<and>
     hint_table_ok hloc hint_bins h (concat vals) (h_occupancy tables) (h_source_values tables)
       (h_function_ids tables) \<and>
     (\<forall>i<bins. \<forall>j<length (vals ! i). h_table_loc tables (vals ! i ! j) = Some (i, j))"

definition sender_keys_ok :: "hash_lib \<Rightarrow> 'r circuit_psi \<Rightarrow> string list \<Rightarrow> bool" where
  "sender_keys_ok hl a xs \<longleftrightarrow> distinct (concat (map (sender_names (p_num_of_fun a)) (hash_keys hl xs))) \<and>
     p_num_of_fun a * length xs \<le> 2 ^ 31"

lemma sender_located:
  assumes tabs: "sender_tables_ok hl pl loc hloc a xs bins hint_bins" and keys: "sender_keys_ok hl a xs"
  shows "\<exists>tloc. locate_items bins (sender_values hl pl a xs bins) =
      Inr (tloc, concat (sender_values hl pl a xs bins)) \<and>
    (\<forall>i<bins. \<forall>j<length (sender_values hl pl a xs bins ! i).
       tloc (sender_values hl pl a xs bins ! i ! j) = Some (i, j))"
proof (rule locate_items_result)
  have simple: "simple_table_ok loc bins (p_num_of_fun a) (hash_keys hl xs) (sender_values hl pl a xs bins)
      (bin_entry_function_ids hl bins (seed_at pl 0 (p_common_prng a)) (p_num_of_fun a) (hash_keys hl xs))"
    using tabs by (simp add: sender_tables_ok_def Let_def)
  show "length (sender_values hl pl a xs bins) = bins" using simple by (simp add: simple_table_ok_def)
  show "bins \<le> 2 ^ 31" using tabs by (simp add: sender_tables_ok_def Let_def)
  show "\<forall>row\<in>set (sender_values hl pl a xs bins). length row \<le> 2 ^ 31"
    by (rule table_rows_small [OF simple]) (use keys in \<open>simp add: sender_keys_ok_def\<close>)
  show "distinct (concat (sender_values hl pl a xs bins))"
    using table_values_mset [OF simple] keys mset_eq_imp_distinct_iff by (auto simp: sender_keys_ok_def)
qed

lemma sender_hint_full:
  assumes tabs: "sender_tables_ok hl pl loc hloc a xs bins hint_bins" and keys: "sender_keys_ok hl a xs"
  defines "vals \<equiv> sender_values hl pl a xs bins"
  shows "guarded A B (\<lambda>h' (tables, a'). h' = h0 \<and>
      hint_ready hloc (p_num_of_fun_hint a) bins hint_bins vals tables \<and>
      p_common_prng a' = advanced pl 2 (p_common_prng a) \<and>
      p_num_of_fun a' = p_num_of_fun a \<and> p_num_of_fun_hint a' = p_num_of_fun_hint a)
    (circuit_sender_hint hl pl (a\<lparr>p_common_prng := advanced pl 1 (p_common_prng a)\<rparr>) Net bins hint_bins vals
       (sender_masks F bins vals)) h0"
    (is "guarded _ _ ?P _ _")
proof -
  let ?h = "p_num_of_fun_hint a" and ?seed = "seed_at pl 1 (p_common_prng a)"
  let ?occ = "cuckoo_occupancy hl hint_bins ?seed ?h (concat vals)"
  let ?src = "cuckoo_source_values hl hint_bins ?seed ?h (concat vals)"
  let ?fids = "cuckoo_function_ids hl hint_bins ?seed ?h (concat vals)"
  from sender_located [OF tabs keys, folded vals_def] obtain tloc where
    tloc: "locate_items bins vals = Inr (tloc, concat vals)"
      "\<forall>i<bins. \<forall>j<length (vals ! i). tloc (vals ! i ! j) = Some (i, j)" by blast
  have len: "length vals = bins"
    using tabs by (simp add: sender_tables_ok_def Let_def simple_table_ok_def vals_def)
  have table: "hint_table_ok hloc hint_bins ?h (concat vals) ?occ ?src ?fids"
    if "cuckoo_stash_size hl hint_bins ?seed ?h (concat vals) = 0"
    using tabs that by (simp add: sender_tables_ok_def Let_def vals_def hint_columns_def)
  obtain contents g1 where draw: "draw_u64s pl bins (p_prng a) = (contents, g1)" by (metis surj_pair)
  then have lc: "length contents = bins" using length_draw_u64s [of pl bins "p_prng a"] by simp
  have garble: "\<exists>garbled g'. garble pl hint_bins ?occ ?src ?fids tloc (sender_masks F bins vals) 0
      (\<lambda>element bin. vec_at contents bin) g1 = Inr (garbled, g')"
    if "cuckoo_stash_size hl hint_bins ?seed ?h (concat vals) = 0"
    by (rule garble_full [OF table [OF that] len tloc(2)]) (simp add: lc)
  show ?thesis
  proof (cases "cuckoo_stash_size hl hint_bins ?seed ?h (concat vals) = 0")
    case True
    from garble [OF True] obtain garbled g' where
      "garble pl hint_bins ?occ ?src ?fids tloc (sender_masks F bins vals) 0
        (\<lambda>element bin. vec_at contents bin) g1 = Inr (garbled, g')" by blast
    then show ?thesis
      using True table [OF True] tloc lc len
      by (simp add: circuit_sender_hint_def draw draw_seed(2) Let_def check_stash_def vec_create_def hint_ready_def
          del: One_nat_def)
  next
    case False
    then show ?thesis
      by (simp add: circuit_sender_hint_def draw draw_seed(2) tloc(1) Let_def check_stash_def del: One_nat_def)
  qed
qed

lemma sender_features_full:
  fixes pl :: "'r prng_lib"
  assumes ready: "hint_ready hloc h bins hint_bins vals tables" and k: "p_num_of_fun a = k"
    and h: "p_num_of_fun_hint a = h"
    and simple: "simple_table_ok loc bins k keys vals fids" and xf: "features_ok (length keys) xf"
  shows "guarded A B (\<lambda>h' (fs, a'). h' = h0 \<and> length fs = length xf \<and> list_all (shaped bins h) fs \<and>
      p_common_prng a' = p_common_prng a)
    (circuit_sender_features pl a Net bins hint_bins keys xf (length xf) tables (sender_masks F bins vals)) h0"
    (is "guarded _ _ ?Q _ _")
proof (cases "length xf = 0")
  case False
  from feature_table_rows [OF xf, of "sender_names k"] obtain t where
    t: "feature_table (sender_names k) keys xf (length xf) (length keys) = Inr t"
      "\<forall>key\<in>set keys. \<forall>name\<in>set (sender_names k key). \<exists>row. t name = Some row \<and> length row = length xf" by blast
  have row: "\<exists>row. t v = Some row \<and> length row = length xf" if "i < bins" "v \<in> set (vals ! i)" for i v
    using table_value_iff [OF simple that(1)] that(2) t(2) by (force simp: sender_names_def)
  let ?P = "\<lambda>i h' s. h' = h0 \<and> length (fst s) = i \<and> list_all (shaped bins h) (fst s)"
  have loop: "guarded A B (?P (length xf))
    (fold_proc (circuit_sender_feature pl Net bins hint_bins h tables (sender_masks F bins vals) t)
       [0..<length xf] ([], p_prng a)) h0"
  proof (rule guarded_loop [where P = ?P])
    fix i h' and s :: "matrix list \<times> 'r" assume i: "i < length xf" and inv: "?P i h' s"
    obtain fs g where s: "s = (fs, g)" by (cases s)
    obtain cs g1 where draw: "draw_u64s pl bins g = (cs, g1)" by (metis surj_pair)
    then have lc: "length cs = bins" using length_draw_u64s [of pl bins g] by simp
    let ?content = "\<lambda>element bin. res_bind (vec_at (lookup [] t element) i) (\<lambda>v.
        res_bind (vec_at cs bin) (\<lambda>c. Inr (v - c)))"
    have content: "\<exists>c. ?content v b = Inr c" if "b < bins" "v \<in> set (vals ! b)" for b v
      using row [OF that] that(1) i lc by (auto simp: lookup_def)
    have "\<exists>garbled g'. garble pl hint_bins (h_occupancy tables) (h_source_values tables) (h_function_ids tables)
        (h_table_loc tables) (sender_masks F bins vals) (fid_block i) ?content g1 = Inr (garbled, g')"
      by (rule garble_full [OF _ _ _ content]) (use ready in \<open>auto simp: hint_ready_def\<close>)
    then obtain garbled g' where "garble pl hint_bins (h_occupancy tables) (h_source_values tables)
        (h_function_ids tables) (h_table_loc tables) (sender_masks F bins vals) (fid_block i) ?content g1 =
        Inr (garbled, g')" by blast
    moreover have "shaped bins h (map (replicate h) cs)" using lc by (simp add: shaped_def list_all_length)
    ultimately show "guarded A B (?P (Suc i))
      (circuit_sender_feature pl Net bins hint_bins h tables (sender_masks F bins vals) t i s) h'"
      using inv s by (simp add: circuit_sender_feature_def draw vec_create_def)
  qed simp
  have "guarded A B ?Q (bindp (fold_proc (circuit_sender_feature pl Net bins hint_bins h tables
      (sender_masks F bins vals) t) [0..<length xf] ([], p_prng a)) (\<lambda>(fs, g). Ret (fs, a\<lparr>p_prng := g\<rparr>))) h0"
    by (rule guarded_bindp [OF loop]) (auto split: prod.split)
  with False show ?thesis by (simp add: circuit_sender_features_def t(1) k h)
qed (simp add: circuit_sender_features_def)

section \<open>A sender and any peer\<close>

definition sender_run ::
  "hash_lib \<Rightarrow> 'r prng_lib \<Rightarrow> 'r circuit_psi \<Rightarrow> nat \<Rightarrow> nat \<Rightarrow> string list \<Rightarrow> 64 word list list \<Rightarrow> nat \<Rightarrow>
     (matrix \<times> 'r circuit_psi) verse_proc" where
  "sender_run hl pl a bins hint_bins xs xf rf =
     (let keys = hash_keys hl xs; h = p_num_of_fun_hint a in
      bindp (circuit_sender_oprf hl pl a Net bins keys) (\<lambda>(values, masks, self1).
      bindp (circuit_sender_hint hl pl self1 Net bins hint_bins values masks) (\<lambda>(tables, self2).
      bindp (circuit_sender_features pl self2 Net bins hint_bins keys xf (length xf) tables masks)
        (\<lambda>(feature_shares, self3).
      bindp (circuit_sender_shares bins h (length xf) rf (h_contents tables) feature_shares) (\<lambda>shares.
        Ret (shares, self3))))))"

lemma circuit_process_sender:
  assumes "p_is_sender a"
  shows "circuit_process hl pl a Net xs xf =
    Recv 8 (\<lambda>n. Recv 8 (\<lambda>f. Send (size_t_bytes (length xs)) (Send (size_t_bytes (length xf))
      (bindp (lift_res (bins_for (size_t_of n) (p_epsilon a))) (\<lambda>bins.
       bindp (lift_res (hint_bins_for (length xs) (p_num_of_fun a) bins (p_epsilon_hint a))) (\<lambda>hint_bins.
         sender_run hl pl a bins hint_bins xs xf (size_t_of f)))))))"
  using assms by (simp add: circuit_process_def circuit_exchange_sizes_def sender_run_def)

lemma sender_run_guarded:
  fixes pl :: "'r prng_lib"
  assumes tabs: "sender_tables_ok hl pl loc hloc a xs bins hint_bins" and keys: "sender_keys_ok hl a xs"
    and xf: "features_ok (length xs) xf" and rows: "length xf + size_t_of f + 1 < 2 ^ 64"
  shows "guarded answers_shaped B (\<lambda>h r. announced n f h \<and> shares_returned pl a (length xf) bins h r)
    (sender_run hl pl a bins hint_bins xs xf (size_t_of f)) [n, f]"
proof -
  let ?keys = "hash_keys hl xs" and ?h = "p_num_of_fun_hint a" and ?vals = "sender_values hl pl a xs bins"
  let ?Q = "\<lambda>h r. announced n f h \<and> shares_returned pl a (length xf) bins h r"
  have simple: "simple_table_ok loc bins (p_num_of_fun a) ?keys ?vals
      (bin_entry_function_ids hl bins (seed_at pl 0 (p_common_prng a)) (p_num_of_fun a) ?keys)"
    using tabs by (simp add: sender_tables_ok_def Let_def)
  have xf': "features_ok (length ?keys) xf" using xf by simp
  have last: "guarded answers_shaped B ?Q
      (bindp (circuit_sender_features pl a2 Net bins hint_bins ?keys xf (length xf) tables (sender_masks F bins ?vals))
        (\<lambda>(feature_shares, self3).
       bindp (circuit_sender_shares bins ?h (length xf) (size_t_of f) (h_contents tables) feature_shares)
        (\<lambda>shares. Ret (shares, self3)))) h'"
    if ann: "announced n f h'" and ready: "hint_ready hloc ?h bins hint_bins ?vals tables"
      and a2: "p_common_prng a2 = advanced pl 2 (p_common_prng a)" "p_num_of_fun a2 = p_num_of_fun a"
        "p_num_of_fun_hint a2 = ?h" for h' tables F and a2 :: "'r circuit_psi"
  proof (rule guarded_bindp2 [OF sender_features_full [OF ready a2(2,3) simple xf']])
    fix h'' fs and a3 :: "'r circuit_psi"
    assume u: "h'' = h' \<and> length fs = length xf \<and> list_all (shaped bins ?h) fs \<and> p_common_prng a3 = p_common_prng a2"
    have "length (h_contents tables) = bins" using ready by (simp add: hint_ready_def)
    then have "guarded answers_shaped B (\<lambda>h s. h = h'' \<and> shaped (length xf + size_t_of f + 1) bins s)
      (circuit_sender_shares bins ?h (length xf) (size_t_of f) (h_contents tables) fs) h''"
      by (rule sender_shares_guarded [OF _ _ _ rows]) (use u in simp_all)
    then show "guarded answers_shaped B ?Q
      (bindp (circuit_sender_shares bins ?h (length xf) (size_t_of f) (h_contents tables) fs)
        (\<lambda>shares. Ret (shares, a3))) h''"
      by (rule guarded_bindp) (use u ann a2(1) announcedD in \<open>auto simp: shares_returned_def\<close>)
  qed
  have main: "guarded answers_shaped B ?Q
      (bindp (circuit_sender_hint hl pl (a\<lparr>p_common_prng := advanced pl 1 (p_common_prng a)\<rparr>) Net bins hint_bins
           ?vals (sender_masks F bins ?vals)) (\<lambda>(tables, self2).
       bindp (circuit_sender_features pl self2 Net bins hint_bins ?keys xf (length xf) tables (sender_masks F bins ?vals))
        (\<lambda>(feature_shares, self3).
       bindp (circuit_sender_shares bins ?h (length xf) (size_t_of f) (h_contents tables) feature_shares)
        (\<lambda>shares. Ret (shares, self3))))) h'" if "announced n f h'" for h' F
    by (rule guarded_bindp2 [OF sender_hint_full [OF tabs keys]], elim conjE, rule last) (simp_all add: that)
  show ?thesis
    unfolding sender_run_def Let_def
    by (rule guarded_bindp3, rule sender_oprf_full [OF tabs], rule announced_simps(1), elim conjE exE, simp only: main)
qed

text \<open>What the two announced sizes must satisfy.\<close>

definition circuit_sender_peer_ok ::
  "hash_lib \<Rightarrow> 'r prng_lib \<Rightarrow> (nat \<Rightarrow> nat \<Rightarrow> item \<Rightarrow> nat) \<Rightarrow> 'r circuit_psi \<Rightarrow> string list \<Rightarrow> nat \<Rightarrow>
     byte list list \<Rightarrow> byte list \<Rightarrow> bool" where
  "circuit_sender_peer_ok hl pl loc a xs sf h m \<longleftrightarrow>
     (h = [] \<longrightarrow> (case bins_for (size_t_of m) (p_epsilon a) of Inl e \<Rightarrow> False | Inr bins \<Rightarrow>
        (case hint_bins_for (length xs) (p_num_of_fun a) bins (p_epsilon_hint a) of Inl e \<Rightarrow> False
         | Inr hint_bins \<Rightarrow> sender_tables_ok hl pl (loc bins) (loc hint_bins) a xs bins hint_bins))) \<and>
     (length h = 1 \<longrightarrow> sf + size_t_of m + 1 < 2 ^ 64)"

text \<open>The contracts of a run of two honest parties give the sender's side and the honest sizes.\<close>

lemma sender_of_run:
  assumes run: "circuit_run_ok hl pl ideal (loc bins) (loc hint_bins) F bins hint_bins T a b xs xf ys yf"
  shows "sender_keys_ok hl a xs"
    "circuit_sender_peer_ok hl pl loc a xs (length xf) [] (size_t_bytes (length ys))"
    "circuit_sender_peer_ok hl pl loc a xs (length xf) [m] (size_t_bytes (length yf))"
proof -
  note r = circuit_runD [OF run]
  show "sender_keys_ok hl a xs"
    using r(6,9) by (simp add: sender_keys_ok_def circuit_sizes_ok_def circuit_names_ok_def)
  have "sender_tables_ok hl pl (loc bins) (loc hint_bins) a xs bins hint_bins"
    using r(6,8) by (simp add: sender_tables_ok_def sender_values_def hint_columns_def Let_def
        circuit_sizes_ok_def circuit_tables_ok_def r(7) run_tables_def)
  moreover have "length ys < 2 ^ 64" using r(6) by (simp add: circuit_sizes_ok_def)
  ultimately show "circuit_sender_peer_ok hl pl loc a xs (length xf) [] (size_t_bytes (length ys))"
    using r(4,5) by (simp add: circuit_sender_peer_ok_def size_codec.dec_enc)
  show "circuit_sender_peer_ok hl pl loc a xs (length xf) [m] (size_t_bytes (length yf))"
    using r(6) circuit_sizesD(6) [OF r(6)]
    by (simp add: circuit_sender_peer_ok_def size_codec.dec_enc circuit_sizes_ok_def max_vectors_def)
qed

text \<open>C19: The sender of the circuit protocol against any peer: as long as the announced number of keys
  gives sizes for which the library builds proper tables, and the announced number of feature columns
  does not make the number of rows wrap around, the sender meets no undefined behaviour, whatever the
  OPRF hands it and whatever stash the peer announces. Shares it returns are a full matrix of the
  announced sizes, and its common generator has moved on by two seeds.\<close>

theorem circuit_sender_any_peer:
  assumes "p_is_sender a" and "sender_keys_ok hl a xs" and "features_ok (length xs) xf"
  shows "guarded answers_shaped (circuit_sender_peer_ok hl pl loc a xs (length xf))
    (\<lambda>h r. \<exists>bins. bins_for (size_t_of (h ! 0)) (p_epsilon a) = Inr bins \<and> shares_returned pl a (length xf) bins h r)
    (circuit_process hl pl a Net xs xf) []"
    (is "guarded _ ?B ?P _ _")
  unfolding circuit_process_sender [OF assms(1)] guarded.simps
proof (intro allI impI)
  fix n f assume n: "?B [] n" and f: "?B ([] @ [n]) f"
  from n obtain bins hint_bins where bins: "bins_for (size_t_of n) (p_epsilon a) = Inr bins"
      "hint_bins_for (length xs) (p_num_of_fun a) bins (p_epsilon_hint a) = Inr hint_bins"
    and tabs: "sender_tables_ok hl pl (loc bins) (loc hint_bins) a xs bins hint_bins"
    by (auto simp: circuit_sender_peer_ok_def split: sum.splits)
  from f have rows: "length xf + size_t_of f + 1 < 2 ^ 64" by (simp add: circuit_sender_peer_ok_def)
  have "guarded answers_shaped ?B ?P (sender_run hl pl a bins hint_bins xs xf (size_t_of f)) [n, f]"
    by (rule guarded_mono [OF sender_run_guarded [OF tabs assms(2,3) rows]]) (use bins(1) in \<open>auto dest: announcedD\<close>)
  with bins show "guarded answers_shaped ?B ?P
    (bindp (lift_res (bins_for (size_t_of n) (p_epsilon a))) (\<lambda>bins.
     bindp (lift_res (hint_bins_for (length xs) (p_num_of_fun a) bins (p_epsilon_hint a))) (\<lambda>hint_bins.
       sender_run hl pl a bins hint_bins xs xf (size_t_of f)))) (([] @ [n]) @ [f])" by simp
qed

theorem circuit_sender_any_peer_witness:
  "circuit_sender_peer_ok toy_hash toy_prng toy_loc (toy_circuit True) [''a''] 1 [] (size_t_bytes 2) \<and>
   circuit_sender_peer_ok toy_hash toy_prng toy_loc (toy_circuit True) [''a''] 1 [size_t_bytes 2] (size_t_bytes 1) \<and>
   guarded answers_shaped (circuit_sender_peer_ok toy_hash toy_prng toy_loc (toy_circuit True) [''a''] 1)
     (\<lambda>h r. \<exists>bins. bins_for (size_t_of (h ! 0)) 0x3ff8000000000000 = Inr bins \<and>
        shares_returned toy_prng (toy_circuit True) 1 bins h r)
     (circuit_process toy_hash toy_prng (toy_circuit True) Net [''a''] [[7]]) []"
proof -
  have role: "p_is_sender (toy_circuit True)" by (simp add: toy_circuit_def)
  note own = sender_of_run [OF toy_circuit_run]
  have "features_ok (length [''a'']) [[7]]" by (simp add: features_ok_def)
  from circuit_sender_any_peer [OF role own(1) this] own(2) own(3) [of "size_t_bytes 2"]
  show ?thesis by (simp add: toy_circuit_fields numeral_2_eq_2)
qed

text \<open>An announced number for which the number of bins does not fit makes the conversion undefined.\<close>

lemma circuit_announced_bins_overflow:
  assumes "p_is_sender a" and "n < 2 ^ 64" and "m < 2 ^ 64" and "bins_for n (p_epsilon a) = Inl e"
  shows "fed (circuit_process hl pl a Net xs xf) (size_t_bytes n @ size_t_bytes m) = Some (Inl e)"
  unfolding circuit_process_sender [OF assms(1)]
  by (simp add: size_codec.enc_width [OF assms(2)] size_codec.enc_width [OF assms(3)]
      size_codec.dec_enc [OF assms(2)] assms(4))

end
