(* ===== verification/Circuit_Pads.thy ===== *)
theory Circuit_Pads
  imports Circuit_Theorems
begin

text \<open>
  The two garbled tables that the sender of circuit PSI puts on the wire after the OPRF, the
  membership hint and the first feature column, and the pads they are under.
\<close>

section \<open>The membership hint\<close>

lemma padded: "x XOR p = c \<longleftrightarrow> x = c XOR p" for x p c :: "64 word"
  by (auto simp: xor.assoc)

lemma pad_cancels: "(x XOR p) XOR (y XOR p) = x XOR y" for x y p :: "64 word"
proof -
  have "(x XOR p) XOR (y XOR p) = (x XOR y) XOR (p XOR p)" by (simp only: ac_simps)
  then show ?thesis by simp
qed

lemma programmed_bin:
  assumes "programmed pl F h bins T tweak garbled c" and "i < bins" and "v \<in> set (t_vals T ! i)"
    and "b = slot (t_hocc T) (t_hsrc T) v"
  shows "garbled ! b = c i v XOR pads pl (F i (block_of v)) tweak h ! (t_hfids T ! b)"
  using assms unfolding programmed_def padded by blast

lemma sender_hint_sends:
  assumes pair: "circuit_paired a b" and T: "T = run_tables hl pl a bins hint_bins xs ys"
    and ok: "circuit_tables_ok loc hloc (p_num_of_fun a) (p_num_of_fun_hint a) bins hint_bins xs ys T"
    and names: "circuit_names_ok (p_num_of_fun a) bins xs ys T"
    and sizes: "circuit_sizes_ok bins hint_bins (p_num_of_fun a) (p_num_of_fun_hint a) (length xs) m sf rf"
    and stash: "circuit_no_stash hl pl a bins hint_bins xs ys"
    and sent: "sent_hint pl F bins hint_bins (p_prng a) T = Inr (contents, hint, g)"
  shows "\<exists>tables. circuit_sender_hint hl pl (a\<lparr>p_common_prng := advanced pl 1 (p_common_prng a)\<rparr>) Net bins
      hint_bins (t_vals T) (sender_masks F bins (t_vals T)) =
    Send (size_t_bytes 0) (Send (concat (map u64_bytes hint))
      (Ret (tables, a\<lparr>p_prng := g, p_common_prng := advanced pl 2 (p_common_prng a)\<rparr>))) \<and>
    located bins T (h_table_loc tables) \<and> h_occupancy tables = t_hocc T \<and>
    h_source_values tables = t_hsrc T \<and> h_function_ids tables = t_hfids T"
proof -
  have small: "bins \<le> 2 ^ 31" "p_num_of_fun a * length xs \<le> 2 ^ 31" "hint_bins \<le> max_u64s"
    using sizes by (simp_all add: circuit_sizes_ok_def)
  have simple: "simple_table_ok loc bins (p_num_of_fun a) xs (t_vals T) (t_fids T)"
    using ok by (simp add: circuit_tables_ok_def)
  then have len: "length (t_vals T) = bins" by (simp add: simple_table_ok_def)
  from locate_items_result [OF len small(1) table_rows_small [OF simple small(2)]
      table_values_distinct [OF ok names]] obtain tloc where
    tloc: "locate_items bins (t_vals T) = Inr (tloc, concat (t_vals T))" "located bins T tloc"
    by (auto simp: located_def)
  obtain g1 where draw: "draw_u64s pl bins (p_prng a) = (contents, g1)"
    and gb: "garble pl hint_bins (t_hocc T) (t_hsrc T) (t_hfids T) tloc (sender_masks F bins (t_vals T)) 0
      (\<lambda>_. vec_at contents) g1 = Inr (hint, g)"
    using sent by (auto simp: sent_hint_def tloc(1) res_bind_eq_Inr split: prod.splits)
  let ?g = "p_common_prng a" and ?h = "p_num_of_fun_hint a"
  have tabs: "cuckoo_occupancy hl hint_bins (seed_at pl 1 ?g) ?h (concat (t_vals T)) = t_hocc T"
    "cuckoo_source_values hl hint_bins (seed_at pl 1 ?g) ?h (concat (t_vals T)) = t_hsrc T"
    "cuckoo_function_ids hl hint_bins (seed_at pl 1 ?g) ?h (concat (t_vals T)) = t_hfids T"
    "cuckoo_stash_size hl hint_bins (seed_at pl 1 ?g) ?h (concat (t_vals T)) = 0"
    using stash by (simp_all add: T run_tables_def Let_def circuit_no_stash_def del: One_nat_def)
  let ?tables = "\<lparr>h_contents = contents, h_table_loc = tloc, h_occupancy = t_hocc T,
      h_source_values = t_hsrc T, h_function_ids = t_hfids T\<rparr>"
  have "circuit_sender_hint hl pl (a\<lparr>p_common_prng := advanced pl 1 ?g\<rparr>) Net bins
      hint_bins (t_vals T) (sender_masks F bins (t_vals T)) =
    Send (size_t_bytes 0) (Send (concat (map u64_bytes hint))
      (Ret (?tables, a\<lparr>p_prng := g, p_common_prng := advanced pl 2 ?g\<rparr>)))"
    unfolding circuit_sender_hint_def
    by (simp add: draw draw_seed(2) tloc(1) tabs Let_def check_stash_def vec_size_ok small(3) gb
        del: advanced.simps One_nat_def)
  with tloc(2) show ?thesis by (intro exI [of _ ?tables]) simp
qed

section \<open>The first feature column\<close>

lemma sender_first_column_sends:
  assumes ok: "circuit_tables_ok loc hloc k h bins hint_bins xs ys T"
    and names: "circuit_names_ok k bins xs ys T" and find: "located bins T (h_table_loc tables)"
    and small: "hint_bins \<le> max_u64s"
    and feat: "features_ok (length xs) xf" "xf \<noteq> []"
    and tables: "h_occupancy tables = t_hocc T" "h_source_values tables = t_hsrc T"
      "h_function_ids tables = t_hfids T"
    and obj: "p_num_of_fun a = k"
    and draw: "draw_u64s pl bins (p_prng a) = (cs, g)"
  shows "\<exists>column fa rest. circuit_sender_features pl a Net bins hint_bins xs xf (length xf) tables
      (sender_masks F bins (t_vals T)) = Send (concat (map u64_bytes column)) rest \<and>
    length column = hint_bins \<and>
    programmed pl F h bins T (fid_block 0) column (\<lambda>i v. the (fa v) ! 0 - cs ! i) \<and>
    (\<forall>p<length xs. \<forall>name\<in>set (sender_names k (xs ! p)). fa name = Some (map (\<lambda>column. column ! p) xf))"
proof -
  have lc: "length cs = bins" using draw length_draw_u64s [of pl bins "p_prng a"] by simp
  have "distinct (concat (map (sender_names k) xs))" using names by (simp add: circuit_names_ok_def)
  from feature_table_result [OF this feat(1)] obtain fa where
    fa: "feature_table (sender_names k) xs xf (length xf) (length xs) = Inr fa"
      "\<forall>p<length xs. \<forall>name\<in>set (sender_names k (xs ! p)). fa name = Some (map (\<lambda>column. column ! p) xf)"
    by blast
  let ?content = "\<lambda>element bin. res_bind (vec_at (lookup [] fa element) 0) (\<lambda>v.
      res_bind (vec_at cs bin) (\<lambda>c. Inr (v - c)))"
  have content: "?content v i = Inr (the (fa v) ! 0 - cs ! i)" if iv: "i < bins" "v \<in> set (t_vals T ! i)" for i v
  proof -
    from table_values_named [OF ok iv] fa(2) have "\<exists>row. fa v = Some row \<and> length row = length xf" by fastforce
    with feat(2) iv lc show ?thesis by (auto simp: lookup_def)
  qed
  from programmed_result [where content = ?content and c = "\<lambda>i v. the (fa v) ! 0 - cs ! i" and pl = pl
      and F = F and g = g and tweak = "fid_block 0", OF ok table_values_distinct [OF ok names] find content]
  obtain column g' where gb: "garble pl hint_bins (t_hocc T) (t_hsrc T) (t_hfids T) (h_table_loc tables)
      (sender_masks F bins (t_vals T)) (fid_block 0) ?content g = Inr (column, g')"
    "length column = hint_bins" "programmed pl F h bins T (fid_block 0) column (\<lambda>i v. the (fa v) ! 0 - cs ! i)"
    by blast
  have range: "[0..<length xf] = 0 # [1..<length xf]" using feat(2) by (simp add: upt_conv_Cons)
  have "\<exists>rest. circuit_sender_features pl a Net bins hint_bins xs xf (length xf) tables
      (sender_masks F bins (t_vals T)) = Send (concat (map u64_bytes column)) rest"
    using feat(2)
    by (simp add: circuit_sender_features_def obj fa(1) range circuit_sender_feature_def draw tables
        vec_size_ok small gb(1) del: upt_Suc One_nat_def)
  with gb(2,3) fa(2) show ?thesis by blast
qed

section \<open>Both on the wire\<close>

text \<open>C32: The first feature column has the column number zero mixed into its masks, which is no
  change. Two honest parties, the sender with features, reach a state in which what the sender has
  sent after the OPRF, the size of the stash, the membership hint and the first column, is on the
  wire. Every occupied bin of the two tables then holds, under one and the same pad, in the hint
  the random content drawn for its value's bin and in the column the value's feature minus the
  number drawn for that column: their exclusive or is free of the pad.\<close>

theorem first_column_reuses_pads:
  assumes run: "circuit_run_ok hl pl ideal loc hloc F bins hint_bins T a b xs xf ys yf" and "xf \<noteq> []"
  shows "\<exists>contents hint g column p q. sent_hint pl F bins hint_bins (p_prng a) T = Inr (contents, hint, g) \<and>
    reaches ideal (start (circuit_process hl pl a Net xs xf) (circuit_process hl pl b Net ys yf))
      (Conf p q (size_t_bytes 0 @ concat (map u64_bytes hint) @ concat (map u64_bytes column)) []) \<and>
    length hint = hint_bins \<and> length column = hint_bins \<and>
    (\<forall>s<hint_bins. t_hocc T ! s \<longrightarrow> (\<exists>i<bins. \<exists>n<length xs.
       let v = t_hsrc T ! s; pad = pads pl (F i (block_of v)) 0 (p_num_of_fun_hint a) ! (t_hfids T ! s);
           masked = xf ! 0 ! n - fst (draw_u64s pl bins g) ! i
       in v \<in> set (t_vals T ! i) \<and> v \<in> set (sender_names (p_num_of_fun a) (hash_keys hl xs ! n)) \<and>
          hint ! s = contents ! i XOR pad \<and> column ! s = masked XOR pad \<and>
          hint ! s XOR column ! s = contents ! i XOR masked))"
proof -
  note r = circuit_runD [OF run]
  let ?h = "p_num_of_fun_hint a" and ?X = "hash_keys hl xs" and ?Y = "hash_keys hl ys"
  note sz = circuit_sizesD [OF r(6)]
  have n: "length xs < 2 ^ 64" "length ys < 2 ^ 64" and small: "hint_bins \<le> max_u64s"
    using r(6) by (simp_all add: circuit_sizes_ok_def)
  have len: "length (t_vals T) = bins" "length (t_cvals T) = bins"
    using r(8) by (simp_all add: circuit_tables_ok_def simple_table_ok_def cuckoo_table_ok_def)
  note oprf = circuit_oprf_joint [OF r(1,2,7) len sz(1) r(10) [unfolded circuit_no_stash_def, THEN conjunct1]]
  note dist = table_values_distinct [OF r(8,9)]
  from circuit_hint_joint [where ideal = ideal and F = F, OF r(1,7,8,9) refl r(6,10)] obtain contents hint g where
    sent: "sent_hint pl F bins hint_bins (p_prng a) T = Inr (contents, hint, g)"
    and lh: "length hint = hint_bins"
    and prog: "programmed pl F ?h bins T 0 hint (\<lambda>i v. contents ! i)" by blast
  from sender_hint_sends [OF r(1,7,8,9,6,10) sent] obtain tables where
    hint: "circuit_sender_hint hl pl (a\<lparr>p_common_prng := advanced pl 1 (p_common_prng a)\<rparr>) Net bins
        hint_bins (t_vals T) (sender_masks F bins (t_vals T)) =
      Send (size_t_bytes 0) (Send (concat (map u64_bytes hint))
        (Ret (tables, a\<lparr>p_prng := g, p_common_prng := advanced pl 2 (p_common_prng a)\<rparr>)))"
    and tab: "located bins T (h_table_loc tables)" "h_occupancy tables = t_hocc T"
      "h_source_values tables = t_hsrc T" "h_function_ids tables = t_hfids T" by blast
  let ?a = "a\<lparr>p_prng := g, p_common_prng := advanced pl 2 (p_common_prng a)\<rparr>"
  obtain cs g' where draw: "draw_u64s pl bins (p_prng ?a) = (cs, g')" by (metis surj_pair)
  from sender_first_column_sends [where F = F, OF r(8,9) tab(1) small r(14) assms(2) tab(2-4) _ draw]
  obtain column fa rest where
    column: "circuit_sender_features pl ?a Net bins hint_bins ?X xf (length xf) tables
        (sender_masks F bins (t_vals T)) = Send (concat (map u64_bytes column)) rest"
    and lcol: "length column = hint_bins"
    and colp: "programmed pl F ?h bins T (fid_block 0) column (\<lambda>i v. the (fa v) ! 0 - cs ! i)"
    and fa: "\<forall>p<length ?X. \<forall>name\<in>set (sender_names (p_num_of_fun a) (?X ! p)).
      fa name = Some (map (\<lambda>column. column ! p) xf)" by auto
  have roles: "p_is_sender a = True" "p_is_sender b = False" "p_num_of_fun b = p_num_of_fun a"
    "p_epsilon b = p_epsilon a" "p_epsilon_hint b = p_epsilon_hint a"
    using r(1) by (simp_all add: circuit_paired_def)
  have "\<exists>p q. reaches ideal (start (circuit_process hl pl a Net xs xf) (circuit_process hl pl b Net ys yf))
      (Conf p q (size_t_bytes 0 @ concat (map u64_bytes hint) @ concat (map u64_bytes column)) [])"
    unfolding start_def circuit_process_def roles
    by (intro exI, rule joint_reaches_seq [OF circuit_sizes_joint [OF n sz(5,6)]],
        simp only: prod.case r(4,5) lift_res_simps bindp.simps Let_def if_True if_False,
        rule joint_reaches_seq [OF oprf], simp only: prod.case hint bindp.simps column,
        rule reaches_send_a, rule reaches_send_a, rule reaches_send_a) (simp, rule rtranclp.rtrancl_refl)
  moreover have "\<exists>i<bins. \<exists>n<length xs.
      let v = t_hsrc T ! s; pad = pads pl (F i (block_of v)) 0 ?h ! (t_hfids T ! s);
          masked = xf ! 0 ! n - fst (draw_u64s pl bins g) ! i
      in v \<in> set (t_vals T ! i) \<and> v \<in> set (sender_names (p_num_of_fun a) (?X ! n)) \<and>
         hint ! s = contents ! i XOR pad \<and> column ! s = masked XOR pad \<and>
         hint ! s XOR column ! s = contents ! i XOR masked" if s: "s < hint_bins" "t_hocc T ! s" for s
  proof -
    let ?v = "t_hsrc T ! s"
    have table: "hint_table_ok hloc hint_bins ?h (concat (t_vals T)) (t_hocc T) (t_hsrc T) (t_hfids T)"
      using r(8) by (simp add: circuit_tables_ok_def)
    then have "mset (map ((!) (t_hsrc T)) (filter ((!) (t_hocc T)) [0..<hint_bins])) = mset (concat (t_vals T))"
      by (simp add: hint_table_ok_def)
    from mset_eq_setD [OF this] s have "?v \<in> set (concat (t_vals T))" by auto
    then obtain i where i: "i < bins" "?v \<in> set (t_vals T ! i)" using len(1)
      by (metis (no_types, lifting) UN_E in_set_conv_nth set_concat)
    from table_values_named [OF r(8) i] obtain n where
      n: "n < length xs" "?v \<in> set (sender_names (p_num_of_fun a) (?X ! n))" by (auto simp: hash_keys_def)
    with fa assms(2) have val: "the (fa ?v) ! 0 = xf ! 0 ! n" by (simp add: hash_keys_def)
    have slot: "s = slot (t_hocc T) (t_hsrc T) ?v" using slot_unique [OF table dist s refl] by simp
    let ?pad = "pads pl (F i (block_of ?v)) 0 ?h ! (t_hfids T ! s)"
    have "hint ! s = contents ! i XOR ?pad" using programmed_bin [OF prog i slot] .
    moreover have "column ! s = (xf ! 0 ! n - cs ! i) XOR ?pad"
      using programmed_bin [OF colp i slot] by (simp only: val) (simp add: fid_block_def)
    moreover have "hint ! s XOR column ! s = contents ! i XOR (xf ! 0 ! n - cs ! i)"
      unfolding calculation by (rule pad_cancels)
    ultimately show ?thesis using i n draw by (intro exI [of _ i] exI [of _ n] conjI) (simp_all add: Let_def)
  qed
  ultimately show ?thesis using sent lh lcol by blast
qed

text \<open>The sender of one key sends its content, 0, and its feature, 7, under the pad 98.\<close>

theorem first_column_reuses_pads_witness:
  "\<exists>hint column p q. reaches toy_duet
      (start (circuit_process toy_hash toy_prng (toy_circuit True) Net [''a''] [[7]])
             (circuit_process toy_hash toy_prng (toy_circuit False) Net [''b'', ''a''] [[8, 9]]))
      (Conf p q (size_t_bytes 0 @ concat (map u64_bytes hint) @ concat (map u64_bytes column)) []) \<and>
    hint ! 2 = 98 \<and> column ! 2 = 7 XOR 98 \<and> hint ! 2 XOR column ! 2 = 7"
proof -
  from first_column_reuses_pads [OF toy_circuit_run] obtain contents hint g column p q where
    sent: "sent_hint toy_prng toy_encode 3 5 (p_prng (toy_circuit True)) toy_tables = Inr (contents, hint, g)"
    and reach: "reaches toy_duet
      (start (circuit_process toy_hash toy_prng (toy_circuit True) Net [''a''] [[7]])
             (circuit_process toy_hash toy_prng (toy_circuit False) Net [''b'', ''a''] [[8, 9]]))
      (Conf p q (size_t_bytes 0 @ concat (map u64_bytes hint) @ concat (map u64_bytes column)) [])"
    and bins: "\<forall>s<5. t_hocc toy_tables ! s \<longrightarrow> (\<exists>i<3. \<exists>n<length [''a''].
       let v = t_hsrc toy_tables ! s;
           pad = pads toy_prng (toy_encode i (block_of v)) 0 (p_num_of_fun_hint (toy_circuit True)) !
             (t_hfids toy_tables ! s);
           masked = [[7]] ! 0 ! n - fst (draw_u64s toy_prng 3 g) ! i
       in v \<in> set (t_vals toy_tables ! i) \<and>
          v \<in> set (sender_names (p_num_of_fun (toy_circuit True)) (hash_keys toy_hash [''a''] ! n)) \<and>
          hint ! s = contents ! i XOR pad \<and> column ! s = masked XOR pad \<and>
          hint ! s XOR column ! s = contents ! i XOR masked)" by blast
  have given: "contents = [1, 0, 0]" "hint = [0, 0, 98, 0, 0]" "g = []"
    using sent toy_sent by (simp_all add: toy_circuit_fields)
  have zeros: "draw_u64s toy_prng 3 [] = ([0, 0, 0], [])"
    by (simp add: numeral_3_eq_3 toy_prng_def u64_of_def le_nat_zeros)
  from bins [rule_format, of 2] obtain i where "i < 3" "toy_item 97 \<in> set (t_vals toy_tables ! i)"
    and col: "column ! 2 = (7 - [0, 0, 0] ! i) XOR pads toy_prng (toy_encode i 97) 0 1 ! 0"
    by (auto simp: Let_def toy_tables_def toy_circuit_fields given zeros toy_blocks)
  then have "i = 1" by (auto simp: toy_tables_def less_Suc_eq numeral_3_eq_3)
  with col have "column ! 2 = 7 XOR 98"
    using toy_pad [of 98] by (simp add: toy_encode_def)
  with reach given(2) show ?thesis by (intro exI [of _ hint] exI [of _ column] exI conjI) simp_all
qed

end
