(* ===== verification/Histories.thy ===== *)
theory Histories
  imports Interaction "HOL-Library.Sublist"
begin

text \<open>
  What a party has heard in a run: the messages its receives returned, in order. A run with its
  history refines reachability, and a check of the party's tree alone, \<open>heeds\<close>, says which histories
  there can be and what is returned after them, whatever the peer does.
\<close>

section \<open>Runs with the messages received\<close>

text \<open>\<open>hears ideal c h d\<close>: from \<open>c\<close> a schedule leads to \<open>d\<close>, and the first party has received the
  messages \<open>h\<close> on the way.\<close>

inductive hears ::
  "('c, 'd) ideal \<Rightarrow> ('c, 'd, 'a, 'b) conf \<Rightarrow> byte list list \<Rightarrow> ('c, 'd, 'a, 'b) conf \<Rightarrow> bool"
  for ideal :: "('c, 'd) ideal" and c :: "('c, 'd, 'a, 'b) conf"
where
  hears_nothing: "hears ideal c [] c"
| hears_message: "hears ideal c h (Conf (Recv n k) q ab ba) \<Longrightarrow> n \<le> length ba \<Longrightarrow>
    hears ideal c (h @ [take n ba]) (Conf (k (take n ba)) q ab (drop n ba))"
| hears_send: "hears ideal c h (Conf (Send m p) q ab ba) \<Longrightarrow> hears ideal c h (Conf p q (ab @ m) ba)"
| hears_peer_send: "hears ideal c h (Conf p (Send m q) ab ba) \<Longrightarrow> hears ideal c h (Conf p q ab (ba @ m))"
| hears_peer_recv: "hears ideal c h (Conf p (Recv n k) ab ba) \<Longrightarrow> n \<le> length ab \<Longrightarrow>
    hears ideal c h (Conf p (k (take n ab)) (drop n ab) ba)"
| hears_call: "hears ideal c h (Conf (Call r k) (Call s l) [] []) \<Longrightarrow> ideal r s = Some (x, y) \<Longrightarrow>
    hears ideal c h (Conf (k x) (l y) [] [])"

lemma hears_step:
  assumes "net_step ideal d e" and "hears ideal c h d"
  shows "\<exists>h'. hears ideal c h' e"
  using assms by (induction rule: net_step.induct) (blast intro: hears.intros)+

text \<open>Runs with a history are the runs.\<close>

lemma hears_reaches: "hears ideal c h d \<Longrightarrow> reaches ideal c d"
  by (induction rule: hears.induct) (auto intro: rtranclp.rtrancl_into_rtrancl net_step.intros)

lemma reaches_hears: "reaches ideal c d \<Longrightarrow> \<exists>h. hears ideal c h d"
  by (induction rule: rtranclp_induct) (blast intro: hears_nothing dest: hears_step)+

lemma hears_trans: "hears ideal d h' e \<Longrightarrow> hears ideal c h d \<Longrightarrow> hears ideal c (h @ h') e"
proof (induction rule: hears.induct)
  case (hears_message h' n k q ab ba)
  from hears.hears_message [OF hears_message.IH [OF hears_message.prems] hears_message.hyps(2)]
  show ?case by simp
qed (auto intro: hears.intros)

text \<open>A run whose end is known, after its first steps.\<close>

lemma hears_then:
  assumes "hears ideal c h d" and "outcomes ideal c = {e}"
  shows "\<exists>h'. hears ideal c (h @ h') e"
proof -
  from outcomes_reaches [OF hears_reaches [OF assms(1)]] outcomes_nonempty [of ideal d] assms(2)
  have "reaches ideal d e" by (auto simp: outcomes_def)
  with reaches_hears obtain h' where "hears ideal d h' e" by blast
  from hears_trans [OF this assms(1)] show ?thesis by blast
qed

text \<open>A peer that opens with two messages.\<close>

lemma hears_opening:
  assumes "length m = n" and "length m' = n'"
  shows "hears ideal (start (Recv n (\<lambda>x. Recv n' (k x))) (Send m (Send m' q))) [m, m'] (Conf (k m m') q [] [])"
proof -
  let ?c = "start (Recv n (\<lambda>x. Recv n' (k x))) (Send m (Send m' q))"
  have "hears ideal ?c [] (Conf (Recv n (\<lambda>x. Recv n' (k x))) q [] (m @ m'))"
    unfolding start_def
    using hears_peer_send [OF hears_peer_send [OF hears_nothing [of ideal "Conf (Recv n (\<lambda>x. Recv n' (k x)))
      (Send m (Send m' q)) [] []"]]] by simp
  from hears_message [OF this] assms
  have "hears ideal ?c [m] (Conf (Recv n' (k m)) q [] m')" by simp
  from hears_message [OF this] assms show ?thesis by simp
qed

section \<open>Histories of a tree\<close>

text \<open>\<open>heeds I P p h\<close>: going on from the history \<open>h\<close>, every longer history of \<open>p\<close> satisfies \<open>I\<close>, and
  what \<open>p\<close> returns satisfies \<open>P\<close> together with the history at that point.\<close>

primrec heeds ::
  "(byte list list \<Rightarrow> bool) \<Rightarrow> (byte list list \<Rightarrow> 'a \<Rightarrow> bool) \<Rightarrow> ('c, 'd, 'a) proc \<Rightarrow> byte list list \<Rightarrow> bool" where
  "heeds I P (Ret x) h = P h x"
| "heeds I P (Throw e) h = True"
| "heeds I P (Send m p) h = heeds I P p h"
| "heeds I P (Recv n k) h = (\<forall>b. length b = n \<longrightarrow> I (h @ [b]) \<and> heeds I P (k b) (h @ [b]))"
| "heeds I P (Call c k) h = (\<forall>d. heeds I P (k d) h)"

lemma heeds_bindp:
  "heeds I P p h \<Longrightarrow> (\<And>h' x. P h' x \<Longrightarrow> heeds I Q (f x) h') \<Longrightarrow> heeds I Q (bindp p f) h"
  by (induction p arbitrary: h) auto

lemma heeds_mono: "heeds I P p h \<Longrightarrow> (\<And>h x. P h x \<Longrightarrow> Q h x) \<Longrightarrow> heeds I Q p h"
  by (induction p arbitrary: h) auto

lemma heeds_lift: "(\<And>x. r = Inr x \<Longrightarrow> heeds I P (f x) h) \<Longrightarrow> heeds I P (bindp (lift_res r) f) h"
  by (cases r) simp_all

lemma heeds_lift_res: "(\<And>x. r = Inr x \<Longrightarrow> P h x) \<Longrightarrow> heeds I P (lift_res r) h"
  by (cases r) simp_all

lemma heeds_loop:
  assumes "P 0 h s" and "\<And>i h s. i < n \<Longrightarrow> P i h s \<Longrightarrow> heeds I (P (Suc i)) (f i s) h"
  shows "heeds I (P n) (fold_proc f [0..<n] s) h"
  using assms(2)
proof (induction n)
  case 0
  then show ?case using assms(1) by simp
next
  case (Suc n)
  have "heeds I (P n) (fold_proc f [0..<n] s) h" by (rule Suc.IH) (simp add: Suc.prems)
  from heeds_bindp [OF this Suc.prems [OF lessI]] show ?case by (simp add: fold_proc_append)
qed

text \<open>A tree without receives.\<close>

primrec quiet :: "('c, 'd, 'a) proc \<Rightarrow> bool" where
  "quiet (Ret x) = True"
| "quiet (Throw e) = True"
| "quiet (Send m p) = quiet p"
| "quiet (Recv n k) = False"
| "quiet (Call c k) = (\<forall>d. quiet (k d))"

lemma quiet_bindp [intro]: "quiet p \<Longrightarrow> (\<And>x. quiet (f x)) \<Longrightarrow> quiet (bindp p f)"
  by (induction p) auto

lemma quiet_lift_res [simp, intro]: "quiet (lift_res r)"
  by (cases r) simp_all

lemma quiet_loop: "(\<And>i s. quiet (f i s)) \<Longrightarrow> quiet (fold_proc f xs s)"
  by (induction xs arbitrary: s) auto

lemma quiet_heeds: "quiet p \<Longrightarrow> heeds I (\<lambda>h' _. h' = h) p h"
  by (induction p) auto

lemma heeds_quiet: "quiet p \<Longrightarrow> (\<And>x. heeds I P (f x) h) \<Longrightarrow> heeds I P (bindp p f) h"
  by (erule heeds_bindp [OF quiet_heeds]) simp

text \<open>What is known of the returned value without the history, with the history it extends.\<close>

lemma returns_heeds: "returns P p \<Longrightarrow> heeds (\<lambda>_. True) (\<lambda>h' x. (\<exists>t. h' = h @ t) \<and> P x) p h"
proof (induction p arbitrary: h)
  case (Recv n k)
  have "heeds (\<lambda>_. True) (\<lambda>h' x. (\<exists>t. h' = h @ t) \<and> P x) (k b) (h @ [b])" if "length b = n" for b
    by (rule heeds_mono [OF Recv.IH]) (use Recv.prems that in auto)
  then show ?case by simp
qed auto

text \<open>The check of the tree holds of every run.\<close>

lemma hears_heeds:
  assumes "hears ideal (start p q) h d" and "heeds I P p []"
  shows "heeds I P (party_a d) h \<and> (h = [] \<or> I h)"
  using assms(1)
proof (induction rule: hears.induct)
  case hears_nothing
  then show ?case using assms(2) by (simp add: start_def)
qed auto

lemma hears_returned:
  "hears ideal (start p q) h (Conf (Ret x) q' ab ba) \<Longrightarrow> heeds I P p [] \<Longrightarrow> P h x"
  using hears_heeds [of ideal p q h "Conf (Ret x) q' ab ba" I P] by simp

text \<open>
  \<open>keeps_frame F p\<close>: against any peer and in any run, the lengths of the messages \<open>p\<close> has received
  are a prefix of \<open>F\<close>, which may depend on the messages so far, and all of it when \<open>p\<close> has returned.
\<close>

definition keeps_frame ::
  "('c, 'd) ideal \<Rightarrow> ('c, 'd, 'b) proc \<Rightarrow> (byte list list \<Rightarrow> nat list) \<Rightarrow> ('c, 'd, 'a) proc \<Rightarrow> bool" where
  "keeps_frame ideal q F p \<longleftrightarrow> (\<forall>h d. hears ideal (start p q) h d \<longrightarrow>
     prefix (map length h) (F h) \<and> (\<forall>x. party_a d = Ret x \<longrightarrow> map length h = F h))"

lemma keeps_frameI:
  assumes "heeds (\<lambda>h. prefix (map length h) (F h)) (\<lambda>h _. map length h = F h) p []"
  shows "keeps_frame ideal q F p"
  unfolding keeps_frame_def using hears_heeds [OF _ assms, of ideal q] by fastforce

end
