(* ===== verification/Run_Frames.thy ===== *)
theory Run_Frames
  imports Histories Circuit_Sender_Safety Circuit_Receiver_Safety Ecdh_Safety Kkrt_Sender_Safety
begin

text \<open>
  What a party reads from any peer: the messages of the three protocols, with their lengths, and
  the shape of the shares as a function of the sizes the peer announced in them.
\<close>

section \<open>The shape of the shares\<close>

lemma run_returns:
  "returns (\<lambda>(s, _). shaped ((length xf + rf + 1) mod 2 ^ 64) bins s) (sender_run hl pl a bins hint_bins xs xf rf)"
  "returns (\<lambda>(s, _). shaped ((length yf + sf + 1) mod 2 ^ 64) bins s) (receiver_run hl pl b bins hint_bins ys yf sf)"
  unfolding sender_run_def receiver_run_def Let_def
  by ((rule returns_after, simp only: split_paired_all prod.case)+,
      rule returns_bindp [OF sender_shares_shape] returns_bindp [OF receiver_shares_shape],
      simp add: add.commute add.left_commute)+

lemma run_heeds:
  assumes "returns (\<lambda>(s, _). shaped rows bins s) p"
  shows "heeds (\<lambda>_. True) (\<lambda>h (s, _). announced n f h \<and> shaped rows bins s) p [n, f]"
  by (rule heeds_mono [OF returns_heeds [OF assms]]) (auto simp: announced_def)

lemma circuit_shares_heeds:
  "heeds (\<lambda>_. True) (\<lambda>h (shares, _). \<exists>bins.
      bins_for (if p_is_sender self then size_t_of (h ! 0) else length keys) (p_epsilon self) = Inr bins \<and>
      shaped ((length features + size_t_of (h ! 1) + 1) mod 2 ^ 64) bins shares)
    (circuit_process hl pl self Net keys features) []"
    (is "heeds _ ?P _ _")
proof (cases "p_is_sender self")
  case True
  show ?thesis
    unfolding circuit_process_sender [OF True]
    by (simp, intro allI impI heeds_lift, rule heeds_mono [OF run_heeds [OF run_returns(1)]])
       (auto simp: True dest!: announcedD)
next
  case False
  show ?thesis
    unfolding circuit_process_receiver [OF False]
    by (simp, intro allI impI heeds_lift, rule heeds_mono [OF run_heeds [OF run_returns(2)]])
       (auto simp: False dest!: announcedD)
qed

text \<open>The run of two small circuit parties, from the peer's two announcements on.\<close>

lemma toy_circuit_hears:
  "\<exists>h shares self' q'.
     hears toy_duet (start (circuit_process toy_hash toy_prng (toy_circuit True) Net [''a''] [[7]])
        (circuit_process toy_hash toy_prng (toy_circuit False) Net [''b'', ''a''] [[8, 9]]))
       ([size_t_bytes 2, size_t_bytes 1] @ h) (Conf (Ret (shares, self')) q' [] [])"
proof -
  let ?c = "start (circuit_process toy_hash toy_prng (toy_circuit True) Net [''a''] [[7]])
        (circuit_process toy_hash toy_prng (toy_circuit False) Net [''b'', ''a''] [[8, 9]])"
  have roles: "p_is_sender (toy_circuit True)" "\<not> p_is_sender (toy_circuit False)" by (simp_all add: toy_circuit_def)
  from circuit_process_joint [OF toy_circuit_run] obtain sa a' sb b' where
    "joint toy_duet (circuit_process toy_hash toy_prng (toy_circuit True) Net [''a''] [[7]])
       (circuit_process toy_hash toy_prng (toy_circuit False) Net [''b'', ''a''] [[8, 9]])
       (sa, a') (sb, b')" by blast
  then have run: "outcomes toy_duet ?c = {Conf (Ret (sa, a')) (Ret (sb, b')) [] []}" by (rule joint_outcomes)
  let ?m = "size_t_bytes (length [''b'', ''a''])" and ?m' = "size_t_bytes (length [[8, 9 :: 64 word]])"
  have "\<exists>d. hears toy_duet ?c [?m, ?m'] d"
    unfolding circuit_process_sender [OF roles(1)] circuit_process_receiver [OF roles(2)]
    by (rule exI, rule hears_opening) (rule size_codec.enc_width, simp)+
  then have "\<exists>d. hears toy_duet ?c [size_t_bytes 2, size_t_bytes 1] d" by (simp add: numeral_2_eq_2)
  with hears_then [OF _ run] show ?thesis by blast
qed

text \<open>C10: Whatever the peer does, under every schedule and whatever the libraries answer, the shares a
  party returns form a full matrix whose size is fixed by what the party has and what it heard: the
  first two messages are the peer's number of keys and of feature columns, there is a row for
  membership, one per feature column of its own and one per announced column (the sum as a
  \<open>std::size_t\<close>), and each row has an entry per bin of the table for the receiver's keys.\<close>

theorem circuit_shares_shape:
  assumes "hears ideal (start (circuit_process hl pl self Net keys features) q) h
      (Conf (Ret (shares, self')) q' ab ba)"
  shows "\<exists>bins. bins_for (if p_is_sender self then size_t_of (h ! 0) else length keys) (p_epsilon self) = Inr bins \<and>
    shaped ((length features + size_t_of (h ! 1) + 1) mod 2 ^ 64) bins shares"
  using hears_returned [OF assms circuit_shares_heeds] by simp

theorem circuit_shares_shape_witness:
  "\<exists>h shares self' q'.
     hears toy_duet (start (circuit_process toy_hash toy_prng (toy_circuit True) Net [''a''] [[7]])
        (circuit_process toy_hash toy_prng (toy_circuit False) Net [''b'', ''a''] [[8, 9]]))
       ([size_t_bytes 2, size_t_bytes 1] @ h) (Conf (Ret (shares, self')) q' [] []) \<and>
     shaped 3 3 shares"
proof -
  have role: "p_is_sender (toy_circuit True)" by (simp add: toy_circuit_def)
  from toy_circuit_hears obtain h shares self' q' where
    h: "hears toy_duet (start (circuit_process toy_hash toy_prng (toy_circuit True) Net [''a''] [[7]])
        (circuit_process toy_hash toy_prng (toy_circuit False) Net [''b'', ''a''] [[8, 9]]))
       ([size_t_bytes 2, size_t_bytes 1] @ h) (Conf (Ret (shares, self')) q' [] [])" by blast
  from circuit_shares_shape [OF h] toy_circuit_bins(1) have "shaped 3 3 shares"
    by (simp add: role toy_circuit_fields size_codec.dec_enc)
  with h show ?thesis by blast
qed

section \<open>The messages a party reads\<close>

text \<open>
  ECDH: twice a count and, unless it is zero, a buffer of that many keys of the width of the round
  (the size computed as a \<open>std::size_t\<close>).
\<close>

definition keys_frame :: "nat \<Rightarrow> byte list list \<Rightarrow> nat list" where
  "keys_frame w h = (case h of [] \<Rightarrow> [8]
     | s # _ \<Rightarrow> if size_t_of s = 0 then [8] else [8, size_mul (size_t_of s) w])"

definition ecdh_frame :: "byte list list \<Rightarrow> nat list" where
  "ecdh_frame h = (let first = keys_frame kEccPointLen h in
     first @ keys_frame kECCCompareBytesLen (drop (length first) h))"

text \<open>
  KKRT: the sender reads the receiver's number of keys, the size of its stash and, if it obtains
  the result, the length of the result and the result; the receiver the sender's number of keys and
  one encoding per key and hash function.
\<close>

definition kkrt_frame :: "'r kkrt_psi \<Rightarrow> byte list list \<Rightarrow> nat list" where
  "kkrt_frame self h =
     (if k_is_sender self
      then [8, 8] @ (if k_sender_obtain_result self
        then (case drop 2 h of [] \<Rightarrow> [8] | s # _ \<Rightarrow> [8, size_t_of s]) else [])
      else (case h of [] \<Rightarrow> [8]
        | s # _ \<Rightarrow> [8, size_mul (size_mul (k_num_of_fun self) (size_t_of s)) kReduceStatisticsLen]))"

text \<open>
  Circuit PSI: the sender reads the receiver's two sizes and the size of its stash; the receiver the
  sender's sizes and stash, the garbled membership hint and a garbled table per announced column,
  each of a word per hint bin.
\<close>

definition hint_table_bytes :: "'r circuit_psi \<Rightarrow> nat \<Rightarrow> nat \<Rightarrow> nat" where
  "hint_table_bytes self n sender_n =
     (case res_bind (bins_for n (p_epsilon self)) (\<lambda>bins.
        hint_bins_for sender_n (p_num_of_fun self) bins (p_epsilon_hint self)) of
        Inl e \<Rightarrow> 0 | Inr hint_bins \<Rightarrow> hint_bins * 8)"

definition circuit_frame :: "'r circuit_psi \<Rightarrow> nat \<Rightarrow> byte list list \<Rightarrow> nat list" where
  "circuit_frame self n h =
     (if p_is_sender self then [8, 8, 8]
      else [8, 8, 8] @ (case h of sn # sf # _ \<Rightarrow>
        replicate (Suc (size_t_of sf)) (hint_table_bytes self n (size_t_of sn)) | _ \<Rightarrow> []))"

section \<open>ECDH\<close>

abbreviation reads_frame :: "(byte list list \<Rightarrow> nat list) \<Rightarrow> byte list list \<Rightarrow> bool" where
  "reads_frame F \<equiv> \<lambda>h. prefix (map length h) (F h)"

lemma quiet_send_keys: "quiet (send_keys Net ks w)"
  by (auto simp: send_keys_def intro!: quiet_bindp)

text \<open>The messages of one round of ECDH.\<close>

definition round_read :: "nat \<Rightarrow> byte list list \<Rightarrow> bool" where
  "round_read w t \<longleftrightarrow> (\<exists>s. length s = 8 \<and> (if size_t_of s = 0 then t = [s]
     else \<exists>data. length data = size_mul (size_t_of s) w \<and> t = [s, data]))"

lemma recv_keys_heeds:
  assumes "\<And>s. length s = 8 \<Longrightarrow> I (h @ [s])"
    and "\<And>s data. length s = 8 \<Longrightarrow> size_t_of s \<noteq> 0 \<Longrightarrow> length data = size_mul (size_t_of s) w \<Longrightarrow> I (h @ [s, data])"
  shows "heeds I (\<lambda>h' _. \<exists>t. h' = h @ t \<and> round_read w t) (recv_keys Net [] w) h"
  unfolding recv_keys_def Let_def net_ops_simps bindp.simps heeds.simps
proof (intro allI impI conjI assms(1), assumption, rule heeds_lift)
  let ?P = "\<lambda>h' _. \<exists>t. h' = h @ t \<and> round_read w t"
  fix s :: "byte list" assume s: "length s = 8"
  let ?rest = "\<lambda>buffer. bindp (lift_res (vec_reserve max_vectors (size_t_of s))) (\<lambda>_.
      bindp (lift_res (unpack_keys buffer w (size_t_of s))) (\<lambda>items. Ret ([] @ items)))"
  have rest: "heeds I ?P (?rest buffer) h'" if "?P h' ()" for h' buffer
    by (rule heeds_mono [OF quiet_heeds]) (use that in \<open>auto intro!: quiet_bindp\<close>)
  show "heeds I ?P (bindp (if size_t_of s \<noteq> 0 then Recv (size_mul (size_t_of s) w) Ret else Ret []) ?rest) (h @ [s])"
  proof (cases "size_t_of s = 0")
    case True
    then have "?P (h @ [s]) ()" using s by (auto simp: round_read_def)
    with True rest show ?thesis by (simp only: if_False bindp.simps not_True_eq_False simp_thms)
  next
    case False
    have "?P ((h @ [s]) @ [data]) ()" if "length data = size_mul (size_t_of s) w" for data
      using s that False by (auto simp: round_read_def)
    with False rest assms(2) [OF s False] show ?thesis
      by (simp only: if_True bindp.simps heeds.simps simp_thms append_assoc append.simps) blast
  qed
qed

lemma exchange_heeds:
  assumes "\<And>s. length s = 8 \<Longrightarrow> I (h @ [s])"
    and "\<And>s data. length s = 8 \<Longrightarrow> size_t_of s \<noteq> 0 \<Longrightarrow> length data = size_mul (size_t_of s) w \<Longrightarrow> I (h @ [s, data])"
  shows "heeds I (\<lambda>h' _. \<exists>t. h' = h @ t \<and> round_read w t)
    (exchange_encrypted_keys is_sender Net keys [] w :: ('c, 'e, byte_vector list) proc) h"
proof -
  have recv: "heeds I (\<lambda>h' _. \<exists>t. h' = h @ t \<and> round_read w t) (recv_keys Net [] w :: ('c, 'e, byte_vector list) proc) h"
    by (rule recv_keys_heeds) (simp_all add: assms)
  have "heeds I (\<lambda>h' _. \<exists>t. h' = h @ t \<and> round_read w t)
      (bindp (recv_keys Net [] w) (\<lambda>r. bindp (send_keys Net keys w) (\<lambda>_. Ret r)) :: ('c, 'e, byte_vector list) proc) h"
    by (rule heeds_bindp [OF recv], rule heeds_quiet [OF quiet_send_keys]) simp
  with heeds_quiet [OF quiet_send_keys recv, of keys w] show ?thesis by (simp add: exchange_encrypted_keys_def)
qed

lemma ecdh_frame_first:
  "length s = 8 \<Longrightarrow> reads_frame ecdh_frame [s]"
  "length s = 8 \<Longrightarrow> size_t_of s \<noteq> 0 \<Longrightarrow> length data = size_mul (size_t_of s) kEccPointLen \<Longrightarrow>
     reads_frame ecdh_frame [s, data]"
  by (simp_all add: ecdh_frame_def keys_frame_def Let_def)

lemma ecdh_frame_second:
  assumes "round_read kEccPointLen t"
  shows "length s = 8 \<Longrightarrow> reads_frame ecdh_frame (t @ [s])"
    "length s = 8 \<Longrightarrow> size_t_of s \<noteq> 0 \<Longrightarrow> length data = size_mul (size_t_of s) kECCCompareBytesLen \<Longrightarrow>
       reads_frame ecdh_frame (t @ [s, data])"
    "round_read kECCCompareBytesLen u \<Longrightarrow> map length (t @ u) = ecdh_frame (t @ u)"
  using assms by (auto simp: round_read_def ecdh_frame_def keys_frame_def Let_def split: if_splits)

lemma ecdh_heeds:
  "heeds (reads_frame ecdh_frame) (\<lambda>h _. map length h = ecdh_frame h) (ecdh_process draw g self Net keys) []"
proof -
  let ?I = "reads_frame ecdh_frame" and ?P = "\<lambda>h _. map length h = ecdh_frame h"
  have first: "heeds ?I (\<lambda>h _. round_read kEccPointLen h)
      (exchange_encrypted_keys (e_is_sender self) Net ks [] kEccPointLen) []" for ks
    using exchange_heeds [of ?I "[]" kEccPointLen] ecdh_frame_first by simp
  have second: "heeds ?I ?P (bindp (if e_remote_obtain_result self
        then exchange_encrypted_keys (e_is_sender self) Net exchanged [] kECCCompareBytesLen
        else exchange_encrypted_keys (e_is_sender self) Net [] [] kECCCompareBytesLen) f) h"
    if h: "round_read kEccPointLen h" and f: "\<And>x. quiet (f x)" for exchanged h f
  proof -
    have "heeds ?I ?P (bindp (exchange_encrypted_keys (e_is_sender self) Net ks [] kECCCompareBytesLen) f) h" for ks
      by (rule heeds_bindp [OF exchange_heeds [OF ecdh_frame_second(1,2) [OF h]]], assumption+)
         (rule heeds_mono [OF quiet_heeds [OF f]], use ecdh_frame_second(3) [OF h] in auto)
    then show ?thesis by simp
  qed
  show ?thesis
    unfolding ecdh_process_def
    by (intro heeds_lift, simp only: split_paired_all prod.case, intro heeds_lift, rule heeds_bindp [OF first],
        intro heeds_lift second, assumption) auto
qed

section \<open>KKRT\<close>

lemma kkrt_sender_oprf_heeds:
  assumes "\<And>s. length s = 8 \<Longrightarrow> I (h @ [s])"
  shows "heeds I (\<lambda>h' _. \<exists>s. length s = 8 \<and> h' = h @ [s]) (kkrt_sender_oprf hl pl self Net bins keys n) h"
proof -
  obtain seed common' where seed: "prng_generate pl (k_common_prng self) kRandSeedBytesLen = (seed, common')"
    by (metis surj_pair)
  show ?thesis
    unfolding kkrt_sender_oprf_def seed Let_def prod.case net_ops_simps bindp.simps heeds.simps
    by (intro allI impI conjI assms, assumption, rule heeds_mono [OF quiet_heeds])
       (auto intro!: quiet_bindp split: verse_answer.split prod.split)
qed

lemma kkrt_receiver_heeds:
  assumes "\<And>data. length data = size_mul (size_mul (k_num_of_fun self) n) kReduceStatisticsLen \<Longrightarrow> I (h @ [data])"
  shows "heeds I (\<lambda>h' _. \<exists>data. length data = size_mul (size_mul (k_num_of_fun self) n) kReduceStatisticsLen \<and>
      h' = h @ [data]) (kkrt_receiver_match hl pl self Net bins keys n) h"
proof -
  obtain seed common' where seed: "prng_generate pl (k_common_prng self) kRandSeedBytesLen = (seed, common')"
    by (metis surj_pair)
  show ?thesis
    unfolding kkrt_receiver_match_def seed Let_def prod.case net_ops_simps bindp.simps heeds.simps
    by (intro heeds_lift, simp split: verse_answer.split, intro allI impI heeds_lift)
       (auto simp: assms intro!: heeds_lift heeds_mono [OF quiet_heeds] quiet_bindp)
qed

lemma kkrt_heeds:
  "heeds (reads_frame (kkrt_frame self)) (\<lambda>h _. map length h = kkrt_frame self h)
    (kkrt_process hl pl self Net keys out) []"
proof (cases "k_is_sender self")
  case True
  let ?I = "reads_frame (kkrt_frame self)" and ?P = "\<lambda>h _. map length h = kkrt_frame self h"
  have last: "heeds ?I ?P
      (if k_sender_obtain_result self
       then Recv 8 (\<lambda>b. bindp (lift_res (vec_create max_bytes (size_t_of b))) (\<lambda>_.
            Recv (size_t_of b) (\<lambda>serialized_key.
            bindp (lift_res (deserialize_string_from_char (bytes_string serialized_key) [])) (\<lambda>out. Ret (out, self')))))
       else Ret (out, self')) [n, s]" if "length n = 8" "length s = 8" for n s self'
    using that by (auto simp: kkrt_frame_def True intro!: heeds_lift)
  show ?thesis
    unfolding kkrt_process_def kkrt_exchange_sizes_def eqTrueI [OF True] if_True Let_def net_ops_simps bindp.simps heeds.simps
      prod.case
  proof (intro allI impI conjI heeds_lift)
    fix n :: "byte list" assume n: "length n = 8"
    then show "?I ([] @ [n])" by (simp add: kkrt_frame_def True)
    fix bins assume "bins_for (size_t_of n) (k_epsilon self) = Inr bins"
    have "?I ([n] @ [s])" if "length s = 8" for s using n that by (simp add: kkrt_frame_def True)
    note oprf = kkrt_sender_oprf_heeds [where I = ?I, OF this]
    show "heeds ?I ?P (bindp (kkrt_sender_oprf hl pl self Net bins (hash_keys hl keys) (length keys)) (\<lambda>self'.
      if k_sender_obtain_result self
      then Recv 8 (\<lambda>b. bindp (lift_res (vec_create max_bytes (size_t_of b))) (\<lambda>_.
           Recv (size_t_of b) (\<lambda>serialized_key.
           bindp (lift_res (deserialize_string_from_char (bytes_string serialized_key) [])) (\<lambda>out. Ret (out, self')))))
      else Ret (out, self'))) ([] @ [n])"
      by (rule heeds_bindp, simp only: append_Nil, rule oprf, assumption, elim exE conjE, hypsubst,
          simp only: append.simps, rule last [OF n])
  qed
next
  case False
  let ?I = "reads_frame (kkrt_frame self)" and ?P = "\<lambda>h _. map length h = kkrt_frame self h"
  show ?thesis
    unfolding kkrt_process_def kkrt_exchange_sizes_def False [THEN eq_False [THEN iffD2]] if_False Let_def net_ops_simps bindp.simps heeds.simps
      prod.case
  proof (intro allI impI conjI heeds_lift)
    fix n :: "byte list" assume n: "length n = 8"
    then show "?I ([] @ [n])" by (simp add: kkrt_frame_def False)
    fix bins assume "bins_for (length keys) (k_epsilon self) = Inr bins"
    let ?size = "size_mul (size_mul (k_num_of_fun self) (size_t_of n)) kReduceStatisticsLen"
    have "?I ([n] @ [data])" if "length data = ?size" for data using n that by (simp add: kkrt_frame_def False)
    note match = kkrt_receiver_heeds [where I = ?I, OF this]
    show "heeds ?I ?P (bindp (kkrt_receiver_match hl pl self Net bins (hash_keys hl keys) (size_t_of n))
      (\<lambda>(marks, cnt, self'). bindp (lift_res (collect_marked marks cnt keys out)) (\<lambda>out.
        if k_sender_obtain_result self
        then Send (size_t_bytes (length (serialize_string_to_char out [])))
               (Send (string_bytes (serialize_string_to_char out [])) (Ret (out, self')))
        else Ret (out, self')))) ([] @ [n])"
      by (rule heeds_bindp, simp only: append_Nil, rule match, assumption)
         (use n in \<open>auto simp: kkrt_frame_def False intro!: heeds_lift\<close>)
  qed
qed

section \<open>Circuit PSI\<close>

lemma circuit_sender_heeds:
  assumes "\<And>s. length s = 8 \<Longrightarrow> I (h @ [s])"
  shows "heeds I (\<lambda>h' _. \<exists>s. length s = 8 \<and> h' = h @ [s]) (sender_run hl pl a bins hint_bins xs xf rf) h"
proof -
  have oprf: "heeds I (\<lambda>h' _. \<exists>s. length s = 8 \<and> h' = h @ [s]) (circuit_sender_oprf hl pl a Net bins keys) h" for keys
    unfolding circuit_sender_oprf_def draw_seed Let_def prod.case net_ops_simps bindp.simps heeds.simps
    by (intro allI impI conjI assms, assumption, rule heeds_mono [OF quiet_heeds])
       (auto intro!: quiet_bindp split: verse_answer.split)
  have hint: "quiet (circuit_sender_hint hl pl a' Net bins hint_bins vals masks)" for a' vals masks
    by (auto simp: circuit_sender_hint_def Let_def intro!: quiet_bindp split: prod.split)
  have features: "quiet (circuit_sender_features pl a' Net bins hint_bins keys xf n tables masks)"
    for a' keys n tables masks
    by (auto simp: circuit_sender_features_def circuit_sender_feature_def intro!: quiet_bindp quiet_loop split: prod.split)
  have equality: "quiet (equality x y)" and multiplex: "quiet (multiplex_all r fs n)" for x y r fs n
    by (auto simp: equality_def multiplex_all_def multiplexer_def intro!: quiet_bindp quiet_loop split: verse_answer.split)
  have shares: "quiet (circuit_sender_shares bins h n rf c fs)" for h n c fs
    using equality multiplex by (auto simp: circuit_sender_shares_def intro!: quiet_bindp)
  show ?thesis
    unfolding sender_run_def Let_def
    by (rule heeds_bindp [OF oprf], rule heeds_mono [OF quiet_heeds])
       (auto intro!: quiet_bindp hint features shares split: prod.split)
qed

text \<open>The receiver reads a stash and then a table for the hint and for each announced column.\<close>

lemma recv_garbled_heeds:
  assumes "\<And>m. length m = n * 8 \<Longrightarrow> I (h @ [m])"
  shows "heeds I (\<lambda>h' _. \<exists>m. length m = n * 8 \<and> h' = h @ [m]) (recv_garbled Net n) h"
  unfolding recv_garbled_def by (rule heeds_lift) (simp add: assms)

lemma circuit_receiver_heeds:
  fixes n f :: "byte list"
  assumes b: "\<not> p_is_sender b" and n: "length n = 8" "length f = 8"
    and hint_bins: "hint_table_bytes b (length ys) (size_t_of n) = hint_bins * 8"
  defines "F \<equiv> circuit_frame b (length ys)"
  shows "heeds (reads_frame F) (\<lambda>h _. map length h = F h)
    (receiver_run hl pl b bins hint_bins ys yf (size_t_of f)) [n, f]"
proof -
  let ?I = "reads_frame F" and ?keys = "hash_keys hl ys" and ?h = "p_num_of_fun_hint b"
  let ?read = "\<lambda>i h. \<exists>s ms. h = [n, f, s] @ ms \<and> length s = 8 \<and> length ms = i \<and> (\<forall>m\<in>set ms. length m = hint_bins * 8)"
  have map_read: "map length ms = replicate i (hint_bins * 8)"
    if "length ms = i" "\<forall>m\<in>set ms. length m = hint_bins * 8" for i and ms :: "byte list list"
    using that by (simp add: map_replicate_const cong: map_cong)
  have frame: "F ([n, f, s] @ ms) = [8, 8, 8] @ replicate (Suc (size_t_of f)) (hint_bins * 8)" for s ms
    using b hint_bins by (simp add: F_def circuit_frame_def)
  have I: "?I h" if r: "?read i h" and i: "i \<le> Suc (size_t_of f)" for i h
  proof -
    from r obtain s ms where h: "h = [n, f, s] @ ms" "length s = 8" "length ms = i"
      "\<forall>m\<in>set ms. length m = hint_bins * 8" by blast
    have "replicate (Suc (size_t_of f)) (hint_bins * 8) =
        replicate i (hint_bins * 8) @ replicate (Suc (size_t_of f) - i) (hint_bins * 8)"
      using i by (simp add: replicate_add [symmetric])
    then show ?thesis unfolding h(1) frame using h(2) n map_read [OF h(3,4)] by (simp del: replicate_Suc)
  qed
  have step: "?read (Suc i) (h @ [m])" if "?read i h" "length m = hint_bins * 8" for i h and m :: "byte list"
  proof -
    from that(1) obtain s ms where "h = [n, f, s] @ ms" "length s = 8" "length ms = i"
      "\<forall>m\<in>set ms. length m = hint_bins * 8" by blast
    then show ?thesis using that(2) by (intro exI [of _ s] exI [of _ "ms @ [m]"]) auto
  qed
  have table: "heeds ?I (\<lambda>h' _. ?read (Suc i) h') (recv_garbled Net hint_bins) h"
    if r: "?read i h" and i: "i \<le> size_t_of f" for i h
    by (rule heeds_mono [OF recv_garbled_heeds]) (use I [OF step [OF r]] step [OF r] i in auto)
  have hint: "heeds ?I (\<lambda>h' _. ?read 1 h') (circuit_receiver_hint hl pl b' Net bins hint_bins vals masks) [n, f]"
    for b' vals masks
    unfolding circuit_receiver_hint_def net_ops_simps bindp.simps heeds.simps
  proof (intro allI impI conjI heeds_lift)
    fix s :: "byte list" assume s: "length s = 8"
    then have r: "?read 0 ([n, f] @ [s])" by simp
    then show "?I ([n, f] @ [s])" by (rule I) simp
    show "heeds ?I (\<lambda>h' _. ?read 1 h') (bindp (recv_garbled Net hint_bins) (\<lambda>garbled.
       let (seed, common') = prng_generate pl (p_common_prng b') kRandSeedBytesLen;
           h = p_num_of_fun_hint b';
           addresses = element_addresses hl hint_bins seed h vals
       in
       bindp (lift_res (vec_create max_u64s (size_mul bins h))) (\<lambda>_.
       bindp (lift_res (ungarble pl bins h addresses garbled masks 0)) (\<lambda>contents.
         Ret (contents, addresses, b'\<lparr>p_common_prng := common'\<rparr>))))) ([n, f] @ [s])"
      by (rule heeds_bindp [OF table [OF r]], simp, rule heeds_mono [OF quiet_heeds])
         (auto simp: Let_def intro!: quiet_bindp split: prod.split)
  qed
  have features: "heeds ?I (\<lambda>h' _. ?read (Suc (size_t_of f)) h')
      (circuit_receiver_features pl b' Net bins hint_bins ?keys yf (size_t_of f) (length yf) adr masks) h"
    if r: "?read 1 h" for h b' adr masks
  proof -
    let ?column = "circuit_receiver_feature pl Net bins hint_bins (p_num_of_fun_hint b') adr masks"
    have column: "heeds ?I (\<lambda>h' _. ?read (Suc (Suc i)) h') (?column i contents) h"
      if "?read (Suc i) h" "i < size_t_of f" for i h contents
      unfolding circuit_receiver_feature_def
      by (rule heeds_bindp [OF table [OF that(1)]], use that(2) in simp, rule heeds_lift, simp)
    have "heeds ?I (\<lambda>h' _. ?read (Suc (size_t_of f)) h') (fold_proc ?column [0..<size_t_of f] []) h"
      by (rule heeds_loop [where P = "\<lambda>i h' _. ?read (Suc i) h'"]) (use r column in simp_all)
    then have "heeds ?I (\<lambda>h' _. ?read (Suc (size_t_of f)) h')
        (bindp (fold_proc ?column [0..<size_t_of f] []) (\<lambda>contents. Ret (t, contents))) h" for t
      by (rule heeds_bindp) simp
    with r show ?thesis
      unfolding circuit_receiver_features_def by (auto intro!: heeds_lift)
  qed
  have oprf: "quiet (circuit_receiver_oprf hl pl b Net bins ?keys)"
    by (auto simp: circuit_receiver_oprf_def Let_def intro!: quiet_bindp split: prod.split verse_answer.split)
  have "quiet (equality x y)" "quiet (multiplex_all r fs k)" for x y r fs k
    by (auto simp: equality_def multiplex_all_def multiplexer_def intro!: quiet_bindp quiet_loop split: verse_answer.split)
  then have shares: "quiet (circuit_receiver_shares bins ?h sf rf c cs occ src t)" for sf rf c cs occ src t
    by (auto simp: circuit_receiver_shares_def intro!: quiet_bindp)
  have end_frame: "map length h = F h" if "?read (Suc (size_t_of f)) h" for h
    using that n frame map_read by (auto simp del: replicate_Suc)
  show ?thesis
    unfolding receiver_run_def Let_def
    by (rule heeds_quiet [OF oprf], simp only: split_paired_all prod.case, rule heeds_bindp [OF hint],
        simp only: split_paired_all prod.case, rule heeds_bindp [OF features], assumption,
        simp only: split_paired_all prod.case, rule heeds_quiet [OF shares], simp add: end_frame)
qed

lemma circuit_heeds:
  "heeds (reads_frame (circuit_frame self (length keys))) (\<lambda>h _. map length h = circuit_frame self (length keys) h)
    (circuit_process hl pl self Net keys features) []"
    (is "heeds ?I ?P _ _")
proof (cases "p_is_sender self")
  case True
  have frame: "circuit_frame self (length keys) h = [8, 8, 8]" for h by (simp add: circuit_frame_def True)
  show ?thesis
    unfolding circuit_process_sender [OF True] heeds.simps frame
  proof (intro allI impI conjI heeds_lift)
    fix n f :: "byte list" and bins hint_bins assume n: "length n = 8" "length f = 8"
    then show "prefix (map length ([] @ [n])) [8, 8, 8]" "prefix (map length (([] @ [n]) @ [f])) [8, 8, 8]" by simp_all
    show "heeds (\<lambda>h. prefix (map length h) [8, 8, 8]) (\<lambda>h _. map length h = [8, 8, 8])
      (sender_run hl pl self bins hint_bins keys features (size_t_of f)) (([] @ [n]) @ [f])"
      by (rule heeds_mono [OF circuit_sender_heeds]) (use n in auto)
  qed
next
  case False
  show ?thesis
    unfolding circuit_process_receiver [OF False] heeds.simps
  proof (intro allI impI conjI heeds_lift)
    fix n f :: "byte list" and bins hint_bins assume n: "length n = 8" "length f = 8"
    then show "?I ([] @ [n])" "?I (([] @ [n]) @ [f])" by (simp_all add: circuit_frame_def False)
    assume "bins_for (length keys) (p_epsilon self) = Inr bins"
      "hint_bins_for (size_t_of n) (p_num_of_fun self) bins (p_epsilon_hint self) = Inr hint_bins"
    then have "hint_table_bytes self (length keys) (size_t_of n) = hint_bins * 8" by (simp add: hint_table_bytes_def)
    from circuit_receiver_heeds [OF False n this]
    show "heeds ?I ?P (receiver_run hl pl self bins hint_bins keys features (size_t_of f)) (([] @ [n]) @ [f])" by simp
  qed
qed

section \<open>Every run ends, after a bounded number of messages\<close>

text \<open>C12: Whatever the peer does and the libraries answer, under every schedule, a party of the three
  protocols reads the messages of its frame, in that order and with those lengths, and no others; it
  returns only when it has read all of them. ECDH reads two counts and at most two buffers, KKRT at
  most four messages, the circuit sender three and the circuit receiver four and one table per column
  the peer announced, each of a word per hint bin. No schedule of any of them goes on for ever.\<close>

theorem protocol_runs_end:
  "keeps_frame eideal p ecdh_frame (ecdh_process draw g e Net xs) \<and>
   keeps_frame ideal q (kkrt_frame k) (kkrt_process hl pl k Net ys out) \<and>
   keeps_frame ideal r (circuit_frame self (length zs)) (circuit_process hl pl self Net zs features) \<and>
   \<not> (\<exists>c. c 0 = start (ecdh_process draw g e Net xs) p \<and> (\<forall>i. net_step eideal (c i) (c (Suc i)))) \<and>
   \<not> (\<exists>c. c 0 = start (kkrt_process hl pl k Net ys out) q \<and> (\<forall>i. net_step ideal (c i) (c (Suc i)))) \<and>
   \<not> (\<exists>c. c 0 = start (circuit_process hl pl self Net zs features) r \<and>
         (\<forall>i. net_step ideal (c i) (c (Suc i))))"
  by (intro conjI keeps_frameI ecdh_heeds kkrt_heeds circuit_heeds no_infinite_run)

theorem protocol_runs_end_witness:
  "\<exists>h shares self' q'.
     hears toy_duet (start (circuit_process toy_hash toy_prng (toy_circuit True) Net [''a''] [[7]])
        (circuit_process toy_hash toy_prng (toy_circuit False) Net [''b'', ''a''] [[8, 9]]))
       h (Conf (Ret (shares, self')) q' [] []) \<and> map length h = [8, 8, 8]"
proof -
  have role: "p_is_sender (toy_circuit True)" by (simp add: toy_circuit_def)
  let ?q = "circuit_process toy_hash toy_prng (toy_circuit False) Net [''b'', ''a''] [[8, 9]]"
  have "keeps_frame toy_duet ?q (circuit_frame (toy_circuit True) (length [''a'']))
      (circuit_process toy_hash toy_prng (toy_circuit True) Net [''a''] [[7]])"
    by (rule protocol_runs_end [THEN conjunct2, THEN conjunct2, THEN conjunct1])
  moreover have "circuit_frame (toy_circuit True) n h = [8, 8, 8]" for n h by (simp add: circuit_frame_def role)
  ultimately show ?thesis using toy_circuit_hears unfolding keeps_frame_def by fastforce
qed

end
