(* ===== verification/Spec2Isabelle.thy ===== *)
theory Spec2Isabelle
  imports Ecdh_Properties Kkrt_Properties Csv_Properties Csv_States Utility_Properties Factory
    Dummy_Data Circuit_Theorems Sessions Timing Psi_Clients Circuit_Session Circuit_Safety Kkrt_Safety
    Csv_Exceptions Ecdh_Safety Kkrt_Sender_Safety Pjc_Clients Circuit_Receiver_Safety Circuit_Sender_Safety
    Circuit_Pads Run_Frames
begin

text \<open>
  A verification library for PETAce-SetOps: private set intersection (PSI) and private join and
  compute (PJC) between two parties, in C++. Paths are relative to \<open>src/setops/\<close> unless they
  start with \<open>example/\<close>.

  \<^bold>\<open>The program.\<close> A client reads its keys, and for PJC feature columns, through the CSV provider
  (\<open>data/\<close>), builds a scheme (\<open>memory_psi_factory.h\<close>, or the class itself), calls \<open>init\<close> with a
  network and a JSON configuration, where the parties compare their parameters
  (\<open>util/parameter_check.h\<close>), then \<open>process\<close>, and writes the result with the CSV sink. There are
  three schemes: ECDH PSI (\<open>psi/ecdh_psi\<close>: both parties encrypt all keys under both secrets and
  compare), KKRT PSI (\<open>psi/kkrt_psi\<close>: cuckoo hashing and a batched OPRF, the receiver learns the
  intersection and may send it back) and circuit PSI (\<open>pjc/circuit_psi\<close>: an OPRF programmed by
  garbled hint tables, then a two-party computation, both parties get shares).

  \<^bold>\<open>How a party is modelled.\<close> A C++ function without network is a function into \<open>'a res\<close>, an
  \<open>error\<close> or a value (\<open>Prelude\<close>): an exception, an \<open>std::bad_alloc\<close> or length error of a
  container, or undefined behaviour (an access out of range, a null network) are each a value of
  \<open>error\<close>. A function that talks to the peer is an interaction tree \<open>proc\<close> (\<open>Interaction\<close>) of
  sends, blocking receives and calls of two-party functions of the libraries. Two trees run over
  two FIFO byte streams by the step relation \<open>net_step\<close>; \<open>outcomes\<close> is the set of configurations
  in which every schedule may end. It is always a singleton, no schedule is infinite, and a
  configuration in which a party waits for ever is one of its possible values; so a theorem about
  \<open>outcomes\<close> is a statement of total correctness. \<open>survives\<close> and \<open>returns\<close> are what a party
  does against a peer that sends arbitrary bytes, \<open>guarded\<close> when the sub-protocols keep to a
  contract and the messages to a bound that may depend on the messages before. \<open>hears\<close> is a run
  together with the messages the first party received in it, and \<open>heeds\<close> checks on the party's tree
  alone which messages these can be and what is returned after them, whatever the peer does
  (\<open>Histories\<close>). A \<open>std::size_t\<close> is a natural number with the wrap-around written out where the code
  can reach it, features and shares are \<open>64 word\<close>, a \<open>block\<close> is \<open>128 word\<close>, a \<open>double\<close> its 64-bit
  pattern.

  \<^bold>\<open>Theories and sources.\<close>
  \<^item> \<open>Prelude\<close>, \<open>Decimal\<close>, \<open>Algorithms\<close>, \<open>Double\<close>: errors, checked vector access, bounded loops;
    decimal text; \<open>std::binary_search\<close>, \<open>std::find\<close>, \<open>std::sort\<close>; IEEE arithmetic of the table sizes.
  \<^item> \<open>Bytes\<close>: the constants and types of \<open>util/defines.h\<close> and the memory images on the wire, with
    the contract \<open>wire_codec\<close>, interpreted on each image.
  \<^item> \<open>Interaction\<close>, \<open>Histories\<close>, \<open>Config\<close>, \<open>Crypto_Libs\<close>: parties, the messages they receive, and the
    libraries as parameters.
  \<^item> \<open>Parameter_Check\<close>, \<open>Permutations\<close>, \<open>Serialize\<close>, \<open>Dummy_Data\<close>, \<open>Timing\<close>: the headers of \<open>util/\<close>;
    the contract \<open>agreed_parameter\<close> extends \<open>wire_codec\<close> and is interpreted on the parameter types.
  \<^item> \<open>Streams\<close>, \<open>Csv_Provider\<close>, \<open>Csv_Correct\<close>, \<open>Csv_Properties\<close>, \<open>Csv_States\<close>:
    \<open>data/csv_data_provider\<close>; the record \<open>csv\<close> has the members of the class. The contract
    \<open>line_source\<close> of a batch operation is interpreted on all four. \<open>Csv_Exceptions\<close> models the two
    payload batches again with the object and the output an exception leaves.
  \<^item> \<open>Factory\<close>: \<open>memory_psi_factory.h\<close> with the scheme enumerations of \<open>psi/psi.h\<close> and \<open>pjc/pjc.h\<close>.
  \<^item> \<open>Psi_Interface\<close>, \<open>Psi_Contract\<close>, \<open>Psi_Clients\<close>: the virtual functions of the class \<open>PSI\<close>, the
    contract \<open>two_party_psi\<close> of its entry points, interpreted on both schemes and on the
    dispatching functions, and clients that go through the factory. \<open>Pjc_Clients\<close> does the same for
    the class \<open>PJC\<close>, with the contract \<open>two_party_pjc\<close> of shares that join to the ideal result.
  \<^item> \<open>Ecdh_Psi\<close>, \<open>Ecdh_Correct\<close>, \<open>Ecdh_Properties\<close>: \<open>psi/ecdh_psi\<close>; the record \<open>ecdh_psi\<close>, one
    definition per member function (\<open>ecdh_init\<close>, \<open>encrypt_keys\<close>, \<open>exchange_encrypted_keys\<close>, ...);
    \<open>Ecdh_Safety\<close> is about a party whose peer does not follow the protocol.
  \<^item> \<open>Kkrt_Psi\<close>, \<open>Kkrt_Correct\<close>, \<open>Kkrt_Properties\<close>, \<open>Kkrt_Safety\<close>: \<open>psi/kkrt_psi\<close>; the long \<open>process\<close> is cut at its
    own phases (sizes, digests, OPRF of the sender, matching of the receiver, return of the result);
    \<open>Kkrt_Safety\<close> and \<open>Kkrt_Sender_Safety\<close> are about a receiver and a sender whose peer does not
    follow the protocol.
  \<^item> \<open>Circuit_Psi\<close>: \<open>pjc/circuit_psi\<close>; the record \<open>circuit_psi\<close> and the phases of \<open>process\<close> per role
    (\<open>circuit_sender_oprf\<close>, \<open>_hint\<close>, \<open>_features\<close>, \<open>_shares\<close>, and the same for the receiver).
    \<open>Circuit_Correct\<close> treats single phases, \<open>Circuit_Opprf\<close> the programmed OPRF,
    \<open>Circuit_Shares\<close> the computation on shares, \<open>Circuit_Run\<close> the joint run,
    \<open>Circuit_Properties\<close> what the shares join to, \<open>Circuit_Theorems\<close> the claims about two honest
    parties, \<open>Circuit_Pads\<close> the two garbled tables on the wire,
    \<open>Circuit_Safety\<close> a peer that lies about its feature columns, and \<open>Circuit_Peer\<close>,
    \<open>Circuit_Receiver_Safety\<close> and \<open>Circuit_Sender_Safety\<close> either party against any peer.
  \<^item> \<open>Run_Frames\<close>: what each party of the three protocols reads from any peer, message by message, and
    the shape of the shares as a function of the sizes it read.
  \<^item> \<open>Examples\<close>, \<open>Reveal\<close>, \<open>Sessions\<close>, \<open>Circuit_Session\<close>: the sessions of \<open>example/\<close> end to end,
    \<open>Reveal\<close> the exchange of shares that follows a circuit run.
  \<^item> \<open>Utility_Properties\<close>: permutations and the parallel encryption loop.

  \<^bold>\<open>What is proved.\<close>
  \<^item> The two PSI protocols return the intersection (or its size) to whoever is entitled to it,
    under every interleaving, and leave both objects fit for the next run; circuit PSI refines
    the ideal function \<open>joined_table\<close>: joined, the shares of the two parties are that table.
  \<^item> Initialisation ends in matched objects for matching configurations, with the generator seeded by
    both draws and the two halves of one run of the base transfers; stash failures stop both parties
    with the same exception.
  \<^item> Behind the abstract class, whichever scheme the factory builds gives the ideal intersection,
    and the two entry points agree on its size.
  \<^item> Behind the class \<open>PJC\<close>, clients of the factory end with shares of the ideal result, whose
    membership bits count the common keys.
  \<^item> Against a peer that sends any bytes, each party of each protocol meets no undefined behaviour
    under a stated condition on the sizes the peer announces: the ECDH \<open>process\<close> when at least as
    many keys come back as the party has (its cardinality mode without condition), the KKRT receiver
    when the announced product does not wrap around, the KKRT sender and both circuit parties when
    the announced sizes give proper tables and no count wraps around. The conditions are needed: a
    short reply, an announced size or column count that wraps around does drive a party out of
    range, and a mismatched flag into a wait without end. What the cardinality mode of ECDH returns
    is counted from the messages received.
  \<^item> Every schedule ends: a party reads at most the messages of its frame, whose number and lengths
    the peer's announcements fix, and returns only after all of them; returned shares have a row for
    every own and every announced feature column and one for membership.
  \<^item> The membership hint and the first feature column of the circuit sender are under the same pads.
  \<^item> The CSV provider delivers the rows of a file in order, every reachable state keeps its
    invariant, writing and reading are inverse, with the behaviour on blank lines, missing
    fields and too few columns, and what an exception leaves behind; serialisation is inverted on
    exactly the terminated buffers.
  \<^item> The sessions of ECDH and KKRT PSI from files to files, the latter only when the configuration
    has the group its session reads; the circuit session from made-up inputs to the joined table.

  \<^bold>\<open>Hypotheses about libraries.\<close> They are stated as named predicates and hold for the small
  concrete libraries of the witnesses. \<open>ec_ok\<close>: encryption commutes and points have the requested
  width. \<open>uniform_ok\<close>: a draw stays in its range. \<open>simple_table_ok\<close>, \<open>cuckoo_table_ok\<close>,
  \<open>hint_table_ok\<close>: what the hash tables of PETAce-Solo hold and where. \<open>oprf_ok\<close> and
  \<open>circuit_oprf_ok\<close>: the masks of the receiver are the sender's encodings of its values.
  \<open>duet_ok\<close>: the equality test and the multiplexer of PETAce-Duet give shares of their result.
  \<open>no_collision\<close>, \<open>kkrt_no_collision\<close>, \<open>circuit_no_false_hit\<close>: on the keys at hand the digests and
  truncated masks do not collide, an event of negligible probability that no exact statement
  about 64-bit values can exclude.

  \<^bold>\<open>Bounds and fuel.\<close> No definition needs fuel: loops run over counters, and the loops on
  \<open>getline\<close> and on serialised buffers terminate by measures on the unread characters. Sizes are
  bounded by the limits of containers (\<open>max_bytes\<close>, \<open>max_vectors\<close>, \<open>max_strings\<close>, ...), which are
  those of \<open>std::vector::max_size\<close> on the 64-bit target; a request above them is the length
  error. The \<open>run_sched\<close> of the witnesses takes a number of steps and is followed by a proof
  that no step is left.

  \<^bold>\<open>Not modelled.\<close> Logging, and the calls of \<open>util/time.h\<close> whose result is only logged; flag parsing and reading the configuration file; the
  network, cryptography, oblivious-transfer, computation and JSON libraries, which are parameters;
  failures of the network itself (an exception of \<open>send_data\<close> or \<open>recv_data\<close>) and of allocations
  below the container limits; exceptions that leave an OpenMP parallel region, which end the
  program and are an error here; the state of an object after one of its operations has thrown, except
  for the payload batches of the CSV provider;
  the paired draws of the standard library's \<open>std::shuffle\<close>, taken here one by one from the
  generator; the tests and the build files.
\<close>

end
